(* ===== verification/Prelude.thy ===== *)
theory Prelude
  imports Main "HOL-Library.Word" "HOL-Library.Multiset" "HOL-Library.List_Lexorder"
begin

text \<open>
  Shared vocabulary of the development: the machine types of the C++ sources, byte strings
  with the order of \<open>std::string\<close>, the ordered maps that stand for \<open>std::map\<close>, and the
  generic facts on lists and words that the component theories use.

  \<^item> \<open>uint64_t\<close> is \<open>64 word\<close> (\<open>+\<close> and \<open>-\<close> wrap around as in C++);
  \<^item> a key (\<open>std::string\<close>, \<open>Slice\<close>) is a list of bytes. \<open>std::string::compare\<close> and
    \<open>Slice::compare\<close> compare bytes as unsigned values and a proper prefix is smaller, which is
    the lexicographic order on \<open>8 word list\<close>;
  \<^item> \<open>std::map\<close> is an association list sorted strictly by key: iteration is the order of the
    list.
\<close>

type_synonym byte = "8 word"
type_synonym key = "byte list"
type_synonym u64 = "64 word"

named_theorems stats_simps \<open>equations for the window statistics of a bucket\<close>
named_theorems range_simps \<open>equations for key ranges and their chains\<close>

section \<open>Byte strings\<close>

lemma append_less_append [simp]: "(zs @ xs < zs @ ys) = (xs < (ys :: 'a :: linorder list))"
  by (induction zs) auto

lemma append_le_append [simp]: "(zs @ xs \<le> zs @ ys) = (xs \<le> (ys :: 'a :: linorder list))"
  by (induction zs) auto

lemma less_append_nonempty [simp]: "((xs :: 'a :: linorder list) < xs @ ys) = (ys \<noteq> [])"
  using append_less_append [of xs "[]" ys] by (cases ys) auto

lemma Nil_less_iff [simp]: "([] < (xs :: 'a :: linorder list)) = (xs \<noteq> [])"
  by (cases xs) auto

lemma less_nonempty: "(xs :: 'a :: linorder list) < ys \<Longrightarrow> ys \<noteq> []"
  by auto

text \<open>Two lists in strict lexicographic order part at a first position, or one extends the other.\<close>

lemma list_less_ex:
  fixes xs ys :: "'a :: linorder list"
  assumes "xs < ys"
  shows "(\<exists>z zs. ys = xs @ z # zs) \<or>
    (\<exists>us x xs' y ys'. xs = us @ x # xs' \<and> ys = us @ y # ys' \<and> x < y)"
  using assms
proof (induction xs arbitrary: ys)
  case Nil
  then show ?case by (cases ys) auto
next
  case (Cons x xs)
  from Cons.prems obtain y ys' where ys: "ys = y # ys'" by (cases ys) auto
  show ?case
  proof (cases "x < y")
    case True
    then show ?thesis using ys by (metis append_Nil)
  next
    case False
    with Cons.prems ys have "x = y" and less: "xs < ys'" by auto
    from Cons.IH [OF less] show ?thesis
    proof
      assume "\<exists>z zs. ys' = xs @ z # zs"
      then show ?thesis using ys \<open>x = y\<close> by auto
    next
      assume "\<exists>us a as b bs. xs = us @ a # as \<and> ys' = us @ b # bs \<and> a < b"
      then obtain us a as b bs where "xs = us @ a # as" "ys' = us @ b # bs" "a < b" by blast
      then have "x # xs = (x # us) @ a # as" "ys = (x # us) @ b # bs" using ys \<open>x = y\<close> by auto
      then show ?thesis using \<open>a < b\<close> by blast
    qed
  qed
qed

lemma list_less_cases:
  fixes xs ys :: "'a :: linorder list"
  assumes "xs < ys"
  obtains (prefix) z zs where "ys = xs @ z # zs"
  | (diverge) us x xs' y ys' where "xs = us @ x # xs'" "ys = us @ y # ys'" "x < y"
  using list_less_ex [OF assms] by blast

lemma byte_bound: "unat (x :: byte) < 256"
  using unsigned_less [of x, where ?'a = nat] by simp

lemma byte_pred_less:
  assumes "x \<noteq> (0 :: byte)"
  shows "x - 1 < x"
proof -
  have "0 < unat x" using assms unat_gt_0 by blast
  then show ?thesis using unat_minus_one [OF assms] by (simp add: word_less_nat_alt)
qed

section \<open>Lists\<close>

text \<open>The middle element that the sources read as \<open>v[v.size() / 2]\<close> after sorting.\<close>

definition median_of :: "key list \<Rightarrow> key" where
  "median_of ks = sort ks ! (length ks div 2)"

lemma median_of_in: "ks \<noteq> [] \<Longrightarrow> median_of ks \<in> set ks"
proof -
  assume "ks \<noteq> []"
  then have "length ks div 2 < length (sort ks)" by (cases ks) auto
  then have "sort ks ! (length ks div 2) \<in> set (sort ks)" by (rule nth_mem)
  then show ?thesis by (simp add: median_of_def)
qed

lemma sum_list_replicate_const: "(\<Sum>x\<leftarrow>xs. c) = of_nat (length xs) * (c :: 'a :: semiring_1)"
  by (induction xs) (auto simp: algebra_simps)

lemma split_nth: "i < length xs \<Longrightarrow> xs = take i xs @ xs ! i # drop (Suc i) xs"
  by (simp add: id_take_nth_drop)

lemma take_Suc_nth: "i < length xs \<Longrightarrow> take (Suc i) xs = take i xs @ [xs ! i]"
  by (simp add: take_Suc_conv_app_nth)

section \<open>Ordered maps\<close>

type_synonym ('k, 'v) omap = "('k \<times> 'v) list"

definition omap_ok :: "('k :: linorder, 'v) omap \<Rightarrow> bool" where
  "omap_ok m \<longleftrightarrow> sorted_wrt (<) (map fst m)"

fun omap_upd :: "'k :: linorder \<Rightarrow> 'v \<Rightarrow> ('k, 'v) omap \<Rightarrow> ('k, 'v) omap" where
  "omap_upd k v [] = [(k, v)]"
| "omap_upd k v ((k', v') # m) =
     (if k < k' then (k, v) # (k', v') # m
      else if k = k' then (k, v) # m
      else (k', v') # omap_upd k v m)"

definition omap_del :: "'k \<Rightarrow> ('k, 'v) omap \<Rightarrow> ('k, 'v) omap" where
  "omap_del k m = filter (\<lambda>(k', _). k' \<noteq> k) m"

lemma omap_ok_Nil [simp]: "omap_ok []"
  by (simp add: omap_ok_def)

lemma omap_ok_Cons:
  "omap_ok ((k, v) # m) \<longleftrightarrow> (\<forall>k' \<in> fst ` set m. k < k') \<and> omap_ok m"
  by (auto simp: omap_ok_def)

lemma omap_ok_distinct: "omap_ok m \<Longrightarrow> distinct (map fst m)"
  by (simp add: omap_ok_def strict_sorted_iff)

lemma keys_omap_upd [simp]: "fst ` set (omap_upd k v m) = insert k (fst ` set m)"
  by (induction k v m rule: omap_upd.induct) auto

lemma omap_ok_upd [intro]: "omap_ok m \<Longrightarrow> omap_ok (omap_upd k v m)"
  by (induction k v m rule: omap_upd.induct) (auto simp: omap_ok_Cons)

lemma omap_ok_filter [intro]: "omap_ok m \<Longrightarrow> omap_ok (filter P m)"
  by (induction m) (auto simp: omap_ok_Cons)

lemma omap_ok_del [intro]: "omap_ok m \<Longrightarrow> omap_ok (omap_del k m)"
  by (simp add: omap_del_def omap_ok_filter)

lemma map_of_omap_upd [simp]: "omap_ok m \<Longrightarrow> map_of (omap_upd k v m) = (map_of m)(k \<mapsto> v)"
proof (induction k v m rule: omap_upd.induct)
  case (2 k v k' v' m)
  show ?case
  proof (cases "k < k' \<or> k = k'")
    case True
    then show ?thesis by (auto simp: fun_eq_iff)
  next
    case False
    then have "\<not> k < k'" "k \<noteq> k'" by auto
    moreover from 2 this have "map_of (omap_upd k v m) = (map_of m)(k \<mapsto> v)"
      by (auto simp: omap_ok_Cons)
    ultimately show ?thesis by (auto simp: fun_eq_iff)
  qed
qed simp

lemma map_of_omap_del [simp]: "map_of (omap_del k m) = (map_of m)(k := None)"
  by (induction m) (auto simp: omap_del_def fun_eq_iff)

lemma keys_omap_del [simp]: "fst ` set (omap_del k m) = fst ` set m - {k}"
  by (induction m) (auto simp: omap_del_def)

text \<open>A sum over the values of an ordered map under the two updates.\<close>

definition omap_sum :: "('v \<Rightarrow> 'a :: comm_monoid_add) \<Rightarrow> ('k, 'v) omap \<Rightarrow> 'a" where
  "omap_sum f m = (\<Sum>(_, v) \<leftarrow> m. f v)"

lemma omap_sum_Nil [simp]: "omap_sum f [] = 0"
  by (simp add: omap_sum_def)

lemma omap_sum_Cons [simp]: "omap_sum f ((k, v) # m) = f v + omap_sum f m"
  by (simp add: omap_sum_def)

lemma omap_sum_upd_fresh:
  "k \<notin> fst ` set m \<Longrightarrow> omap_sum f (omap_upd k v m) = f v + omap_sum f m"
  by (induction k v m rule: omap_upd.induct) (auto simp: algebra_simps)

lemma omap_sum_upd_present:
  fixes f :: "'v \<Rightarrow> 'a :: ab_group_add"
  assumes "omap_ok m" and "map_of m k = Some w"
  shows "omap_sum f (omap_upd k v m) = omap_sum f m - f w + f v"
  using assms
  by (induction k v m rule: omap_upd.induct)
     (auto simp: omap_ok_Cons dest!: map_of_SomeD split: if_splits)

lemma omap_sum_del:
  fixes f :: "'v \<Rightarrow> 'a :: ab_group_add"
  assumes "omap_ok m"
  shows "omap_sum f (omap_del k m) =
    omap_sum f m - (case map_of m k of None \<Rightarrow> 0 | Some w \<Rightarrow> f w)"
  using assms
proof (induction m)
  case (Cons kv m)
  obtain k' v' where kv: "kv = (k', v')" by (cases kv)
  show ?case
  proof (cases "k' = k")
    case True
    with Cons.prems kv have "k \<notin> fst ` set m" by (auto simp: omap_ok_Cons)
    then have "omap_del k m = m" unfolding omap_del_def filter_id_conv by force
    with True kv show ?thesis by (simp add: omap_del_def)
  next
    case False
    with Cons kv show ?thesis by (simp add: omap_del_def omap_ok_Cons algebra_simps)
  qed
qed (simp add: omap_del_def)

lemma omap_sum_filter:
  "omap_sum f (filter P m) + omap_sum f (filter (\<lambda>x. \<not> P x) m) =
    omap_sum (f :: 'v \<Rightarrow> 'a :: comm_monoid_add) m"
  by (induction m) (auto simp: omap_sum_def algebra_simps)

text \<open>
  The interface of \<open>std::map\<close> that the components rely on, and its interpretation on the
  ordered association lists.
\<close>

locale std_map =
  fixes emp :: 'm
    and upd :: "'k :: linorder \<Rightarrow> 'v \<Rightarrow> 'm \<Rightarrow> 'm"
    and del :: "'k \<Rightarrow> 'm \<Rightarrow> 'm"
    and lookup :: "'m \<Rightarrow> 'k \<Rightarrow> 'v option"
    and keys :: "'m \<Rightarrow> 'k list"
    and ok :: "'m \<Rightarrow> bool"
  assumes ok_emp: "ok emp"
    and ok_upd: "ok m \<Longrightarrow> ok (upd k v m)"
    and ok_del: "ok m \<Longrightarrow> ok (del k m)"
    and lookup_emp: "lookup emp = (\<lambda>_. None)"
    and lookup_upd: "ok m \<Longrightarrow> lookup (upd k v m) = (lookup m)(k \<mapsto> v)"
    and lookup_del: "ok m \<Longrightarrow> lookup (del k m) = (lookup m)(k := None)"
    and keys_sorted: "ok m \<Longrightarrow> sorted_wrt (<) (keys m)"
    and keys_lookup: "ok m \<Longrightarrow> set (keys m) = dom (lookup m)"
begin

lemma upd_same: "ok m \<Longrightarrow> lookup (upd k v m) k = Some v"
  by (simp add: lookup_upd)

lemma upd_other: "ok m \<Longrightarrow> k' \<noteq> k \<Longrightarrow> lookup (upd k v m) k' = lookup m k'"
  by (simp add: lookup_upd)

lemma del_absent: "ok m \<Longrightarrow> k \<notin> set (keys (del k m))"
  by (simp add: ok_del keys_lookup lookup_del)

lemma upd_del_restore: "ok m \<Longrightarrow> lookup m k = None \<Longrightarrow> lookup (del k (upd k v m)) = lookup m"
  by (auto simp: lookup_del lookup_upd ok_upd)

lemma keys_unique: "ok m \<Longrightarrow> distinct (keys m)"
  using keys_sorted strict_sorted_iff by blast

end

interpretation om: std_map "[]" omap_upd omap_del map_of "map fst" omap_ok
  by unfold_locales (auto simp: omap_ok_def [symmetric] dom_map_of_conv_image_fst)

end
