(* ===== verification/Bucket_Window.thy ===== *)
theory Bucket_Window
  imports Prelude
begin

text \<open>
  The \<open>Bucket\<close> of \<open>db/column_family.h\<close>: a key range with a sliding window of flush events
  and three incremental aggregates over the window. Every counter is a \<open>uint64_t\<close>.

  The lemmas show that the aggregates stay equal to the sums over the recorded events
  (\<open>stats_ok\<close>) under every operation of the struct.
\<close>

section \<open>Data\<close>

record FlushEvent =
  ev_flush_id :: u64
  ev_file_count :: u64
  ev_entry_count :: u64
  ev_data_bytes :: u64
  ev_median_key :: key

record Bucket =
  min_key :: key
  max_key :: key
  flush_events :: "(u64, FlushEvent) omap"
  window_file_count :: u64
  window_entry_count :: u64
  window_data_bytes :: u64

definition WINDOW_SIZE :: u64 where
  "WINDOW_SIZE = 10"

text \<open>A default-constructed \<open>Bucket\<close> with the given range.\<close>

definition new_bucket :: "key \<Rightarrow> key \<Rightarrow> Bucket" where
  "new_bucket lo hi = \<lparr>min_key = lo, max_key = hi, flush_events = [],
     window_file_count = 0, window_entry_count = 0, window_data_bytes = 0\<rparr>"

section \<open>Operations\<close>

definition AddFlushEvent :: "u64 \<Rightarrow> u64 \<Rightarrow> u64 \<Rightarrow> u64 \<Rightarrow> key \<Rightarrow> Bucket \<Rightarrow> Bucket" where
  "AddFlushEvent flush_id file_count entries bytes median b =
     (let event = \<lparr>ev_flush_id = flush_id, ev_file_count = file_count,
                   ev_entry_count = entries, ev_data_bytes = bytes, ev_median_key = median\<rparr>
      in b\<lparr>flush_events := omap_upd flush_id event (flush_events b),
           window_file_count := window_file_count b + file_count,
           window_entry_count := window_entry_count b + entries,
           window_data_bytes := window_data_bytes b + bytes\<rparr>)"

definition RemoveFlushEvent :: "u64 \<Rightarrow> Bucket \<Rightarrow> Bucket" where
  "RemoveFlushEvent flush_id b =
     (case map_of (flush_events b) flush_id of
        None \<Rightarrow> b
      | Some e \<Rightarrow>
          b\<lparr>window_file_count := window_file_count b - ev_file_count e,
            window_entry_count := window_entry_count b - ev_entry_count e,
            window_data_bytes := window_data_bytes b - ev_data_bytes e,
            flush_events := omap_del flush_id (flush_events b)\<rparr>)"

definition RecalculateWindowStats :: "Bucket \<Rightarrow> Bucket" where
  "RecalculateWindowStats b =
     fold (\<lambda>(_, e) acc.
            acc\<lparr>window_file_count := window_file_count acc + ev_file_count e,
                window_entry_count := window_entry_count acc + ev_entry_count e,
                window_data_bytes := window_data_bytes acc + ev_data_bytes e\<rparr>)
          (flush_events b)
          (b\<lparr>window_file_count := 0, window_entry_count := 0, window_data_bytes := 0\<rparr>)"

section \<open>The aggregates are the window sums\<close>

definition stats_ok :: "Bucket \<Rightarrow> bool" where
  "stats_ok b \<longleftrightarrow> omap_ok (flush_events b) \<and>
     window_file_count b = omap_sum ev_file_count (flush_events b) \<and>
     window_entry_count b = omap_sum ev_entry_count (flush_events b) \<and>
     window_data_bytes b = omap_sum ev_data_bytes (flush_events b)"

definition event_ids :: "Bucket \<Rightarrow> u64 set" where
  "event_ids b = fst ` set (flush_events b)"

lemma stats_ok_new [simp, intro]: "stats_ok (new_bucket lo hi)"
  by (simp add: stats_ok_def new_bucket_def)

lemma new_bucket_fields [simp]:
  "min_key (new_bucket lo hi) = lo" "max_key (new_bucket lo hi) = hi"
  "flush_events (new_bucket lo hi) = []" "event_ids (new_bucket lo hi) = {}"
  "window_file_count (new_bucket lo hi) = 0" "window_entry_count (new_bucket lo hi) = 0"
  "window_data_bytes (new_bucket lo hi) = 0"
  by (simp_all add: new_bucket_def event_ids_def)

lemma AddFlushEvent_range [simp]:
  "min_key (AddFlushEvent i f n d m b) = min_key b"
  "max_key (AddFlushEvent i f n d m b) = max_key b"
  by (simp_all add: AddFlushEvent_def)

lemma AddFlushEvent_window [stats_simps]:
  "window_file_count (AddFlushEvent i f n d m b) = window_file_count b + f"
  "window_entry_count (AddFlushEvent i f n d m b) = window_entry_count b + n"
  "window_data_bytes (AddFlushEvent i f n d m b) = window_data_bytes b + d"
  by (simp_all add: AddFlushEvent_def)

lemma event_ids_AddFlushEvent [simp]:
  "event_ids (AddFlushEvent i f n d m b) = insert i (event_ids b)"
  by (simp add: AddFlushEvent_def event_ids_def)

text \<open>
  A fresh id keeps the aggregates exact. (With an id that is already present the map entry is
  overwritten while the aggregates still grow; \<open>BucketManager\<close> always passes a fresh id.)
\<close>

lemma stats_ok_AddFlushEvent:
  "stats_ok b \<Longrightarrow> i \<notin> event_ids b \<Longrightarrow> stats_ok (AddFlushEvent i f n d m b)"
  by (auto simp: stats_ok_def AddFlushEvent_def event_ids_def omap_sum_upd_fresh)

lemma RemoveFlushEvent_range [simp]:
  "min_key (RemoveFlushEvent i b) = min_key b"
  "max_key (RemoveFlushEvent i b) = max_key b"
  by (simp_all add: RemoveFlushEvent_def split: option.splits)

lemma event_ids_RemoveFlushEvent [simp]: "event_ids (RemoveFlushEvent i b) = event_ids b - {i}"
  by (auto simp: RemoveFlushEvent_def event_ids_def map_of_eq_None_iff split: option.splits)

lemma stats_ok_RemoveFlushEvent: "stats_ok b \<Longrightarrow> stats_ok (RemoveFlushEvent i b)"
  by (auto simp: stats_ok_def RemoveFlushEvent_def omap_sum_del split: option.splits)

lemma recalc_fold:
  "fold (\<lambda>(_, e) acc.
            acc\<lparr>window_file_count := window_file_count acc + ev_file_count e,
                window_entry_count := window_entry_count acc + ev_entry_count e,
                window_data_bytes := window_data_bytes acc + ev_data_bytes e\<rparr>) es b =
   b\<lparr>window_file_count := window_file_count b + omap_sum ev_file_count es,
     window_entry_count := window_entry_count b + omap_sum ev_entry_count es,
     window_data_bytes := window_data_bytes b + omap_sum ev_data_bytes es\<rparr>"
  by (induction es arbitrary: b) (auto simp: algebra_simps)

lemma RecalculateWindowStats_eq:
  "RecalculateWindowStats b =
     b\<lparr>window_file_count := omap_sum ev_file_count (flush_events b),
       window_entry_count := omap_sum ev_entry_count (flush_events b),
       window_data_bytes := omap_sum ev_data_bytes (flush_events b)\<rparr>"
  by (simp add: RecalculateWindowStats_def recalc_fold)

lemma Recalculate_fields [simp]:
  "min_key (RecalculateWindowStats b) = min_key b"
  "max_key (RecalculateWindowStats b) = max_key b"
  "flush_events (RecalculateWindowStats b) = flush_events b"
  "event_ids (RecalculateWindowStats b) = event_ids b"
  by (simp_all add: RecalculateWindowStats_eq event_ids_def)

lemma stats_ok_Recalculate:
  "omap_ok (flush_events b) \<Longrightarrow> stats_ok (RecalculateWindowStats b)"
  by (simp add: stats_ok_def RecalculateWindowStats_eq)

text \<open>Recomputing a bucket whose aggregates are exact changes nothing.\<close>

lemma Recalculate_idem: "stats_ok b \<Longrightarrow> RecalculateWindowStats b = b"
  by (simp add: stats_ok_def RecalculateWindowStats_eq)

end
