(* ===== verification/Key_Ranges.thy ===== *)
theory Key_Ranges
  imports Prelude
begin

text \<open>
  Half-open key ranges \<open>[min, max)\<close> as the bucket code reads them (an empty \<open>min\<close> is minus
  infinity, an empty \<open>max\<close> plus infinity), lists of ranges that chain from one end of the key
  space to the other, and the interface of a bucket lookup over such a list.
\<close>

type_synonym range = "key \<times> key"

fun in_range :: "range \<Rightarrow> key \<Rightarrow> bool" where
  "in_range (lo, hi) k = ((lo = [] \<or> lo \<le> k) \<and> (hi = [] \<or> k < hi))"

text \<open>The loops of the sources return the first index that satisfies a test.\<close>

fun first_index :: "('a \<Rightarrow> bool) \<Rightarrow> 'a list \<Rightarrow> nat option" where
  "first_index P [] = None"
| "first_index P (x # xs) = (if P x then Some 0 else map_option Suc (first_index P xs))"

lemma first_index_SomeD:
  "first_index P xs = Some i \<Longrightarrow> i < length xs \<and> P (xs ! i) \<and> (\<forall>j < i. \<not> P (xs ! j))"
proof (induction xs arbitrary: i)
  case (Cons x xs)
  show ?case
  proof (cases "P x")
    case True
    with Cons.prems show ?thesis by simp
  next
    case False
    with Cons.prems obtain i' where i': "first_index P xs = Some i'" "i = Suc i'" by auto
    with Cons.IH [of i'] False show ?thesis by (auto simp: nth_Cons split: nat.splits)
  qed
qed simp

lemma first_index_NoneD: "first_index P xs = None \<Longrightarrow> \<forall>x \<in> set xs. \<not> P x"
  by (induction xs) (auto split: if_splits)

lemma first_index_map: "first_index P (map f xs) = first_index (P \<circ> f) xs"
  by (induction xs) auto

section \<open>Chains of ranges\<close>

text \<open>\<open>link lo rs hi\<close>: each range starts where the one before it ends.\<close>

fun link :: "key \<Rightarrow> range list \<Rightarrow> key \<Rightarrow> bool" where
  "link lo [] hi = (lo = hi)"
| "link lo ((a, b) # rs) hi = (a = lo \<and> link b rs hi)"

definition covers_all :: "range list \<Rightarrow> bool" where
  "covers_all rs \<longleftrightarrow> rs \<noteq> [] \<and> link [] rs []"

text \<open>A partition: a chain whose inner boundaries are finite and do not decrease.\<close>

definition ranges_ok :: "range list \<Rightarrow> bool" where
  "ranges_ok rs \<longleftrightarrow> covers_all rs \<and> sorted (map fst rs) \<and> [] \<notin> set (map fst (tl rs))"

lemma link_append [range_simps]:
  "link lo (xs @ ys) hi \<longleftrightarrow> (\<exists>m. link lo xs m \<and> link m ys hi)"
  by (induction lo xs hi rule: link.induct) auto

lemma link_unique: "link lo rs h1 \<Longrightarrow> link lo rs h2 \<Longrightarrow> h1 = h2"
  by (induction lo rs h1 rule: link.induct) auto

lemma link_adjacent: "link lo rs hi \<Longrightarrow> Suc i < length rs \<Longrightarrow> snd (rs ! i) = fst (rs ! Suc i)"
proof (induction lo rs hi arbitrary: i rule: link.induct)
  case (2 lo a b rs hi)
  show ?case
  proof (cases i)
    case 0
    with 2 show ?thesis by (cases rs) auto
  next
    case (Suc j)
    with 2 show ?thesis by simp
  qed
qed simp

lemma link_last: "link lo rs hi \<Longrightarrow> rs \<noteq> [] \<Longrightarrow> snd (last rs) = hi"
  by (induction lo rs hi rule: link.induct) (auto split: if_splits)

lemma link_hd: "link lo rs hi \<Longrightarrow> rs \<noteq> [] \<Longrightarrow> fst (hd rs) = lo"
  by (cases rs) auto

lemma link_cover:
  assumes "link lo rs hi" and "rs \<noteq> []" and "lo = [] \<or> lo \<le> k" and "hi = [] \<or> k < hi"
  shows "\<exists>r \<in> set rs. in_range r k"
  using assms
proof (induction lo rs hi rule: link.induct)
  case (2 lo a b rs hi)
  show ?case
  proof (cases "b = [] \<or> k < b")
    case True
    with 2 have "in_range (a, b) k" by auto
    then show ?thesis by auto
  next
    case False
    then have "b \<le> k" "b \<noteq> []" by auto
    with 2 have "rs \<noteq> []" by (cases rs) auto
    with 2 \<open>b \<le> k\<close> show ?thesis by auto
  qed
qed simp

lemma covers_all_cover: "covers_all rs \<Longrightarrow> \<exists>r \<in> set rs. in_range r k"
  unfolding covers_all_def using link_cover [of "[]" rs "[]" k] by auto

lemma ranges_ok_disjoint:
  assumes "ranges_ok rs" and "i < j" and "j < length rs" and "in_range (rs ! i) k"
  shows "\<not> in_range (rs ! j) k"
proof
  assume j: "in_range (rs ! j) k"
  from assms have l: "link [] rs []" and s: "sorted (map fst rs)"
    and ne: "[] \<notin> set (map fst (tl rs))"
    by (auto simp: ranges_ok_def covers_all_def)
  have inner: "fst (rs ! m) \<noteq> []" if "0 < m" "m < length rs" for m
  proof -
    have "rs ! m = tl rs ! (m - 1)" using that by (simp add: nth_tl)
    moreover have "tl rs ! (m - 1) \<in> set (tl rs)" using that by (intro nth_mem) auto
    ultimately have "fst (rs ! m) \<in> set (map fst (tl rs))" by simp
    then show ?thesis using ne by metis
  qed
  have fin: "fst (rs ! Suc i) \<noteq> []" "fst (rs ! j) \<noteq> []"
    using inner [of "Suc i"] inner [of j] assms(2,3) by auto
  have "snd (rs ! i) = fst (rs ! Suc i)" using link_adjacent [OF l] assms(2,3) by simp
  then have "k < fst (rs ! Suc i)" using assms(4) fin by (cases "rs ! i") auto
  moreover have "fst (rs ! Suc i) \<le> fst (rs ! j)"
    using s assms(2,3) by (simp add: sorted_iff_nth_mono)
  moreover have "fst (rs ! j) \<le> k" using j fin by (cases "rs ! j") auto
  ultimately show False by simp
qed

lemma ranges_ok_unique:
  assumes "ranges_ok rs" and "i < length rs" and "j < length rs"
    and "in_range (rs ! i) k" and "in_range (rs ! j) k"
  shows "i = j"
  using ranges_ok_disjoint [OF assms(1)] assms(2-) by (metis linorder_neqE_nat)

section \<open>The interface of a bucket lookup\<close>

text \<open>
  A lookup over a state \<open>'s\<close> with a list of ranges: on a state whose ranges chain, the index it
  returns is valid and its range holds the key. The flush and the compaction output code rely on
  no more than this.
\<close>

locale bucket_lookup =
  fixes rng :: "'s \<Rightarrow> range list"
    and find :: "'s \<Rightarrow> key \<Rightarrow> int"
  assumes find_hit: "covers_all (rng s) \<Longrightarrow>
      0 \<le> find s k \<and> nat (find s k) < length (rng s) \<and> in_range (rng s ! nat (find s k)) k"
begin

lemma find_valid: "covers_all (rng s) \<Longrightarrow> 0 \<le> find s k \<and> find s k < int (length (rng s))"
  using find_hit [of s k] by linarith

lemma find_iff:
  assumes "ranges_ok (rng s)" and "i < length (rng s)"
  shows "find s k = int i \<longleftrightarrow> in_range (rng s ! i) k"
proof -
  from assms(1) have c: "covers_all (rng s)" by (simp add: ranges_ok_def)
  note h = find_hit [OF c, of k]
  show ?thesis
  proof
    assume "find s k = int i"
    with h show "in_range (rng s ! i) k" by simp
  next
    assume "in_range (rng s ! i) k"
    with h assms have "nat (find s k) = i" by (blast intro: ranges_ok_unique)
    with h show "find s k = int i" by linarith
  qed
qed

lemma find_same_ranges:
  assumes "ranges_ok (rng s)" and "rng t = rng s"
  shows "find t k = find s k"
proof -
  from assms(1) have c: "covers_all (rng s)" by (simp add: ranges_ok_def)
  note h = find_hit [OF c, of k]
  then have "find t k = int (nat (find s k))"
    using find_iff [of t "nat (find s k)" k] assms by simp
  with h show ?thesis by simp
qed

lemma find_mono:
  assumes "ranges_ok (rng s)" and "k \<le> k'"
  shows "find s k \<le> find s k'"
proof (rule ccontr)
  assume n: "\<not> find s k \<le> find s k'"
  from assms(1) have c: "covers_all (rng s)" by (simp add: ranges_ok_def)
  define i j where "i = nat (find s k')" and "j = nat (find s k)"
  have ij: "i < j" "j < length (rng s)"
    using n find_hit [OF c, of k] find_hit [OF c, of k'] by (auto simp: i_def j_def)
  have hi: "in_range (rng s ! i) k'" and hj: "in_range (rng s ! j) k"
    using find_hit [OF c] by (auto simp: i_def j_def)
  obtain a b where ab: "rng s ! i = (a, b)" by fastforce
  have "fst (rng s ! i) \<le> fst (rng s ! j)"
    using assms(1) ij by (simp add: ranges_ok_def sorted_iff_nth_mono)
  moreover have "fst (rng s ! j) \<le> k" using hj by (cases "rng s ! j") auto
  ultimately have "in_range (rng s ! i) k"
    using hi ab assms(2) by auto
  then show False using ranges_ok_disjoint [OF assms(1) ij] hj by blast
qed

end

end
