(* ===== verification/Split_Point.thy ===== *)
theory Split_Point
  imports Bucket_Window Key_Ranges
begin

text \<open>
  How \<open>BucketManager\<close> chooses the key at which a bucket is split: the median of the medians of
  the recorded flushes (\<open>ComputeSplitPoint\<close>), a byte-wise midpoint (\<open>ComputeMidpointKey\<close>) and
  the validation at the start of \<open>SplitBucket\<close>.

  \<open>char\<close> is signed on the platforms the project builds for, so \<open>b[0] > '\x01'\<close> is a signed
  comparison; the comparisons of whole strings are unsigned.

  The lemmas show when the chosen key lies strictly inside the bucket: for two finite bounds it
  does exactly when any key lies strictly between them.
\<close>

section \<open>ComputeMidpointKey\<close>

text \<open>
  The loop over the common length: \<open>acc\<close> is the part of \<open>a\<close> read so far (the source's
  \<open>a.substr(0, i)\<close>), \<open>Some\<close> a \<open>return\<close> inside the loop, \<open>None\<close> its normal end.
\<close>

fun midpoint_loop :: "key \<Rightarrow> key \<Rightarrow> key \<Rightarrow> key \<Rightarrow> key \<Rightarrow> key option" where
  "midpoint_loop a b acc (x # xs) (y # ys) =
     (if x < y then
        let mid = word_of_nat ((unat x + unat y) div 2); result = acc @ [mid]
        in if a < result \<and> result < b then Some result else Some (a @ [0x80])
      else midpoint_loop a b (acc @ [x]) xs ys)"
| "midpoint_loop a b acc _ _ = None"

definition ComputeMidpointKey :: "key \<Rightarrow> key \<Rightarrow> key" where
  "ComputeMidpointKey a b =
     (if a = [] \<and> b = [] then [77]
      else if a = [] then
        (if 1 < sint (hd b) then [hd b - 1] else [1])
      else if b = [] then a @ [0x80]
      else case midpoint_loop a b [] a b of
        Some r \<Rightarrow> r
      | None \<Rightarrow>
          if length a < length b then
            let result = a @ [word_of_nat (unat (b ! length a) div 2)]
            in if a < result \<and> result < b then result else a @ [0x80]
          else a @ [0x80])"

definition ComputeSplitPoint :: "Bucket \<Rightarrow> key" where
  "ComputeSplitPoint b =
     (let median_keys = map (ev_median_key \<circ> snd)
            (filter (\<lambda>(_, e). ev_median_key e \<noteq> [] \<and> ev_file_count e > 0) (flush_events b))
      in if median_keys = [] then [] else median_of median_keys)"

text \<open>The choice and validation of the split point in \<open>SplitBucket\<close>.\<close>

definition choose_split_point :: "Bucket \<Rightarrow> key" where
  "choose_split_point b =
     (let s0 = ComputeSplitPoint b;
          s1 = (if s0 = [] then ComputeMidpointKey (min_key b) (max_key b) else s0);
          s2 = (if min_key b \<noteq> [] \<and> s1 \<le> min_key b
                then ComputeMidpointKey (min_key b) (max_key b) else s1)
      in if max_key b \<noteq> [] \<and> max_key b \<le> s2
         then ComputeMidpointKey (min_key b) (max_key b) else s2)"

section \<open>The midpoint of two finite keys\<close>

lemma midpoint_loop_prefix:
  "midpoint_loop a b acc xs (xs @ zs) = None"
  by (induction xs arbitrary: acc) (cases zs; simp)+

lemma midpoint_loop_skip:
  "midpoint_loop a b acc (us @ xs) (us @ ys) = midpoint_loop a b (acc @ us) xs ys"
  by (induction us arbitrary: acc) auto

lemma mid_word_bounds:
  fixes x y :: byte
  assumes "x < y"
  shows "x \<le> word_of_nat ((unat x + unat y) div 2)" and "word_of_nat ((unat x + unat y) div 2) < y"
proof -
  let ?m = "(unat x + unat y) div 2"
  have xy: "unat x < unat y" using assms by (simp add: word_less_nat_alt)
  have "?m < 256" using byte_bound [of x] byte_bound [of y] by simp
  then have u: "unat (word_of_nat ?m :: byte) = ?m" by (simp add: unat_of_nat)
  show "x \<le> word_of_nat ?m" using xy by (simp add: word_le_nat_alt u)
  show "word_of_nat ?m < y" using xy by (simp add: word_less_nat_alt u)
qed

lemma midpoint_diverge:
  assumes "x < (y :: byte)" and "us @ x # xs \<noteq> []"
  shows "us @ x # xs < ComputeMidpointKey (us @ x # xs) (us @ y # ys) \<and>
         ComputeMidpointKey (us @ x # xs) (us @ y # ys) < us @ y # ys"
proof -
  let ?a = "us @ x # xs" and ?b = "us @ y # ys"
  let ?m = "word_of_nat ((unat x + unat y) div 2) :: byte"
  have "midpoint_loop ?a ?b [] ?a ?b =
      (if ?a < us @ [?m] \<and> us @ [?m] < ?b then Some (us @ [?m]) else Some (?a @ [0x80]))"
    using assms(1) by (simp add: midpoint_loop_skip Let_def)
  moreover have "?a < ?a @ [0x80]" "?a @ [0x80] < ?b"
    using assms(1) append_less_append [of us "x # xs @ [0x80]" "y # ys"] by auto
  ultimately show ?thesis by (auto simp: ComputeMidpointKey_def)
qed

lemma midpoint_extend:
  assumes "a \<noteq> []" and "\<not> (z = 0 \<and> zs = [])"
  shows "a < ComputeMidpointKey a (a @ z # zs) \<and> ComputeMidpointKey a (a @ z # zs) < a @ z # zs"
proof -
  let ?h = "word_of_nat (unat z div 2) :: byte"
  have "unat z div 2 < 256" using byte_bound [of z] by simp
  then have u: "unat ?h = unat z div 2" by (simp add: unat_of_nat)
  have lt: "[?h] < z # zs"
  proof (cases "z = 0")
    case True
    then show ?thesis using assms(2) by (cases zs) auto
  next
    case False
    then have "unat z div 2 < unat z" by (simp add: unat_gt_0)
    then show ?thesis by (simp add: word_less_nat_alt u)
  qed
  have "ComputeMidpointKey a (a @ z # zs) = a @ [?h]"
    using assms(1) lt append_less_append [of a "[?h]" "z # zs"]
    by (simp add: ComputeMidpointKey_def midpoint_loop_prefix Let_def)
  with lt append_less_append [of a "[?h]" "z # zs"] show ?thesis by simp
qed

lemma midpoint_between:
  assumes "a \<noteq> []" and "a < b" and "b \<noteq> a @ [0]"
  shows "a < ComputeMidpointKey a b \<and> ComputeMidpointKey a b < b"
  using assms(2)
proof (cases rule: list_less_cases)
  case (prefix z zs)
  with midpoint_extend [OF assms(1), of z zs] assms(3) show ?thesis by auto
next
  case (diverge us x xs' y ys')
  with midpoint_diverge [of x y us xs' ys'] show ?thesis by auto
qed

text \<open>Nothing lies strictly between a key and its extension by a zero byte.\<close>

lemma no_key_between: "\<not> (a < k \<and> k < a @ [0 :: byte])"
proof
  assume k: "a < k \<and> k < a @ [0]"
  then have "a < k" by simp
  then show False
  proof (cases rule: list_less_cases)
    case (prefix z zs)
    with k append_less_append [of a "z # zs" "[0]"] show False by (auto simp: word_less_nat_alt)
  next
    case (diverge us x xs' y ys')
    then have "a @ [0] < k" by simp
    then show False using k less_asym by blast
  qed
qed

lemma midpoint_gap: "a \<noteq> [] \<Longrightarrow> ComputeMidpointKey a (a @ [0]) = a @ [0x80]"
  by (simp add: ComputeMidpointKey_def midpoint_loop_prefix)

lemma midpoint_above: "a \<noteq> [] \<Longrightarrow> a < ComputeMidpointKey a []"
  by (simp add: ComputeMidpointKey_def)

lemma midpoint_below:
  assumes "b \<noteq> []" and "hd b \<noteq> 0" and "b \<noteq> [1]"
  shows "ComputeMidpointKey [] b \<noteq> [] \<and> ComputeMidpointKey [] b < b"
proof -
  obtain c cs where b: "b = c # cs" using assms(1) by (cases b) auto
  show ?thesis
  proof (cases "1 < sint c")
    case True
    have "c - 1 < c" using assms(2) b by (simp add: byte_pred_less)
    with True b show ?thesis by (simp add: ComputeMidpointKey_def)
  next
    case False
    have "1 \<le> c" using assms(2) b by (simp add: word_le_nat_alt word_neq_0_conv unat_gt_0 Suc_leI)
    moreover have "c = 1 \<longrightarrow> cs \<noteq> []" using assms(3) b by auto
    ultimately have "[1] < c # cs" by (cases cs) auto
    with False b show ?thesis by (simp add: ComputeMidpointKey_def)
  qed
qed

section \<open>The chosen split point lies inside the bucket\<close>

text \<open>
  The ranges for which the midpoint falls strictly inside: for two finite bounds, exactly the
  ranges with a key strictly between them.
\<close>

definition splittable :: "key \<Rightarrow> key \<Rightarrow> bool" where
  "splittable lo hi \<longleftrightarrow>
     (hi = [] \<or>
      (if lo = [] then hd hi \<noteq> 0 \<and> hi \<noteq> [1] else lo < hi \<and> hi \<noteq> lo @ [0]))"

definition strictly_inside :: "range \<Rightarrow> key \<Rightarrow> bool" where
  "strictly_inside r k \<longleftrightarrow> k \<noteq> [] \<and> fst r < k \<and> (snd r = [] \<or> k < snd r)"

lemma midpoint_inside:
  assumes "splittable lo hi"
  shows "strictly_inside (lo, hi) (ComputeMidpointKey lo hi)"
proof (cases "hi = []")
  case True
  then show ?thesis
    using midpoint_above [of lo] by (auto simp: strictly_inside_def ComputeMidpointKey_def)
next
  case hi: False
  show ?thesis
  proof (cases "lo = []")
    case True
    with hi assms midpoint_below [of hi] show ?thesis
      by (auto simp: splittable_def strictly_inside_def)
  next
    case False
    with hi assms midpoint_between [of lo hi] show ?thesis
      by (auto simp: splittable_def strictly_inside_def)
  qed
qed

lemma splittable_iff_between:
  assumes "lo \<noteq> []" and "hi \<noteq> []"
  shows "splittable lo hi \<longleftrightarrow> (\<exists>k. lo < k \<and> k < hi)"
proof
  assume "splittable lo hi"
  with midpoint_inside assms show "\<exists>k. lo < k \<and> k < hi" by (auto simp: strictly_inside_def)
next
  assume "\<exists>k. lo < k \<and> k < hi"
  then obtain k where k: "lo < k" "k < hi" by blast
  then have "lo < hi" by simp
  moreover have "hi \<noteq> lo @ [0]" using no_key_between [of lo k] k by auto
  ultimately show "splittable lo hi" using assms by (simp add: splittable_def)
qed

lemma choose_split_point_inside:
  assumes "splittable (min_key b) (max_key b)"
  shows "strictly_inside (min_key b, max_key b) (choose_split_point b)"
proof -
  let ?m = "ComputeMidpointKey (min_key b) (max_key b)"
  have m: "strictly_inside (min_key b, max_key b) ?m" by (rule midpoint_inside [OF assms])
  define s0 where "s0 = ComputeSplitPoint b"
  define s1 where "s1 = (if s0 = [] then ?m else s0)"
  define s2 where "s2 = (if min_key b \<noteq> [] \<and> s1 \<le> min_key b then ?m else s1)"
  have c: "choose_split_point b = (if max_key b \<noteq> [] \<and> max_key b \<le> s2 then ?m else s2)"
    by (simp add: choose_split_point_def s0_def s1_def s2_def Let_def)
  have "s1 \<noteq> []" using m by (auto simp: s1_def strictly_inside_def)
  then have "min_key b < s2" "s2 \<noteq> []" using m by (auto simp: s2_def strictly_inside_def)
  then show ?thesis using m by (auto simp: c strictly_inside_def not_le)
qed

text \<open>Whatever the range, the chosen key is not below the lower bound.\<close>

lemma midpoint_ge: "lo \<noteq> [] \<Longrightarrow> lo < hi \<or> hi = [] \<or> hi = lo \<Longrightarrow> lo < ComputeMidpointKey lo hi"
proof -
  assume lo: "lo \<noteq> []" and h: "lo < hi \<or> hi = [] \<or> hi = lo"
  consider "hi = []" | "hi = lo" | "lo < hi" "hi \<noteq> lo @ [0]" | "hi = lo @ [0]"
    using h by metis
  then show ?thesis
  proof cases
    case 1
    then show ?thesis using midpoint_above lo by simp
  next
    case 2
    then show ?thesis
      using lo midpoint_loop_prefix [of lo lo "[]" lo "[]"] by (simp add: ComputeMidpointKey_def)
  next
    case 3
    then show ?thesis using midpoint_between [OF lo] by blast
  next
    case 4
    then show ?thesis using midpoint_gap [OF lo] by simp
  qed
qed

end
