(* ===== verification/Bucket_Manager.thy ===== *)
theory Bucket_Manager
  imports Split_Point
begin

text \<open>
  \<open>BucketManager\<close> of \<open>db/column_family.{h,cc}\<close>: the partition of the key space into buckets,
  its lookups and the statistics window over the last flushes. Splitting and merging are in
  \<open>Bucket_Adjust\<close>. Each public method runs under \<open>mutex_\<close>, so it is one atomic step on the
  record.

  The lemmas show that every method keeps the invariant \<open>bm_ok\<close> (the ranges chain over the
  whole key space, the aggregates are the window sums, the recorded ids lie in the window), what
  each method does to the ranges, and that a lookup always hits a range that holds the key.
\<close>

section \<open>State\<close>

record BucketManager =
  buckets :: "Bucket list"
  target_bucket_count :: int
  initialized :: bool
  structure_epoch :: u64
  global_flush_counter :: u64
  cfd_enable_adjustment :: "bool option"
    \<comment> \<open>\<open>None\<close>: \<open>cfd_\<close> is null; \<open>Some e\<close>: the option \<open>enable_bucket_adjustment\<close> of \<open>cfd_\<close>\<close>

record BucketSnapshot =
  epoch :: u64
  ranges :: "range list"

record BucketFlushResult =
  r_file_count :: u64
  r_entry_count :: u64
  r_data_bytes :: u64
  r_median_key :: key
  r_min_key :: key
  r_max_key :: key

definition BucketManager_new :: "int \<Rightarrow> bool option \<Rightarrow> BucketManager" where
  "BucketManager_new target_count cfd =
     \<lparr>buckets = [], target_bucket_count = target_count, initialized = False,
      structure_epoch = 0, global_flush_counter = 0, cfd_enable_adjustment = cfd\<rparr>"

definition bucket_range :: "Bucket \<Rightarrow> range" where
  "bucket_range b = (min_key b, max_key b)"

abbreviation bucket_ranges :: "BucketManager \<Rightarrow> range list" where
  "bucket_ranges bm \<equiv> map bucket_range (buckets bm)"

section \<open>Initialization and lookup\<close>

definition init_buckets :: "key list \<Rightarrow> Bucket list" where
  "init_buckets split_points =
     (let num_buckets = length split_points + 1 in
      map (\<lambda>i. new_bucket (if i = 0 then [] else split_points ! (i - 1))
                          (if i = num_buckets - 1 then [] else split_points ! i))
          [0..<num_buckets])"

definition InitializeFromFirstFlush :: "key list \<Rightarrow> u64 \<Rightarrow> BucketManager \<Rightarrow> BucketManager" where
  "InitializeFromFirstFlush split_points entries_per_bucket bm =
     (if initialized bm then bm
      else bm\<lparr>buckets := init_buckets split_points, initialized := True\<rparr>)"

definition FindBucketInternal :: "BucketManager \<Rightarrow> key \<Rightarrow> int" where
  "FindBucketInternal bm k =
     (case first_index (\<lambda>b. (min_key b = [] \<or> k \<ge> min_key b) \<and> (max_key b = [] \<or> k < max_key b))
             (buckets bm) of
        Some i \<Rightarrow> int i
      | None \<Rightarrow> int (length (buckets bm)) - 1)"

definition FindBucket :: "BucketManager \<Rightarrow> key \<Rightarrow> int" where
  "FindBucket bm k = FindBucketInternal bm k"

definition GetSnapshot :: "BucketManager \<Rightarrow> BucketSnapshot" where
  "GetSnapshot bm = \<lparr>epoch = structure_epoch bm,
     ranges = map (\<lambda>b. (min_key b, max_key b)) (buckets bm)\<rparr>"

definition FindBucketInSnapshot :: "BucketSnapshot \<Rightarrow> key \<Rightarrow> int" where
  "FindBucketInSnapshot snap k =
     (case first_index (\<lambda>(lo, hi). (lo = [] \<or> k \<ge> lo) \<and> (hi = [] \<or> k < hi)) (ranges snap) of
        Some i \<Rightarrow> int i
      | None \<Rightarrow> int (length (ranges snap)) - 1)"

text \<open>The overlap test and the three loops that collect overlapping buckets.\<close>

definition bucket_overlaps :: "key \<Rightarrow> key \<Rightarrow> Bucket \<Rightarrow> bool" where
  "bucket_overlaps lo hi b =
     (let bucket_before_range = max_key b \<noteq> [] \<and> lo \<noteq> [] \<and> max_key b \<le> lo;
          range_before_bucket = hi \<noteq> [] \<and> min_key b \<noteq> [] \<and> hi \<le> min_key b
      in \<not> bucket_before_range \<and> \<not> range_before_bucket)"

definition FindBucketsInRangeInternal :: "BucketManager \<Rightarrow> key \<Rightarrow> key \<Rightarrow> nat list" where
  "FindBucketsInRangeInternal bm lo hi =
     filter (\<lambda>i. bucket_overlaps lo hi (buckets bm ! i)) [0..<length (buckets bm)]"

definition FindBucketsInRange :: "BucketManager \<Rightarrow> key \<Rightarrow> key \<Rightarrow> nat list" where
  "FindBucketsInRange bm lo hi = FindBucketsInRangeInternal bm lo hi"

definition GetAllBoundaries :: "BucketManager \<Rightarrow> key list" where
  "GetAllBoundaries bm = filter (\<lambda>k. k \<noteq> []) (map min_key (drop 1 (buckets bm)))"

definition IsBucketBoundary :: "BucketManager \<Rightarrow> key \<Rightarrow> bool" where
  "IsBucketBoundary bm k = (k \<noteq> [] \<and> (\<exists>b \<in> set (drop 1 (buckets bm)). min_key b = k))"

section \<open>Completion of a flush\<close>

record AccumulatedStats =
  acc_file_count :: u64
  acc_entry_count :: u64
  acc_data_bytes :: u64
  acc_median_keys :: "key list"

definition intersection_median :: "BucketFlushResult \<Rightarrow> Bucket \<Rightarrow> key" where
  "intersection_median result b =
     (let intersection_min =
            (if min_key b \<noteq> [] \<and> (r_min_key result = [] \<or> r_min_key result < min_key b)
             then min_key b else r_min_key result);
          intersection_max =
            (if max_key b \<noteq> [] \<and> (r_max_key result = [] \<or> r_max_key result > max_key b)
             then max_key b else r_max_key result)
      in ComputeMidpointKey intersection_min intersection_max)"

text \<open>One result spread over the current buckets it overlaps (phase 1 of the slow path).\<close>

definition distribute_result ::
  "BucketManager \<Rightarrow> BucketFlushResult \<Rightarrow> AccumulatedStats list \<Rightarrow> AccumulatedStats list" where
  "distribute_result bm result accs =
     (let overlapping = FindBucketsInRangeInternal bm (r_min_key result) (r_max_key result);
          n = word_of_nat (length overlapping) :: u64
      in fold (\<lambda>i accs. accs[i := (accs ! i)
                  \<lparr>acc_file_count := acc_file_count (accs ! i) + r_file_count result div n,
                   acc_entry_count := acc_entry_count (accs ! i) + r_entry_count result div n,
                   acc_data_bytes := acc_data_bytes (accs ! i) + r_data_bytes result div n,
                   acc_median_keys := acc_median_keys (accs ! i) @
                     [intersection_median result (buckets bm ! i)]\<rparr>])
           overlapping accs)"

definition accumulate_results ::
  "BucketManager \<Rightarrow> BucketFlushResult list \<Rightarrow> AccumulatedStats list" where
  "accumulate_results bm results =
     fold (distribute_result bm) results
       (replicate (length (buckets bm))
          \<lparr>acc_file_count = 0, acc_entry_count = 0, acc_data_bytes = 0, acc_median_keys = []\<rparr>)"

definition add_result :: "u64 \<Rightarrow> Bucket \<Rightarrow> BucketFlushResult \<Rightarrow> Bucket" where
  "add_result flush_id b r =
     AddFlushEvent flush_id (r_file_count r) (r_entry_count r) (r_data_bytes r) (r_median_key r) b"

definition add_accumulated :: "u64 \<Rightarrow> Bucket \<Rightarrow> AccumulatedStats \<Rightarrow> Bucket" where
  "add_accumulated flush_id b acc =
     (let final_median_key =
            (if acc_median_keys acc = [] then [] else median_of (acc_median_keys acc))
      in AddFlushEvent flush_id (acc_file_count acc) (acc_entry_count acc) (acc_data_bytes acc)
           final_median_key b)"

text \<open>The fast path (no structural change since the snapshot) and the slow path.\<close>

definition record_flush ::
  "u64 \<Rightarrow> BucketFlushResult list \<Rightarrow> u64 \<Rightarrow> BucketManager \<Rightarrow> Bucket list" where
  "record_flush snapshot_epoch results flush_id bm =
     (if snapshot_epoch = structure_epoch bm \<and> length results = length (buckets bm)
      then map2 (add_result flush_id) (buckets bm) results
      else map2 (add_accumulated flush_id) (buckets bm) (accumulate_results bm results))"

definition slide_window :: "u64 \<Rightarrow> Bucket list \<Rightarrow> Bucket list" where
  "slide_window flush_id bs =
     (if flush_id > WINDOW_SIZE then map (RemoveFlushEvent (flush_id - WINDOW_SIZE)) bs else bs)"

definition OnFlushCompleted ::
  "u64 \<Rightarrow> BucketFlushResult list \<Rightarrow> BucketManager \<Rightarrow> BucketManager" where
  "OnFlushCompleted snapshot_epoch results bm =
     (if \<not> initialized bm then bm
      else
        let current_flush_id = global_flush_counter bm + 1 in
        bm\<lparr>global_flush_counter := current_flush_id,
           buckets := slide_window current_flush_id
                        (record_flush snapshot_epoch results current_flush_id bm)\<rparr>)"

section \<open>Invariant\<close>

text \<open>
  \<open>window_ids c\<close>: the flush ids that may be recorded when the global counter is \<open>c\<close>, the last
  \<open>WINDOW_SIZE\<close> of them.
\<close>

definition window_ids :: "u64 \<Rightarrow> u64 set" where
  "window_ids c = {i. 0 < i \<and> i \<le> c \<and> unat c < unat i + 10}"

definition bm_ok :: "BucketManager \<Rightarrow> bool" where
  "bm_ok bm \<longleftrightarrow>
     (if initialized bm then covers_all (bucket_ranges bm) else buckets bm = []) \<and>
     (\<forall>b \<in> set (buckets bm). stats_ok b \<and> event_ids b \<subseteq> window_ids (global_flush_counter bm))"

section \<open>Lookup\<close>

lemma in_range_bucket [simp]:
  "in_range (bucket_range b) k \<longleftrightarrow> (min_key b = [] \<or> min_key b \<le> k) \<and> (max_key b = [] \<or> k < max_key b)"
  by (simp add: bucket_range_def)

lemma first_index_hit:
  assumes "covers_all rs"
  obtains i where "first_index (\<lambda>r. in_range r k) rs = Some i" "i < length rs" "in_range (rs ! i) k"
proof (cases "first_index (\<lambda>r. in_range r k) rs")
  case None
  then show ?thesis using first_index_NoneD covers_all_cover [OF assms, of k] by blast
next
  case (Some i)
  then show ?thesis using that first_index_SomeD by blast
qed

lemma FindBucketInternal_eq:
  "FindBucketInternal bm k =
     (case first_index (\<lambda>r. in_range r k) (bucket_ranges bm) of
        Some i \<Rightarrow> int i | None \<Rightarrow> int (length (buckets bm)) - 1)"
  by (simp add: FindBucketInternal_def first_index_map comp_def)

lemma FindBucketInSnapshot_eq:
  "FindBucketInSnapshot snap k =
     (case first_index (\<lambda>r. in_range r k) (ranges snap) of
        Some i \<Rightarrow> int i | None \<Rightarrow> int (length (ranges snap)) - 1)"
proof -
  have "(\<lambda>(lo, hi). (lo = [] \<or> lo \<le> k) \<and> (hi = [] \<or> k < hi)) = (\<lambda>r. in_range r k)"
    by (auto simp: fun_eq_iff)
  then show ?thesis by (simp add: FindBucketInSnapshot_def)
qed

interpretation snap: bucket_lookup ranges FindBucketInSnapshot
proof
  fix s :: BucketSnapshot and k
  assume "covers_all (ranges s)"
  then obtain i where "first_index (\<lambda>r. in_range r k) (ranges s) = Some i" "i < length (ranges s)"
    "in_range (ranges s ! i) k" by (rule first_index_hit)
  then show "0 \<le> FindBucketInSnapshot s k \<and> nat (FindBucketInSnapshot s k) < length (ranges s) \<and>
      in_range (ranges s ! nat (FindBucketInSnapshot s k)) k"
    by (simp add: FindBucketInSnapshot_eq)
qed

interpretation mgr: bucket_lookup "\<lambda>bm. bucket_ranges bm" FindBucket
proof
  fix bm :: BucketManager and k
  assume "covers_all (bucket_ranges bm)"
  then obtain i where "first_index (\<lambda>r. in_range r k) (bucket_ranges bm) = Some i"
    "i < length (bucket_ranges bm)" "in_range (bucket_ranges bm ! i) k" by (rule first_index_hit)
  then show "0 \<le> FindBucket bm k \<and> nat (FindBucket bm k) < length (bucket_ranges bm) \<and>
      in_range (bucket_ranges bm ! nat (FindBucket bm k)) k"
    by (simp add: FindBucket_def FindBucketInternal_eq)
qed

lemma GetSnapshot_fields [simp]:
  "ranges (GetSnapshot bm) = bucket_ranges bm" "epoch (GetSnapshot bm) = structure_epoch bm"
  by (simp_all add: GetSnapshot_def bucket_range_def)

text \<open>A lookup in a snapshot is the lookup in the manager at the time of the snapshot.\<close>

lemma FindBucketInSnapshot_GetSnapshot: "FindBucketInSnapshot (GetSnapshot bm) k = FindBucket bm k"
  unfolding FindBucketInSnapshot_eq FindBucket_def FindBucketInternal_eq GetSnapshot_fields length_map
  by (rule refl)

section \<open>Initialization\<close>

lemma init_ranges: "map bucket_range (init_buckets sp) = zip ([] # sp) (sp @ [[]])"
  by (rule nth_equalityI)
     (auto simp: init_buckets_def bucket_range_def nth_append nth_Cons Let_def less_Suc_eq
           simp del: upt_Suc split: nat.splits)

lemma link_zip: "link lo (zip (lo # sp) (sp @ [hi])) hi"
  by (induction sp arbitrary: lo) auto

lemma covers_all_init: "covers_all (map bucket_range (init_buckets sp))"
  unfolding init_ranges covers_all_def using link_zip [of "[]" sp "[]"] by auto

lemma ranges_ok_init:
  assumes "sorted sp" and "[] \<notin> set sp"
  shows "ranges_ok (map bucket_range (init_buckets sp))"
proof -
  have f: "map fst (zip ([] # sp) (sp @ [[]])) = [] # sp" by simp
  have "map fst (tl (zip ([] # sp) (sp @ [[]]))) = sp"
    using f by (metis list.sel(3) map_tl)
  then show ?thesis
    using assms covers_all_init [of sp] f by (simp add: ranges_ok_def init_ranges)
qed

lemma init_buckets_fresh: "b \<in> set (init_buckets sp) \<Longrightarrow> stats_ok b \<and> event_ids b = {}"
  by (auto simp: init_buckets_def Let_def)

lemma bm_ok_new [intro]: "bm_ok (BucketManager_new n cfd)"
  by (simp add: bm_ok_def BucketManager_new_def)

lemma bm_ok_Initialize:
  assumes "bm_ok bm"
  shows "bm_ok (InitializeFromFirstFlush sp n bm)"
  using assms covers_all_init [of sp] init_buckets_fresh [of _ sp]
  by (auto simp: bm_ok_def InitializeFromFirstFlush_def)

section \<open>Flush completion\<close>

lemma length_distribute [simp]: "length (distribute_result bm r accs) = length accs"
proof -
  have "length (fold (\<lambda>i a. a[i := f i a]) is a) = length a" for f :: "nat \<Rightarrow> 'a list \<Rightarrow> 'a" and "is" a
    by (induction "is" arbitrary: a) auto
  then show ?thesis by (simp add: distribute_result_def Let_def)
qed

lemma length_accumulate [simp]: "length (accumulate_results bm rs) = length (buckets bm)"
proof -
  have "length (fold (distribute_result bm) rs a) = length a" for a
    by (induction rs arbitrary: a) auto
  then show ?thesis by (simp add: accumulate_results_def)
qed

lemma add_result_range [simp]: "bucket_range (add_result i b r) = bucket_range b"
  by (simp add: add_result_def bucket_range_def)

lemma add_accumulated_range [simp]: "bucket_range (add_accumulated i b a) = bucket_range b"
  by (simp add: add_accumulated_def bucket_range_def Let_def)

lemma Remove_range [simp]: "bucket_range (RemoveFlushEvent i b) = bucket_range b"
  by (simp add: bucket_range_def)

lemma map_map2_range:
  assumes "\<And>b r. bucket_range (f b r) = bucket_range b" and "length rs = length bs"
  shows "map bucket_range (map2 f bs rs) = map bucket_range bs"
  using assms(2) by (induction bs rs rule: list_induct2') (auto simp: assms(1))

lemma record_flush_ranges [simp]:
  "map bucket_range (record_flush e rs i bm) = bucket_ranges bm"
  by (simp add: record_flush_def map_map2_range del: map_map)

lemma slide_window_ranges [simp]: "map bucket_range (slide_window i bs) = map bucket_range bs"
  by (simp add: slide_window_def comp_def)

lemma OnFlushCompleted_ranges [simp]:
  "bucket_ranges (OnFlushCompleted e rs bm) = bucket_ranges bm"
  by (simp add: OnFlushCompleted_def Let_def)

lemma OnFlushCompleted_frame [simp]:
  "structure_epoch (OnFlushCompleted e rs bm) = structure_epoch bm"
  "initialized (OnFlushCompleted e rs bm) = initialized bm"
  "cfd_enable_adjustment (OnFlushCompleted e rs bm) = cfd_enable_adjustment bm"
  by (simp_all add: OnFlushCompleted_def Let_def)


lemma map2_bucket:
  assumes "b' \<in> set (map2 f bs rs)"
  obtains b r where "b \<in> set bs" "r \<in> set rs" "b' = f b r"
  using assms by (auto dest: set_zip_leftD set_zip_rightD)

lemma record_flush_stats:
  assumes "\<forall>b \<in> set (buckets bm). stats_ok b \<and> i \<notin> event_ids b" and "b' \<in> set (record_flush e rs i bm)"
  shows "stats_ok b' \<and> (\<exists>b \<in> set (buckets bm). event_ids b' = insert i (event_ids b))"
  using assms(2) unfolding record_flush_def
  by (auto split: if_splits elim!: map2_bucket
           simp: add_result_def add_accumulated_def Let_def assms(1) stats_ok_AddFlushEvent
           simp del: set_map)

text \<open>Window arithmetic: the new id is fresh, and after the slide the ids lie in the new window.\<close>

lemma unat_suc:
  assumes "c \<noteq> (-1 :: u64)"
  shows "unat (c + 1) = unat c + 1"
proof -
  have "1 + c \<noteq> 0" using assms by (simp add: add_eq_0_iff)
  then show ?thesis using unatSuc [of c] by (simp add: add.commute)
qed

lemma next_id_fresh: "c \<noteq> -1 \<Longrightarrow> c + 1 \<notin> window_ids c"
  by (auto simp: window_ids_def word_le_nat_alt unat_suc)

lemma window_slide:
  assumes "c \<noteq> -1" and "I \<subseteq> window_ids c"
  shows "(if c + 1 > WINDOW_SIZE then insert (c + 1) I - {c + 1 - WINDOW_SIZE} else insert (c + 1) I)
           \<subseteq> window_ids (c + 1)"
proof -
  have u: "unat (c + 1) = unat c + 1" using unat_suc [OF assms(1)] .
  have gt: "WINDOW_SIZE < c + 1 \<longleftrightarrow> 10 < unat c + 1"
    by (simp add: word_less_nat_alt WINDOW_SIZE_def u)
  have sub: "unat (c + 1 - WINDOW_SIZE) = unat c + 1 - 10" if "WINDOW_SIZE < c + 1"
    using that unat_sub [of WINDOW_SIZE "c + 1"] by (simp add: u WINDOW_SIZE_def less_imp_le)
  have "i \<in> window_ids (c + 1)" if "i \<in> insert (c + 1) I" "\<not> (WINDOW_SIZE < c + 1 \<and> i = c + 1 - WINDOW_SIZE)" for i
  proof (cases "i = c + 1")
    case True
    then show ?thesis by (auto simp: window_ids_def word_less_nat_alt u)
  next
    case False
    with that assms(2) have i: "i \<in> window_ids c" by auto
    have "unat i \<noteq> unat c + 1 - 10" if "10 < unat c + 1"
      using that gt sub \<open>\<not> (WINDOW_SIZE < c + 1 \<and> i = c + 1 - WINDOW_SIZE)\<close>
      by (metis unsigned_word_eqI)
    moreover have "0 < unat i" "unat i \<le> unat c" "unat c < unat i + 10"
      using i by (auto simp: window_ids_def word_le_nat_alt word_less_nat_alt)
    ultimately have "unat c + 1 < unat i + 10" by (cases "10 < unat c + 1") auto
    with i show ?thesis by (auto simp: window_ids_def word_le_nat_alt u)
  qed
  then show ?thesis by auto
qed

lemma bm_ok_OnFlushCompleted:
  assumes "bm_ok bm" and "global_flush_counter bm \<noteq> -1"
  shows "bm_ok (OnFlushCompleted e rs bm)"
proof (cases "initialized bm")
  case True
  let ?c = "global_flush_counter bm"
  have fresh: "\<forall>b \<in> set (buckets bm). stats_ok b \<and> ?c + 1 \<notin> event_ids b"
    using assms next_id_fresh unfolding bm_ok_def by blast
  have "stats_ok b' \<and> event_ids b' \<subseteq> window_ids (?c + 1)"
    if mem: "b' \<in> set (slide_window (?c + 1) (record_flush e rs (?c + 1) bm))" for b'
  proof -
    obtain b0 where b0: "b0 \<in> set (record_flush e rs (?c + 1) bm)"
      "b' = (if ?c + 1 > WINDOW_SIZE then RemoveFlushEvent (?c + 1 - WINDOW_SIZE) b0 else b0)"
      using mem by (auto simp: slide_window_def split: if_splits)
    obtain b where b: "b \<in> set (buckets bm)" "stats_ok b0" "event_ids b0 = insert (?c + 1) (event_ids b)"
      using record_flush_stats [OF fresh b0(1)] by blast
    have "event_ids b \<subseteq> window_ids ?c" using assms(1) b(1) by (auto simp: bm_ok_def)
    from window_slide [OF assms(2) this] b b0(2) show ?thesis
      by (auto simp: stats_ok_RemoveFlushEvent split: if_splits)
  qed
  then show ?thesis
    using assms(1) True unfolding bm_ok_def
    by (simp add: OnFlushCompleted_def Let_def)
qed (use assms in \<open>simp add: OnFlushCompleted_def\<close>)

end
