(* ===== verification/Float64.thy ===== *)
theory Float64
  imports Prelude "HOL-Library.Log_Nat"
begin

text \<open>
  IEEE~754 binary64 as the C++ sources use it (\<open>double\<close>): a value is a rational, and every
  conversion and arithmetic operation rounds its exact result to the nearest multiple of a unit
  in the last place of a 53-bit significand, ties to even (\<open>fl\<close>). The exponent is not bounded:
  every value of the modelled code is a ratio or product of counters below \<open>2 ^ 64\<close> and small
  constants, far from overflow and from the subnormal range.
\<close>

section \<open>Powers of two and binades\<close>

definition pow2 :: "int \<Rightarrow> rat" where
  "pow2 e = (if 0 \<le> e then 2 ^ nat e else 1 / 2 ^ nat (- e))"

lemma pow2_pos [simp]: "0 < pow2 e"
  by (simp add: pow2_def)

lemma pow2_nonzero [simp]: "pow2 e \<noteq> 0"
  using pow2_pos [of e] by linarith

lemma pow2_nonneg [simp]: "0 \<le> pow2 e"
  using pow2_pos [of e] by linarith

lemma pow2_powi: "pow2 e = 2 powi e"
  by (simp add: pow2_def power_int_def inverse_eq_divide power_one_over)

lemma pow2_add: "pow2 (a + b) = pow2 a * pow2 b"
  by (simp add: pow2_powi power_int_add)

lemma pow2_mono: "a \<le> b \<Longrightarrow> pow2 a \<le> pow2 b"
  by (simp add: pow2_powi power_int_increasing)

lemma pow2_less_iff: "pow2 a < pow2 b \<longleftrightarrow> a < b"
  by (metis linorder_not_le order_le_less pow2_mono pow2_powi power_int_strict_increasing
      numeral_One one_less_numeral_iff semiring_norm(76))

lemma pow2_nat: "pow2 (int n) = 2 ^ n"
  by (simp add: pow2_def)

lemma pow2_numeral: "pow2 (numeral n) = 2 ^ numeral n"
  by (simp add: pow2_def)

text \<open>The exponent of the binade that holds a positive rational.\<close>

definition ilog2 :: "rat \<Rightarrow> int" where
  "ilog2 q = (let (p, d) = quotient_of q; k = bitlen p - bitlen d
              in if q < pow2 k then k - 1 else k)"

lemma bitlen_pow2:
  assumes "0 < x"
  shows "pow2 (bitlen x - 1) \<le> of_int x" and "of_int x < pow2 (bitlen x)"
proof -
  have b: "2 ^ nat (bitlen x - 1) \<le> x \<and> x < 2 ^ nat (bitlen x)"
    using bitlen_bounds [OF assms] .
  have "0 < bitlen x" using assms by (simp add: bitlen_nonneg order_less_le bitlen_eq_zero_iff)
  then have e: "pow2 (bitlen x - 1) = 2 ^ nat (bitlen x - 1)" "pow2 (bitlen x) = 2 ^ nat (bitlen x)"
    by (simp_all add: pow2_def)
  have "(of_int (2 ^ nat (bitlen x - 1)) :: rat) \<le> of_int x" using b of_int_le_iff by blast
  then show "pow2 (bitlen x - 1) \<le> of_int x" by (simp add: e)
  have "of_int x < (of_int (2 ^ nat (bitlen x)) :: rat)" using b of_int_less_iff by blast
  then show "of_int x < pow2 (bitlen x)" by (simp add: e)
qed

lemma ilog2_bounds:
  assumes "0 < q"
  shows "pow2 (ilog2 q) \<le> q" and "q < pow2 (ilog2 q + 1)"
proof -
  obtain p d where pd: "quotient_of q = (p, d)" by fastforce
  have d: "0 < d" using quotient_of_denom_pos [OF pd] .
  have q: "q = of_int p / of_int d" using quotient_of_div [OF pd] .
  then have p: "0 < p" using assms d by (simp add: zero_less_divide_iff)
  define k where "k = bitlen p - bitlen d"
  have "of_int p < pow2 (bitlen p)" "pow2 (bitlen d - 1) \<le> of_int d"
    using bitlen_pow2 p d by auto
  then have "of_int p * pow2 (bitlen d - 1) < pow2 (bitlen p) * of_int d"
    by (intro mult_less_le_imp_less) (auto simp: p less_imp_le)
  then have "q < pow2 (bitlen p) / pow2 (bitlen d - 1)"
    using d by (simp add: q field_simps)
  also have "\<dots> = pow2 (k + 1)"
    using pow2_add [of "bitlen d - 1" "k + 1"] by (simp add: k_def)
  finally have up: "q < pow2 (k + 1)" .
  have "pow2 (bitlen p - 1) \<le> of_int p" "of_int d < pow2 (bitlen d)"
    using bitlen_pow2 p d by auto
  then have "pow2 (bitlen p - 1) * of_int d \<le> of_int p * pow2 (bitlen d)"
    by (intro mult_mono) (auto simp: p d less_imp_le)
  then have "pow2 (bitlen p - 1) / pow2 (bitlen d) \<le> q"
    using d by (simp add: q field_simps)
  moreover have "pow2 (bitlen p - 1) / pow2 (bitlen d) = pow2 (k - 1)"
    using pow2_add [of "bitlen d" "k - 1"] by (simp add: k_def)
  ultimately have lo: "pow2 (k - 1) \<le> q" by simp
  have e: "ilog2 q = (if q < pow2 k then k - 1 else k)"
    by (simp add: ilog2_def pd k_def)
  show "pow2 (ilog2 q) \<le> q" using e lo by simp
  show "q < pow2 (ilog2 q + 1)" using e up by simp
qed

lemma ilog2_mono: "0 < x \<Longrightarrow> x \<le> y \<Longrightarrow> ilog2 x \<le> ilog2 y"
proof -
  assume "0 < x" "x \<le> y"
  then have "pow2 (ilog2 x) \<le> x" "y < pow2 (ilog2 y + 1)" using ilog2_bounds by auto
  then have "pow2 (ilog2 x) < pow2 (ilog2 y + 1)" using \<open>x \<le> y\<close> by linarith
  then show ?thesis by (simp add: pow2_less_iff)
qed

section \<open>Rounding\<close>

definition rne :: "rat \<Rightarrow> int" where
  "rne x = (let f = \<lfloor>x\<rfloor>; r = x - of_int f
            in if r < 1 / 2 then f else if 1 / 2 < r then f + 1
               else if even f then f else f + 1)"

lemma rne_int [simp]: "rne (of_int n) = n"
  by (simp add: rne_def)

lemma rne_cases: "rne x = \<lfloor>x\<rfloor> \<or> rne x = \<lfloor>x\<rfloor> + 1"
  by (auto simp: rne_def Let_def)

lemma rne_error: "\<bar>of_int (rne x) - x\<bar> \<le> 1 / 2"
  using of_int_floor_le [of x] floor_correct [of x]
  by (auto simp: rne_def Let_def abs_le_iff)

lemma rne_mono: "x \<le> y \<Longrightarrow> rne x \<le> rne y"
proof -
  assume xy: "x \<le> y"
  then have f: "\<lfloor>x\<rfloor> \<le> \<lfloor>y\<rfloor>" by (rule floor_mono)
  show ?thesis
  proof (cases "\<lfloor>x\<rfloor> = \<lfloor>y\<rfloor>")
    case True
    with xy show ?thesis by (auto simp: rne_def Let_def)
  next
    case False
    with f have "\<lfloor>x\<rfloor> + 1 \<le> \<lfloor>y\<rfloor>" by simp
    then show ?thesis using rne_cases [of x] rne_cases [of y] by auto
  qed
qed

definition fl_pos :: "rat \<Rightarrow> rat" where
  "fl_pos q = (let e = ilog2 q - 52 in of_int (rne (q / pow2 e)) * pow2 e)"

definition fl :: "rat \<Rightarrow> rat" where
  "fl q = (if q = 0 then 0 else if 0 < q then fl_pos q else - fl_pos (- q))"

lemma fl_pos_bounds:
  assumes "0 < q"
  shows "pow2 (ilog2 q) \<le> fl_pos q" and "fl_pos q \<le> pow2 (ilog2 q + 1)"
proof -
  define e where "e = ilog2 q - 52"
  have s1: "pow2 (ilog2 q) = 2 ^ 52 * pow2 e"
    using pow2_add [of 52 e] by (simp add: e_def pow2_numeral)
  have s2: "pow2 (ilog2 q + 1) = 2 ^ 53 * pow2 e"
    using pow2_add [of 53 e] by (simp add: e_def pow2_numeral algebra_simps)
  have "of_int (2 ^ 52) \<le> q / pow2 e"
    using ilog2_bounds(1) [OF assms] by (simp add: s1 field_simps)
  then have "rne (of_int (2 ^ 52)) \<le> rne (q / pow2 e)" by (rule rne_mono)
  then have "2 ^ 52 \<le> rne (q / pow2 e)" by (simp only: rne_int)
  then have l: "(2 ^ 52 :: rat) \<le> of_int (rne (q / pow2 e))"
    by (metis of_int_le_iff of_int_numeral of_int_power)
  have "q / pow2 e \<le> of_int (2 ^ 53)"
    using ilog2_bounds(2) [OF assms] unfolding s2 by (simp add: field_simps)
  then have "rne (q / pow2 e) \<le> rne (of_int (2 ^ 53))" by (rule rne_mono)
  then have "rne (q / pow2 e) \<le> 2 ^ 53" by (simp only: rne_int)
  then have u: "of_int (rne (q / pow2 e)) \<le> (2 ^ 53 :: rat)"
    by (metis of_int_le_iff of_int_numeral of_int_power)
  have f: "fl_pos q = of_int (rne (q / pow2 e)) * pow2 e" by (simp add: fl_pos_def e_def Let_def)
  show "pow2 (ilog2 q) \<le> fl_pos q"
    unfolding f s1 using l by (intro mult_right_mono) auto
  show "fl_pos q \<le> pow2 (ilog2 q + 1)"
    unfolding f s2 using u by (intro mult_right_mono) auto
qed

lemma fl_pos_positive: "0 < q \<Longrightarrow> 0 < fl_pos q"
  using fl_pos_bounds(1) pow2_pos by (metis less_le_trans)

lemma fl_pos_mono:
  assumes "0 < x" "x \<le> y"
  shows "fl_pos x \<le> fl_pos y"
proof (cases "ilog2 x = ilog2 y")
  case True
  have "rne (x / pow2 (ilog2 y - 52)) \<le> rne (y / pow2 (ilog2 y - 52))"
    using assms by (intro rne_mono divide_right_mono) auto
  then show ?thesis by (simp add: fl_pos_def Let_def True)
next
  case False
  with ilog2_mono [OF assms] have "ilog2 x + 1 \<le> ilog2 y" by simp
  then have "pow2 (ilog2 x + 1) \<le> pow2 (ilog2 y)" by (rule pow2_mono)
  then show ?thesis
    using fl_pos_bounds(2) [of x] fl_pos_bounds(1) [of y] assms by linarith
qed

lemma fl_0 [simp]: "fl 0 = 0"
  by (simp add: fl_def)

lemma fl_positive: "0 < q \<Longrightarrow> 0 < fl q"
  by (simp add: fl_def fl_pos_positive)

lemma fl_nonneg [simp]: "0 \<le> q \<Longrightarrow> 0 \<le> fl q"
  using fl_positive [of q] by (cases "q = 0") auto

lemma fl_mono: "x \<le> y \<Longrightarrow> fl x \<le> fl y"
  using fl_pos_mono [of x y] fl_pos_mono [of "- y" "- x"] fl_pos_positive [of y]
    fl_pos_positive [of "- x"]
  by (auto simp: fl_def)

text \<open>The relative error of one rounding is at most half a unit in the last place.\<close>

lemma fl_error:
  assumes "0 < q"
  shows "\<bar>fl q - q\<bar> \<le> q / 2 ^ 53"
proof -
  define e where "e = ilog2 q - 52"
  have s1: "pow2 (ilog2 q) = 2 ^ 52 * pow2 e"
    using pow2_add [of 52 e] by (simp add: e_def pow2_numeral)
  have f: "fl q = of_int (rne (q / pow2 e)) * pow2 e"
    using assms by (simp add: fl_def fl_pos_def Let_def e_def)
  have "fl q - q = (of_int (rne (q / pow2 e)) - q / pow2 e) * pow2 e"
    by (simp add: f field_simps)
  then have "\<bar>fl q - q\<bar> = \<bar>of_int (rne (q / pow2 e)) - q / pow2 e\<bar> * pow2 e"
    by (simp add: abs_mult)
  also have "\<dots> \<le> 1 / 2 * pow2 e"
    using rne_error by (intro mult_right_mono) auto
  also have "\<dots> \<le> q / 2 ^ 53"
    using ilog2_bounds(1) [OF assms] by (simp add: s1)
  finally show ?thesis .
qed

text \<open>Integers of at most 53 bits are exact.\<close>

lemma fl_nat_exact:
  assumes "n \<le> 2 ^ 53"
  shows "fl (of_nat n) = of_nat n"
proof (cases "n = 0")
  case False
  define q :: rat where "q = of_nat n"
  have q: "0 < q" using False by (simp add: q_def)
  show ?thesis
  proof (cases "n = 2 ^ 53")
    case True
    have b: "fl_pos q \<le> pow2 (ilog2 q + 1)" "pow2 (ilog2 q) \<le> fl_pos q"
      using fl_pos_bounds [OF q] by auto
    have "q = pow2 53" by (simp add: q_def True pow2_def)
    then have l: "ilog2 q = 53"
      using ilog2_bounds [OF q] pow2_less_iff [of 53 "ilog2 q + 1"] pow2_less_iff [of 53 "ilog2 q"]
      by (auto simp: not_less [symmetric])
    then have p2: "pow2 (ilog2 q - 52) = 2" by (simp add: pow2_def)
    have "q / 2 = of_int (2 ^ 52)" by (simp add: q_def True)
    then have "fl_pos q = of_int (2 ^ 52) * 2"
      unfolding fl_pos_def Let_def p2 by (simp only: rne_int)
    also have "\<dots> = q" by (simp add: q_def True)
    finally show ?thesis using q by (simp add: fl_def q_def)
  next
    case False
    with assms have "q < pow2 53"
      by (simp add: q_def pow2_def)
    then have "pow2 (ilog2 q) < pow2 53" using ilog2_bounds(1) [OF q] by linarith
    then have "ilog2 q < 53" by (simp add: pow2_less_iff)
    then have le: "ilog2 q - 52 \<le> 0" by simp
    define k where "k = nat (52 - ilog2 q)"
    have pk: "pow2 (ilog2 q - 52) = 1 / 2 ^ k" using le by (auto simp: pow2_def k_def)
    have "q / (1 / 2 ^ k) = of_int (int n * 2 ^ k)" by (simp add: q_def)
    then have "fl_pos q = of_int (int n * 2 ^ k) * (1 / 2 ^ k)"
      unfolding fl_pos_def Let_def pk by (simp only: rne_int)
    also have "\<dots> = q" by (simp add: q_def)
    finally show ?thesis using q by (simp add: fl_def q_def)
  qed
qed simp

section \<open>The operations of the sources\<close>

text \<open>
  \<open>static_cast<double>(n)\<close> of an unsigned integer (\<open>dnat\<close>), of a \<open>uint64_t\<close> (\<open>dbl\<close>), and the
  arithmetic of doubles.
\<close>

definition dnat :: "nat \<Rightarrow> rat" where
  "dnat n = fl (of_nat n)"

definition dbl :: "u64 \<Rightarrow> rat" where
  "dbl n = dnat (unat n)"

definition dmul :: "rat \<Rightarrow> rat \<Rightarrow> rat" where
  "dmul x y = fl (x * y)"

definition ddiv :: "rat \<Rightarrow> rat \<Rightarrow> rat" where
  "ddiv x y = fl (x / y)"

definition dadd :: "rat \<Rightarrow> rat \<Rightarrow> rat" where
  "dadd x y = fl (x + y)"

definition dsub :: "rat \<Rightarrow> rat \<Rightarrow> rat" where
  "dsub x y = fl (x - y)"

lemma dnat_mono: "a \<le> b \<Longrightarrow> dnat a \<le> dnat b"
  unfolding dnat_def by (intro fl_mono) simp

lemma dnat_nonneg [simp]: "0 \<le> dnat a"
  by (simp add: dnat_def)

lemma dnat_0 [simp]: "dnat 0 = 0"
  by (simp add: dnat_def)

lemma dnat_pos: "0 < a \<Longrightarrow> 0 < dnat a"
  unfolding dnat_def by (intro fl_positive) simp

lemma dnat_exact: "a \<le> 2 ^ 53 \<Longrightarrow> dnat a = of_nat a"
  unfolding dnat_def by (rule fl_nat_exact)

lemma dbl_mono: "a \<le> b \<Longrightarrow> dbl a \<le> dbl b"
  by (simp add: dbl_def word_le_nat_alt dnat_mono)

lemma dbl_nonneg [simp]: "0 \<le> dbl a"
  by (simp add: dbl_def)

lemma dbl_0 [simp]: "dbl 0 = 0"
  by (simp add: dbl_def)

lemma dbl_pos: "0 < a \<Longrightarrow> 0 < dbl a"
  by (simp add: dbl_def dnat_pos unat_gt_0)

lemma fl_1 [simp]: "fl 1 = 1"
  using fl_nat_exact [of 1] by simp

text \<open>A share of a total is at most one, whatever the rounding does.\<close>

lemma ddiv_le_1: "a \<le> b \<Longrightarrow> 0 < b \<Longrightarrow> ddiv (dbl a) (dbl b) \<le> 1"
proof -
  assume "a \<le> b" "0 < b"
  then have "dbl a / dbl b \<le> 1" using dbl_mono [of a b] dbl_pos [of b] by simp
  then show ?thesis using fl_mono [of "dbl a / dbl b" 1] by (simp add: ddiv_def)
qed

section \<open>Comparing a rounded ratio with a rounded share\<close>

text \<open>
  The balance decisions compare \<open>a / b\<close> of two counters with \<open>c * (1 / n)\<close>. Each side is off by
  a few units in the last place, so a relative margin of \<open>2 ^ -50\<close> decides the comparison.
\<close>

abbreviation ulp :: rat where "ulp \<equiv> 1 / 2 ^ 53"

abbreviation margin :: rat where "margin \<equiv> 1 / 2 ^ 50"

lemma fl_rel:
  assumes "0 \<le> q"
  shows "q * (1 - ulp) \<le> fl q" and "fl q \<le> q * (1 + ulp)"
proof -
  have "\<bar>fl q - q\<bar> \<le> q * ulp"
    using assms fl_error [of q] by (cases "q = 0") simp_all
  then show "q * (1 - ulp) \<le> fl q" "fl q \<le> q * (1 + ulp)"
    unfolding right_diff_distrib distrib_left mult_1_right by linarith+
qed

definition exact :: "u64 \<Rightarrow> rat" where
  "exact a = (\<lambda>n. rat_of_nat n) (unat a)"

lemma exact_pos: "0 < a \<Longrightarrow> 0 < exact a"
  using unat_gt_0 [of a] unfolding exact_def by (simp only: of_nat_0_less_iff)

lemma exact_nonneg: "0 \<le> exact a"
  unfolding exact_def by (rule of_nat_0_le_iff)

lemma dbl_rel:
  shows "exact a * (1 - ulp) \<le> dbl a" and "dbl a \<le> exact a * (1 + ulp)"
  unfolding dbl_def dnat_def exact_def by (rule fl_rel [OF of_nat_0_le_iff])+

definition exact_ratio :: "u64 \<Rightarrow> u64 \<Rightarrow> rat" where
  "exact_ratio a b = exact a / exact b"

lemma ratio_bounds:
  assumes "0 < b"
  shows "exact_ratio a b * ((1 - ulp) ^ 2 / (1 + ulp)) \<le> ddiv (dbl a) (dbl b)"
    and "ddiv (dbl a) (dbl b) \<le> exact_ratio a b * ((1 + ulp) ^ 2 / (1 - ulp))"
proof -
  let ?a = "exact a" and ?b = "exact b"
  have b: "0 < ?b" "0 < dbl b" using assms by (rule exact_pos dbl_pos)+
  have q: "0 \<le> dbl a / dbl b" using b by simp
  have "?a * (1 - ulp) / (?b * (1 + ulp)) \<le> dbl a / dbl b"
    using b dbl_rel by (intro frac_le) (simp_all add: exact_nonneg)
  then have "?a * (1 - ulp) / (?b * (1 + ulp)) * (1 - ulp) \<le> dbl a / dbl b * (1 - ulp)"
    by (rule mult_right_mono) simp
  also have "\<dots> \<le> fl (dbl a / dbl b)" by (rule fl_rel(1) [OF q])
  finally show "exact_ratio a b * ((1 - ulp) ^ 2 / (1 + ulp)) \<le> ddiv (dbl a) (dbl b)"
    by (simp add: ddiv_def exact_ratio_def power2_eq_square)
  have "fl (dbl a / dbl b) \<le> dbl a / dbl b * (1 + ulp)" by (rule fl_rel(2) [OF q])
  also have "\<dots> \<le> ?a * (1 + ulp) / (?b * (1 - ulp)) * (1 + ulp)"
    using b dbl_rel by (intro mult_right_mono frac_le) (simp_all add: exact_nonneg)
  finally show "ddiv (dbl a) (dbl b) \<le> exact_ratio a b * ((1 + ulp) ^ 2 / (1 - ulp))"
    by (simp add: ddiv_def exact_ratio_def power2_eq_square)
qed

lemma share_bounds:
  assumes "0 < n" and "n \<le> 2 ^ 53" and "0 \<le> c"
  shows "c / rat_of_nat n * (1 - ulp) ^ 2 \<le> dmul c (ddiv 1 (dnat n))"
    and "dmul c (ddiv 1 (dnat n)) \<le> c / rat_of_nat n * (1 + ulp) ^ 2"
proof -
  let ?e = "fl (1 / rat_of_nat n)"
  have eq: "dmul c (ddiv 1 (dnat n)) = fl (c * ?e)"
    using assms(2) by (simp add: dmul_def ddiv_def dnat_exact)
  have e: "1 / rat_of_nat n * (1 - ulp) \<le> ?e" "?e \<le> 1 / rat_of_nat n * (1 + ulp)"
    by (rule fl_rel; simp)+
  have nn: "0 \<le> c * ?e" using assms by simp
  have "c * (1 / rat_of_nat n * (1 - ulp)) * (1 - ulp) \<le> c * ?e * (1 - ulp)"
    using e(1) assms(3) by (intro mult_right_mono mult_left_mono) auto
  also have "\<dots> \<le> fl (c * ?e)" by (rule fl_rel(1) [OF nn])
  finally show "c / rat_of_nat n * (1 - ulp) ^ 2 \<le> dmul c (ddiv 1 (dnat n))"
    unfolding eq by (simp add: power2_eq_square mult.assoc)
  have "fl (c * ?e) \<le> c * ?e * (1 + ulp)" by (rule fl_rel(2) [OF nn])
  also have "\<dots> \<le> c * (1 / rat_of_nat n * (1 + ulp)) * (1 + ulp)"
    using e(2) assms(3) by (intro mult_right_mono mult_left_mono) auto
  finally show "dmul c (ddiv 1 (dnat n)) \<le> c / rat_of_nat n * (1 + ulp) ^ 2"
    unfolding eq by (simp add: power2_eq_square mult.assoc)
qed

lemma ratio_above:
  assumes "0 < n" and "n \<le> 2 ^ 53" and "0 < c" and "0 < b"
    and "c / rat_of_nat n * (1 + margin) < exact_ratio a b"
  shows "dmul c (ddiv 1 (dnat n)) < ddiv (dbl a) (dbl b)"
proof -
  let ?s = "c / rat_of_nat n"
  have "dmul c (ddiv 1 (dnat n)) \<le> ?s * (1 + ulp) ^ 2" using share_bounds assms by simp
  also have "\<dots> \<le> ?s * (1 + margin) * ((1 - ulp) ^ 2 / (1 + ulp))"
    using assms unfolding mult.assoc by (intro mult_left_mono) (simp_all add: power2_eq_square)
  also have "\<dots> < exact_ratio a b * ((1 - ulp) ^ 2 / (1 + ulp))"
    using assms(5) by (intro mult_strict_right_mono) (simp_all add: power2_eq_square)
  also have "\<dots> \<le> ddiv (dbl a) (dbl b)" by (rule ratio_bounds(1) [OF assms(4)])
  finally show ?thesis .
qed

lemma ratio_below:
  assumes "0 < n" and "n \<le> 2 ^ 53" and "0 < c" and "0 < b"
    and "exact_ratio a b < c / rat_of_nat n * (1 - margin)"
  shows "ddiv (dbl a) (dbl b) < dmul c (ddiv 1 (dnat n))"
proof -
  let ?s = "c / rat_of_nat n"
  have "ddiv (dbl a) (dbl b) \<le> exact_ratio a b * ((1 + ulp) ^ 2 / (1 - ulp))"
    by (rule ratio_bounds(2) [OF assms(4)])
  also have "\<dots> < ?s * (1 - margin) * ((1 + ulp) ^ 2 / (1 - ulp))"
    using assms(5) by (intro mult_strict_right_mono) (simp_all add: power2_eq_square)
  also have "\<dots> \<le> ?s * (1 - ulp) ^ 2"
    using assms unfolding mult.assoc by (intro mult_left_mono) (simp_all add: power2_eq_square)
  also have "\<dots> \<le> dmul c (ddiv 1 (dnat n))" using share_bounds assms by simp
  finally show ?thesis .
qed

end
