(* ===== verification/Bucket_Adjust.thy ===== *)
theory Bucket_Adjust
  imports Bucket_Manager Float64
begin

text \<open>
  The structural changes of \<open>BucketManager\<close>: \<open>SplitBucket\<close>, \<open>MergeWithAdjacentBucket\<close> and the
  two methods that decide on them, \<open>AdjustAfterCompaction\<close> and \<open>AdjustBucketsInRange\<close>.

  The lemmas give the ranges after a change, show that every change keeps the chain over the whole
  key space and the statistics invariant, that no recorded event is lost, and that a split keeps
  the partition disjoint when the bucket is splittable.
\<close>

section \<open>Splitting and merging\<close>

definition split_pair :: "Bucket \<Rightarrow> key \<Rightarrow> Bucket \<times> Bucket" where
  "split_pair b split_point =
     (let left = b\<lparr>max_key := split_point,
                   flush_events := filter (\<lambda>(_, e). \<not> ev_median_key e \<ge> split_point) (flush_events b)\<rparr>;
          right = (new_bucket split_point (max_key b))
                    \<lparr>flush_events := filter (\<lambda>(_, e). ev_median_key e \<ge> split_point) (flush_events b)\<rparr>
      in (RecalculateWindowStats left, RecalculateWindowStats right))"

definition SplitBucket :: "int \<Rightarrow> BucketManager \<Rightarrow> BucketManager" where
  "SplitBucket idx bm =
     (if idx < 0 \<or> idx \<ge> int (length (buckets bm)) then bm
      else
        let i = nat idx;
            b = buckets bm ! i;
            (left, right) = split_pair b (choose_split_point b)
        in bm\<lparr>buckets := take i (buckets bm) @ [left, right] @ drop (Suc i) (buckets bm),
              structure_epoch := structure_epoch bm + 1\<rparr>)"

definition merge_target :: "int \<Rightarrow> BucketManager \<Rightarrow> int" where
  "merge_target idx bm =
     (let n = int (length (buckets bm)) in
      if idx > 0 \<and> idx < n - 1 then
        (if window_data_bytes (buckets bm ! nat (idx - 1)) < window_data_bytes (buckets bm ! nat (idx + 1))
         then idx - 1 else idx + 1)
      else if idx > 0 then idx - 1
      else if idx < n - 1 then idx + 1
      else -1)"

definition merge_event ::
  "u64 \<times> FlushEvent \<Rightarrow> (u64, FlushEvent) omap \<Rightarrow> (u64, FlushEvent) omap" where
  "merge_event kv evs =
     (case kv of (flush_id, right_event) \<Rightarrow>
        case map_of evs flush_id of
          Some e \<Rightarrow> omap_upd flush_id
            (e\<lparr>ev_file_count := ev_file_count e + ev_file_count right_event,
               ev_entry_count := ev_entry_count e + ev_entry_count right_event,
               ev_data_bytes := ev_data_bytes e + ev_data_bytes right_event\<rparr>) evs
        | None \<Rightarrow> omap_upd flush_id right_event evs)"

definition merge_pair :: "Bucket \<Rightarrow> Bucket \<Rightarrow> Bucket" where
  "merge_pair left right =
     RecalculateWindowStats
       (left\<lparr>max_key := max_key right,
             flush_events := fold merge_event (flush_events right) (flush_events left)\<rparr>)"

definition MergeWithAdjacentBucket :: "int \<Rightarrow> BucketManager \<Rightarrow> BucketManager" where
  "MergeWithAdjacentBucket idx bm =
     (if idx < 0 \<or> idx \<ge> int (length (buckets bm)) then bm
      else if length (buckets bm) \<le> 1 then bm
      else
        let target = merge_target idx bm in
        if target < 0 then bm
        else
          let left = nat (min idx target);
              right = nat (max idx target);
              merged = merge_pair (buckets bm ! left) (buckets bm ! right);
              replaced = (buckets bm)[left := merged]
          in bm\<lparr>buckets := take right replaced @ drop (Suc right) replaced,
                structure_epoch := structure_epoch bm + 1\<rparr>)"

definition total_window_files :: "BucketManager \<Rightarrow> u64" where
  "total_window_files bm = (\<Sum>b \<leftarrow> buckets bm. window_file_count b)"

definition total_window_bytes :: "BucketManager \<Rightarrow> u64" where
  "total_window_bytes bm = (\<Sum>b \<leftarrow> buckets bm. window_data_bytes b)"

text \<open>The result is \<open>(modified, state)\<close>.\<close>

definition AdjustAfterCompaction :: "int \<Rightarrow> BucketManager \<Rightarrow> bool \<times> BucketManager" where
  "AdjustAfterCompaction idx bm =
     (if cfd_enable_adjustment bm = Some False then (False, bm)
      else if idx < 0 \<or> idx \<ge> int (length (buckets bm)) then (False, bm)
      else
        let files = total_window_files bm; bytes = total_window_bytes bm; b = buckets bm ! nat idx in
        if files = 0 \<or> bytes = 0 then (False, bm)
        else
          let expected_ratio = ddiv 1 (dnat (length (buckets bm)));
              actual_ratio = ddiv (dbl (window_data_bytes b)) (dbl bytes)
          in if actual_ratio > dmul (3 / 2) expected_ratio then (True, SplitBucket idx bm)
             else if actual_ratio < dmul (1 / 2) expected_ratio \<and> length (buckets bm) > 1
             then (True, MergeWithAdjacentBucket idx bm)
             else (False, bm))"

text \<open>One iteration of the loop of \<open>AdjustBucketsInRange\<close>; \<open>files\<close> and \<open>bytes\<close> are the totals
  computed once before the loop, the expected ratio is recomputed after each change.\<close>

fun adjust_step ::
  "u64 \<Rightarrow> u64 \<Rightarrow> nat \<Rightarrow> bool \<times> rat \<times> BucketManager \<Rightarrow> bool \<times> rat \<times> BucketManager" where
  "adjust_step files bytes idx (any_modified, expected_ratio, bm) =
     (if idx \<ge> length (buckets bm) then (any_modified, expected_ratio, bm)
      else
        let b = buckets bm ! idx;
            actual_ratio = dadd (dmul (1 / 2) (ddiv (dbl (window_file_count b)) (dbl files)))
                                (dmul (1 / 2) (ddiv (dbl (window_data_bytes b)) (dbl bytes)))
        in if actual_ratio > dmul 2 expected_ratio then
             let bm' = SplitBucket (int idx) bm
             in (True, ddiv 1 (dnat (length (buckets bm'))), bm')
           else if actual_ratio < dmul (1 / 4) expected_ratio \<and> length (buckets bm) > 1 then
             let bm' = MergeWithAdjacentBucket (int idx) bm
             in (True, ddiv 1 (dnat (length (buckets bm'))), bm')
           else (any_modified, expected_ratio, bm))"

definition AdjustBucketsInRange :: "key \<Rightarrow> key \<Rightarrow> BucketManager \<Rightarrow> bool \<times> BucketManager" where
  "AdjustBucketsInRange lo hi bm =
     (if buckets bm = [] then (False, bm)
      else
        let affected = filter (\<lambda>i. bucket_overlaps lo hi (buckets bm ! i)) [0..<length (buckets bm)] in
        if affected = [] then (False, bm)
        else
          let files = total_window_files bm; bytes = total_window_bytes bm in
          if files = 0 \<or> bytes = 0 then (False, bm)
          else
            let (any_modified, _, bm') =
                  fold (adjust_step files bytes) (rev affected)
                    (False, ddiv 1 (dnat (length (buckets bm))), bm)
            in (any_modified, bm'))"

section \<open>Splitting\<close>

lemma split_pair_ranges [simp]:
  "bucket_range (fst (split_pair b s)) = (min_key b, s)"
  "bucket_range (snd (split_pair b s)) = (s, max_key b)"
  by (simp_all add: split_pair_def Let_def bucket_range_def)

lemma split_pair_stats:
  assumes "stats_ok b"
  shows "stats_ok (fst (split_pair b s))" and "stats_ok (snd (split_pair b s))"
    and "window_file_count (fst (split_pair b s)) + window_file_count (snd (split_pair b s)) =
         window_file_count b"
    and "window_entry_count (fst (split_pair b s)) + window_entry_count (snd (split_pair b s)) =
         window_entry_count b"
    and "window_data_bytes (fst (split_pair b s)) + window_data_bytes (snd (split_pair b s)) =
         window_data_bytes b"
proof -
  let ?P = "\<lambda>x :: u64 \<times> FlushEvent. s \<le> ev_median_key (snd x)"
  have f: "(\<lambda>(_, e). s \<le> ev_median_key e) = ?P" "(\<lambda>(_, e). \<not> s \<le> ev_median_key e) = (\<lambda>x. \<not> ?P x)"
    by auto
  have sum: "omap_sum g (filter (\<lambda>x. \<not> ?P x) (flush_events b)) + omap_sum g (filter ?P (flush_events b)) =
      omap_sum g (flush_events b)" for g :: "FlushEvent \<Rightarrow> u64"
    using omap_sum_filter [of g ?P "flush_events b"] by (simp add: add.commute)
  show "stats_ok (fst (split_pair b s))" "stats_ok (snd (split_pair b s))"
    using assms unfolding split_pair_def Let_def fst_conv snd_conv
    by (intro stats_ok_Recalculate; simp add: stats_ok_def omap_ok_filter)+
  show "window_file_count (fst (split_pair b s)) + window_file_count (snd (split_pair b s)) =
        window_file_count b"
    "window_entry_count (fst (split_pair b s)) + window_entry_count (snd (split_pair b s)) =
        window_entry_count b"
    "window_data_bytes (fst (split_pair b s)) + window_data_bytes (snd (split_pair b s)) =
        window_data_bytes b"
    using assms sum by (simp_all add: split_pair_def Let_def RecalculateWindowStats_eq stats_ok_def f)
qed

lemma split_pair_ids:
  "event_ids (fst (split_pair b s)) \<union> event_ids (snd (split_pair b s)) = event_ids b"
  by (auto simp: split_pair_def Let_def event_ids_def)

lemma SplitBucket_buckets:
  assumes "0 \<le> idx" and "nat idx < length (buckets bm)"
  shows "buckets (SplitBucket idx bm) = take (nat idx) (buckets bm) @
      [fst (split_pair (buckets bm ! nat idx) (choose_split_point (buckets bm ! nat idx))),
       snd (split_pair (buckets bm ! nat idx) (choose_split_point (buckets bm ! nat idx)))] @
      drop (Suc (nat idx)) (buckets bm)"
proof -
  have "\<not> (idx < 0 \<or> int (length (buckets bm)) \<le> idx)" using assms by linarith
  then show ?thesis by (simp add: SplitBucket_def Let_def case_prod_unfold)
qed

lemma SplitBucket_out: "idx < 0 \<or> int (length (buckets bm)) \<le> idx \<Longrightarrow> SplitBucket idx bm = bm"
  by (simp add: SplitBucket_def)

lemma SplitBucket_frame [simp]:
  "global_flush_counter (SplitBucket idx bm) = global_flush_counter bm"
  "initialized (SplitBucket idx bm) = initialized bm"
  "cfd_enable_adjustment (SplitBucket idx bm) = cfd_enable_adjustment bm"
  by (simp_all add: SplitBucket_def Let_def case_prod_unfold)

lemma split_ranges:
  assumes "i < length rs" and "rs ! i = (lo, hi)" and "covers_all rs"
  shows "covers_all (take i rs @ [(lo, s), (s, hi)] @ drop (Suc i) rs)"
proof -
  have "link [] (take i rs @ (lo, hi) # drop (Suc i) rs) []"
    using assms split_nth [of i rs] by (simp add: covers_all_def)
  then show ?thesis by (auto simp: covers_all_def range_simps)
qed

lemma SplitBucket_ranges:
  assumes "0 \<le> idx" and "nat idx < length (buckets bm)"
  shows "bucket_ranges (SplitBucket idx bm) = take (nat idx) (bucket_ranges bm) @
      [(min_key (buckets bm ! nat idx), choose_split_point (buckets bm ! nat idx)),
       (choose_split_point (buckets bm ! nat idx), max_key (buckets bm ! nat idx))] @
      drop (Suc (nat idx)) (bucket_ranges bm)"
  by (simp add: SplitBucket_buckets [OF assms] take_map drop_map)

lemma bm_ok_SplitBucket:
  assumes "bm_ok bm"
  shows "bm_ok (SplitBucket idx bm)"
proof (cases "0 \<le> idx \<and> nat idx < length (buckets bm)")
  case True
  then have i: "0 \<le> idx" "nat idx < length (buckets bm)" by auto
  let ?b = "buckets bm ! nat idx"
  have b: "?b \<in> set (buckets bm)" using i by simp
  have init: "initialized bm" using assms i by (auto simp: bm_ok_def split: if_splits)
  have "covers_all (bucket_ranges (SplitBucket idx bm))"
    unfolding SplitBucket_ranges [OF i]
    using assms init i by (intro split_ranges) (auto simp: bm_ok_def bucket_range_def)
  moreover have "stats_ok b' \<and> event_ids b' \<subseteq> window_ids (global_flush_counter bm)"
    if "b' \<in> set (buckets (SplitBucket idx bm))" for b'
  proof -
    have ok: "stats_ok ?b" "event_ids ?b \<subseteq> window_ids (global_flush_counter bm)"
      using assms b by (auto simp: bm_ok_def)
    from \<open>b' \<in> _\<close> consider "b' \<in> set (buckets bm)"
      | "b' = fst (split_pair ?b (choose_split_point ?b))"
      | "b' = snd (split_pair ?b (choose_split_point ?b))"
      unfolding SplitBucket_buckets [OF i] by (auto dest: in_set_takeD in_set_dropD)
    then show ?thesis
      using ok split_pair_stats [OF ok(1)] split_pair_ids [of ?b "choose_split_point ?b"] assms
      by cases (auto simp: bm_ok_def)
  qed
  ultimately show ?thesis using init by (simp add: bm_ok_def)
next
  case False
  then have "SplitBucket idx bm = bm" by (intro SplitBucket_out) linarith
  with assms show ?thesis by simp
qed

text \<open>A splittable bucket of a partition splits into two ranges of a partition.\<close>

lemma ranges_ok_split:
  assumes ok: "ranges_ok rs" and i: "i < length rs" and r: "rs ! i = (lo, hi)"
    and s: "strictly_inside (lo, hi) s"
  shows "ranges_ok (take i rs @ [(lo, s), (s, hi)] @ drop (Suc i) rs)"
proof -
  let ?l = "take i rs" and ?d = "drop (Suc i) rs"
  have rs: "rs = ?l @ (lo, hi) # ?d" using split_nth [OF i] r by simp
  have cov: "covers_all (?l @ [(lo, s), (s, hi)] @ ?d)"
    using ok by (intro split_ranges [OF i r]) (simp add: ranges_ok_def)
  have "sorted (map fst (?l @ (lo, hi) # ?d))" "[] \<notin> set (map fst (tl (?l @ (lo, hi) # ?d)))"
    and lk: "link [] (?l @ (lo, hi) # ?d) []"
    using ok rs by (auto simp: ranges_ok_def covers_all_def)
  then have srt: "sorted (map fst ?l)" "sorted (map fst ?d)" "\<forall>x \<in> fst ` set ?l. x \<le> lo"
      "\<forall>x \<in> fst ` set ?d. lo \<le> x" "\<forall>x \<in> fst ` set ?l. \<forall>y \<in> fst ` set ?d. x \<le> y"
    and ne: "[] \<notin> set (map fst ?d)" "[] \<notin> set (map fst (tl ?l))" "?l \<noteq> [] \<longrightarrow> lo \<noteq> []"
    by (auto simp: sorted_append tl_append split: list.splits)
  have sd: "\<forall>x \<in> fst ` set ?d. s \<le> x"
  proof (cases ?d)
    case (Cons r' d')
    obtain m where "link hi ?d []" using lk by (auto simp: range_simps)
    then have "fst r' = hi" using Cons by (cases r') auto
    moreover have "hi \<noteq> []" using ne(1) Cons \<open>fst r' = hi\<close> by auto
    ultimately have "s \<le> fst r'" using s by (auto simp: strictly_inside_def)
    then show ?thesis using srt(2) Cons by auto
  qed simp
  have lo_s: "lo \<le> s" "s \<noteq> []" using s by (auto simp: strictly_inside_def)
  have "sorted (map fst (?l @ [(lo, s), (s, hi)] @ ?d))"
    using srt sd lo_s by (auto simp: sorted_append)
  moreover have "[] \<notin> set (map fst (tl (?l @ [(lo, s), (s, hi)] @ ?d)))"
    using ne lo_s by (cases ?l) auto
  ultimately show ?thesis using cov by (simp add: ranges_ok_def)
qed

lemma ranges_ok_SplitBucket:
  assumes "ranges_ok (bucket_ranges bm)" and "0 \<le> idx" and "nat idx < length (buckets bm)"
    and "splittable (min_key (buckets bm ! nat idx)) (max_key (buckets bm ! nat idx))"
  shows "ranges_ok (bucket_ranges (SplitBucket idx bm))"
  unfolding SplitBucket_ranges [OF assms(2,3)]
  using assms choose_split_point_inside [OF assms(4)]
  by (intro ranges_ok_split) (auto simp: bucket_range_def)

section \<open>Merging\<close>

lemma merge_event_ok: "omap_ok evs \<Longrightarrow> omap_ok (merge_event kv evs)"
  by (auto simp: merge_event_def split: prod.splits option.splits)

lemma omap_sum_add_to:
  assumes "omap_ok evs"
    and "map_of evs k = None \<Longrightarrow> f v' = f v" and "\<And>e. map_of evs k = Some e \<Longrightarrow> f v' = f e + f v"
  shows "omap_sum f (omap_upd k v' evs) = omap_sum f evs + (f v :: 'a :: ab_group_add)"
proof (cases "map_of evs k")
  case None
  then show ?thesis
    using omap_sum_upd_fresh [of k evs f v'] assms(2) by (simp add: map_of_eq_None_iff add.commute)
next
  case (Some e)
  then show ?thesis
    using omap_sum_upd_present [OF assms(1) Some, of f v'] assms(3) by simp
qed

lemma merge_event_sums:
  assumes "omap_ok evs"
  shows "omap_sum ev_file_count (merge_event kv evs) = omap_sum ev_file_count evs + ev_file_count (snd kv)"
    and "omap_sum ev_entry_count (merge_event kv evs) = omap_sum ev_entry_count evs + ev_entry_count (snd kv)"
    and "omap_sum ev_data_bytes (merge_event kv evs) = omap_sum ev_data_bytes evs + ev_data_bytes (snd kv)"
  by (auto simp: merge_event_def intro!: omap_sum_add_to [OF assms] split: prod.splits option.splits)

lemma merge_event_ids: "fst ` set (merge_event kv evs) = insert (fst kv) (fst ` set evs)"
  by (cases kv; cases "map_of evs (fst kv)") (simp_all add: merge_event_def)

lemma merge_events:
  assumes "omap_ok evs"
  shows "omap_ok (fold merge_event kvs evs)"
    and "omap_sum ev_file_count (fold merge_event kvs evs) =
         omap_sum ev_file_count evs + omap_sum ev_file_count kvs"
    and "omap_sum ev_entry_count (fold merge_event kvs evs) =
         omap_sum ev_entry_count evs + omap_sum ev_entry_count kvs"
    and "omap_sum ev_data_bytes (fold merge_event kvs evs) =
         omap_sum ev_data_bytes evs + omap_sum ev_data_bytes kvs"
    and "fst ` set (fold merge_event kvs evs) = fst ` set kvs \<union> fst ` set evs"
  using assms
  by (induction kvs arbitrary: evs)
     (auto simp: merge_event_ok merge_event_sums merge_event_ids algebra_simps)

lemma merge_pair_keys [simp]:
  "min_key (merge_pair l r) = min_key l" "max_key (merge_pair l r) = max_key r"
  by (simp_all add: merge_pair_def)

lemma merge_pair_stats:
  assumes "stats_ok l" and "stats_ok r"
  shows "stats_ok (merge_pair l r)"
    and "event_ids (merge_pair l r) = event_ids l \<union> event_ids r"
    and "window_file_count (merge_pair l r) = window_file_count l + window_file_count r"
    and "window_entry_count (merge_pair l r) = window_entry_count l + window_entry_count r"
    and "window_data_bytes (merge_pair l r) = window_data_bytes l + window_data_bytes r"
proof -
  have l: "omap_ok (flush_events l)" using assms(1) by (simp add: stats_ok_def)
  show "stats_ok (merge_pair l r)"
    unfolding merge_pair_def using merge_events(1) [OF l] by (intro stats_ok_Recalculate) simp
  show "event_ids (merge_pair l r) = event_ids l \<union> event_ids r"
    using merge_events(5) [OF l, of "flush_events r"]
    by (auto simp: merge_pair_def event_ids_def)
  show "window_file_count (merge_pair l r) = window_file_count l + window_file_count r"
    "window_entry_count (merge_pair l r) = window_entry_count l + window_entry_count r"
    "window_data_bytes (merge_pair l r) = window_data_bytes l + window_data_bytes r"
    using assms merge_events(2-4) [OF l, of "flush_events r"]
    by (simp_all add: merge_pair_def RecalculateWindowStats_eq stats_ok_def)
qed

text \<open>The pair that is merged: two neighbours, the left one at \<open>merge_left\<close>.\<close>

definition merge_left :: "int \<Rightarrow> BucketManager \<Rightarrow> nat" where
  "merge_left idx bm = nat (min idx (merge_target idx bm))"

lemma merge_target_neighbour:
  assumes "0 \<le> idx" and "idx < int (length (buckets bm))" and "1 < length (buckets bm)"
  shows "0 \<le> merge_target idx bm" and "Suc (merge_left idx bm) < length (buckets bm)"
    and "nat (max idx (merge_target idx bm)) = Suc (merge_left idx bm)"
  using assms by (auto simp: merge_target_def merge_left_def Let_def split: if_splits)

lemma MergeWithAdjacentBucket_buckets:
  assumes "0 \<le> idx" and "idx < int (length (buckets bm))" and "1 < length (buckets bm)"
  shows "buckets (MergeWithAdjacentBucket idx bm) =
    take (merge_left idx bm) (buckets bm) @
    [merge_pair (buckets bm ! merge_left idx bm) (buckets bm ! Suc (merge_left idx bm))] @
    drop (Suc (Suc (merge_left idx bm))) (buckets bm)"
proof -
  let ?l = "merge_left idx bm" and ?bs = "buckets bm"
  have l: "Suc ?l < length ?bs" using merge_target_neighbour [OF assms] by simp
  have "take (Suc ?l) (?bs[?l := m]) @ drop (Suc (Suc ?l)) (?bs[?l := m]) =
      take ?l ?bs @ [m] @ drop (Suc (Suc ?l)) ?bs" for m
    using l by (simp add: take_Suc_conv_app_nth)
  moreover have "nat (min idx (merge_target idx bm)) = ?l" by (simp add: merge_left_def)
  ultimately show ?thesis
    using assms merge_target_neighbour [OF assms] by (simp add: MergeWithAdjacentBucket_def Let_def)
qed

lemma MergeWithAdjacentBucket_out:
  "idx < 0 \<or> int (length (buckets bm)) \<le> idx \<or> length (buckets bm) \<le> 1 \<Longrightarrow>
    MergeWithAdjacentBucket idx bm = bm"
  by (auto simp: MergeWithAdjacentBucket_def)

lemma MergeWithAdjacentBucket_frame [simp]:
  "global_flush_counter (MergeWithAdjacentBucket idx bm) = global_flush_counter bm"
  "initialized (MergeWithAdjacentBucket idx bm) = initialized bm"
  "cfd_enable_adjustment (MergeWithAdjacentBucket idx bm) = cfd_enable_adjustment bm"
  by (simp_all add: MergeWithAdjacentBucket_def Let_def)

lemma two_nth: "Suc i < length xs \<Longrightarrow> xs = take i xs @ [xs ! i, xs ! Suc i] @ drop (Suc (Suc i)) xs"
  by (simp add: Cons_nth_drop_Suc Suc_lessD)

lemma merge_ranges:
  assumes "Suc i < length rs" and "covers_all rs"
  shows "covers_all (take i rs @ [(fst (rs ! i), snd (rs ! Suc i))] @ drop (Suc (Suc i)) rs)"
proof -
  obtain a b c d where r: "rs ! i = (a, b)" "rs ! Suc i = (c, d)" by fastforce
  have "link [] (take i rs @ [(a, b), (c, d)] @ drop (Suc (Suc i)) rs) []"
    using assms(2) two_nth [OF assms(1), symmetric] r by (simp add: covers_all_def)
  then show ?thesis using r by (auto simp: covers_all_def range_simps)
qed

lemma ranges_ok_drop_boundary:
  assumes "ranges_ok (l @ [(a, b), (c, d)] @ r)"
  shows "ranges_ok (l @ [(a, d)] @ r)"
  using assms
  by (cases l) (auto simp: ranges_ok_def covers_all_def range_simps sorted_append)

lemma ranges_ok_merge:
  assumes "Suc i < length rs" and "ranges_ok rs"
  shows "ranges_ok (take i rs @ [(fst (rs ! i), snd (rs ! Suc i))] @ drop (Suc (Suc i)) rs)"
proof (rule ranges_ok_drop_boundary)
  show "ranges_ok (take i rs @ [(fst (rs ! i), snd (rs ! i)), (fst (rs ! Suc i), snd (rs ! Suc i))] @
      drop (Suc (Suc i)) rs)"
    unfolding prod.collapse two_nth [OF assms(1), symmetric] by (rule assms(2))
qed

lemma MergeWithAdjacentBucket_ranges:
  assumes "0 \<le> idx" and "idx < int (length (buckets bm))" and "1 < length (buckets bm)"
  shows "bucket_ranges (MergeWithAdjacentBucket idx bm) =
    take (merge_left idx bm) (bucket_ranges bm) @
    [(fst (bucket_ranges bm ! merge_left idx bm), snd (bucket_ranges bm ! Suc (merge_left idx bm)))] @
    drop (Suc (Suc (merge_left idx bm))) (bucket_ranges bm)"
  using merge_target_neighbour [OF assms]
  by (simp add: MergeWithAdjacentBucket_buckets [OF assms] take_map drop_map bucket_range_def Suc_lessD)

lemma bm_ok_Merge:
  assumes "bm_ok bm"
  shows "bm_ok (MergeWithAdjacentBucket idx bm)"
proof (cases "0 \<le> idx \<and> idx < int (length (buckets bm)) \<and> 1 < length (buckets bm)")
  case True
  then have i: "0 \<le> idx" "idx < int (length (buckets bm))" "1 < length (buckets bm)" by auto
  let ?l = "merge_left idx bm"
  have l: "Suc ?l < length (buckets bm)" using merge_target_neighbour [OF i] by simp
  have init: "initialized bm" using assms i by (cases "initialized bm") (simp_all add: bm_ok_def)
  have "covers_all (bucket_ranges (MergeWithAdjacentBucket idx bm))"
    unfolding MergeWithAdjacentBucket_ranges [OF i]
    using assms init l by (intro merge_ranges) (simp_all add: bm_ok_def)
  moreover have "stats_ok b' \<and> event_ids b' \<subseteq> window_ids (global_flush_counter bm)"
    if "b' \<in> set (buckets (MergeWithAdjacentBucket idx bm))" for b'
  proof -
    have ok: "stats_ok b" "event_ids b \<subseteq> window_ids (global_flush_counter bm)"
      if "b \<in> set (buckets bm)" for b using assms that by (auto simp: bm_ok_def)
    from \<open>b' \<in> _\<close> consider "b' \<in> set (buckets bm)"
      | "b' = merge_pair (buckets bm ! ?l) (buckets bm ! Suc ?l)"
      unfolding MergeWithAdjacentBucket_buckets [OF i] by (auto dest: in_set_takeD in_set_dropD)
    then show ?thesis
    proof cases
      case 1
      then show ?thesis using ok by blast
    next
      case 2
      have "buckets bm ! ?l \<in> set (buckets bm)" "buckets bm ! Suc ?l \<in> set (buckets bm)"
        using l by (auto simp: Suc_lessD)
      then show ?thesis unfolding 2
        using ok merge_pair_stats(1,2) [of "buckets bm ! ?l" "buckets bm ! Suc ?l"] by blast
    qed
  qed
  ultimately show ?thesis unfolding bm_ok_def MergeWithAdjacentBucket_frame using init by simp
next
  case False
  then have "MergeWithAdjacentBucket idx bm = bm"
    by (metis MergeWithAdjacentBucket_out not_le)
  with assms show ?thesis by simp
qed

lemma ranges_ok_Merge:
  assumes "ranges_ok (bucket_ranges bm)"
  shows "ranges_ok (bucket_ranges (MergeWithAdjacentBucket idx bm))"
proof (cases "0 \<le> idx \<and> idx < int (length (buckets bm)) \<and> 1 < length (buckets bm)")
  case True
  then have i: "0 \<le> idx" "idx < int (length (buckets bm))" "1 < length (buckets bm)" by auto
  show ?thesis
    unfolding MergeWithAdjacentBucket_ranges [OF i]
    using merge_target_neighbour [OF i] assms by (intro ranges_ok_merge) auto
next
  case False
  then have "MergeWithAdjacentBucket idx bm = bm"
    by (metis MergeWithAdjacentBucket_out not_le)
  with assms show ?thesis by simp
qed

section \<open>Totals\<close>

definition total_window_entries :: "BucketManager \<Rightarrow> u64" where
  "total_window_entries bm = (\<Sum>b \<leftarrow> buckets bm. window_entry_count b)"

lemmas total_defs = total_window_files_def total_window_bytes_def total_window_entries_def

lemma sum_list_at:
  "i < length xs \<Longrightarrow> sum_list (map f xs) =
    sum_list (map f (take i xs)) + f (xs ! i) + (sum_list (map f (drop (Suc i) xs)) :: 'a :: ab_group_add)"
  by (subst split_nth [of i xs]) (simp_all add: add.assoc)

lemma sum_list_at2:
  "Suc i < length xs \<Longrightarrow> sum_list (map f xs) = sum_list (map f (take i xs)) + f (xs ! i) +
    f (xs ! Suc i) + (sum_list (map f (drop (Suc (Suc i)) xs)) :: 'a :: ab_group_add)"
  by (subst two_nth [of i xs]) (simp_all add: add.assoc)

lemma SplitBucket_totals:
  assumes "bm_ok bm"
  shows "total_window_files (SplitBucket idx bm) = total_window_files bm"
    and "total_window_entries (SplitBucket idx bm) = total_window_entries bm"
    and "total_window_bytes (SplitBucket idx bm) = total_window_bytes bm"
proof -
  have "total_window_files (SplitBucket idx bm) = total_window_files bm \<and>
    total_window_entries (SplitBucket idx bm) = total_window_entries bm \<and>
    total_window_bytes (SplitBucket idx bm) = total_window_bytes bm"
  proof (cases "0 \<le> idx \<and> nat idx < length (buckets bm)")
    case True
    then have i: "0 \<le> idx" "nat idx < length (buckets bm)" by auto
    then have "stats_ok (buckets bm ! nat idx)" using assms by (auto simp: bm_ok_def)
    then show ?thesis
      unfolding total_defs SplitBucket_buckets [OF i]
      by (simp add: sum_list_at [OF i(2)] split_pair_stats(3-5) add.assoc)
  next
    case False
    then have "SplitBucket idx bm = bm" by (intro SplitBucket_out) linarith
    then show ?thesis by simp
  qed
  then show "total_window_files (SplitBucket idx bm) = total_window_files bm"
    "total_window_entries (SplitBucket idx bm) = total_window_entries bm"
    "total_window_bytes (SplitBucket idx bm) = total_window_bytes bm" by auto
qed

lemma Merge_totals:
  assumes "bm_ok bm"
  shows "total_window_files (MergeWithAdjacentBucket idx bm) = total_window_files bm"
    and "total_window_entries (MergeWithAdjacentBucket idx bm) = total_window_entries bm"
    and "total_window_bytes (MergeWithAdjacentBucket idx bm) = total_window_bytes bm"
proof -
  have "total_window_files (MergeWithAdjacentBucket idx bm) = total_window_files bm \<and>
    total_window_entries (MergeWithAdjacentBucket idx bm) = total_window_entries bm \<and>
    total_window_bytes (MergeWithAdjacentBucket idx bm) = total_window_bytes bm"
  proof (cases "0 \<le> idx \<and> idx < int (length (buckets bm)) \<and> 1 < length (buckets bm)")
    case True
    then have i: "0 \<le> idx" "idx < int (length (buckets bm))" "1 < length (buckets bm)" by auto
    let ?l = "merge_left idx bm"
    have l: "Suc ?l < length (buckets bm)" using merge_target_neighbour [OF i] by simp
    then have "stats_ok (buckets bm ! ?l)" "stats_ok (buckets bm ! Suc ?l)"
      using assms by (auto simp: bm_ok_def)
    then show ?thesis
      unfolding total_defs MergeWithAdjacentBucket_buckets [OF i]
      by (simp add: sum_list_at2 [OF l] merge_pair_stats(3-5) add.assoc)
  next
    case False
    then have "MergeWithAdjacentBucket idx bm = bm" by (metis MergeWithAdjacentBucket_out not_le)
    then show ?thesis by simp
  qed
  then show "total_window_files (MergeWithAdjacentBucket idx bm) = total_window_files bm"
    "total_window_entries (MergeWithAdjacentBucket idx bm) = total_window_entries bm"
    "total_window_bytes (MergeWithAdjacentBucket idx bm) = total_window_bytes bm" by auto
qed

section \<open>Number of buckets and epoch\<close>

lemma SplitBucket_count:
  "0 \<le> idx \<Longrightarrow> nat idx < length (buckets bm) \<Longrightarrow>
    length (buckets (SplitBucket idx bm)) = Suc (length (buckets bm)) \<and>
    structure_epoch (SplitBucket idx bm) = structure_epoch bm + 1"
  by (auto simp: SplitBucket_def Let_def case_prod_unfold)

lemma Merge_count:
  assumes "0 \<le> idx" and "idx < int (length (buckets bm))" and "1 < length (buckets bm)"
  shows "length (buckets (MergeWithAdjacentBucket idx bm)) = length (buckets bm) - 1 \<and>
    structure_epoch (MergeWithAdjacentBucket idx bm) = structure_epoch bm + 1"
proof
  show "length (buckets (MergeWithAdjacentBucket idx bm)) = length (buckets bm) - 1"
    using merge_target_neighbour [OF assms] by (simp add: MergeWithAdjacentBucket_buckets [OF assms])
  show "structure_epoch (MergeWithAdjacentBucket idx bm) = structure_epoch bm + 1"
    using assms merge_target_neighbour(1) [OF assms] by (simp add: MergeWithAdjacentBucket_def Let_def)
qed

end
