(* ===== verification/Bucket_Steps.thy ===== *)
theory Bucket_Steps
  imports Bucket_Adjust
begin

text \<open>
  \<open>BucketManager\<close> as a state machine. The primitive transitions are the initialization, the
  completion of a flush, one split and one merge; the two public adjustment methods are sequences
  of them. The index of \<open>bm_run\<close> counts the structural changes (splits and merges).

  The lemmas show that the invariants hold in every reachable state, that the adjustments refine
  the primitive transitions, and that an unchanged epoch means an unchanged partition, which is
  what the fast path of \<open>OnFlushCompleted\<close> relies on.
\<close>

section \<open>Transitions\<close>

text \<open>Structural changes: any sequence of effective splits and merges.\<close>

inductive adj_run :: "nat \<Rightarrow> BucketManager \<Rightarrow> BucketManager \<Rightarrow> bool" where
  adj_refl: "adj_run 0 bm bm"
| adj_split: "adj_run n bm bm' \<Longrightarrow> 0 \<le> idx \<Longrightarrow> nat idx < length (buckets bm') \<Longrightarrow>
    adj_run (Suc n) bm (SplitBucket idx bm')"
| adj_merge: "adj_run n bm bm' \<Longrightarrow> 0 \<le> idx \<Longrightarrow> idx < int (length (buckets bm')) \<Longrightarrow>
    1 < length (buckets bm') \<Longrightarrow> adj_run (Suc n) bm (MergeWithAdjacentBucket idx bm')"

text \<open>A flush is recorded only while the 64-bit flush counter has not reached its maximum.\<close>

inductive bm_run :: "nat \<Rightarrow> BucketManager \<Rightarrow> BucketManager \<Rightarrow> bool" where
  run_refl: "bm_run 0 bm bm"
| run_init: "bm_run n bm bm' \<Longrightarrow> bm_run n bm (InitializeFromFirstFlush sp per bm')"
| run_flush: "bm_run n bm bm' \<Longrightarrow> global_flush_counter bm' \<noteq> -1 \<Longrightarrow>
    bm_run n bm (OnFlushCompleted e results bm')"
| run_adjust: "bm_run n bm bm' \<Longrightarrow> adj_run m bm' bm'' \<Longrightarrow> bm_run (n + m) bm bm''"

definition bm_reachable :: "BucketManager \<Rightarrow> bool" where
  "bm_reachable bm \<longleftrightarrow> (\<exists>target cfd n. bm_run n (BucketManager_new target cfd) bm)"

lemma bm_reachable_new: "bm_reachable (BucketManager_new target cfd)"
  by (auto simp: bm_reachable_def intro: run_refl)

lemma bm_reachable_run:
  assumes "bm_reachable bm"
  shows "bm_reachable (InitializeFromFirstFlush sp per bm)"
    and "global_flush_counter bm \<noteq> -1 \<Longrightarrow> bm_reachable (OnFlushCompleted e results bm)"
    and "adj_run m bm bm' \<Longrightarrow> bm_reachable bm'"
  using assms by (auto simp: bm_reachable_def intro: bm_run.intros)

section \<open>The adjustments are sequences of transitions\<close>

lemma AdjustAfterCompaction_cases:
  obtains "AdjustAfterCompaction idx bm = (False, bm)"
  | "0 \<le> idx" "nat idx < length (buckets bm)" "AdjustAfterCompaction idx bm = (True, SplitBucket idx bm)"
  | "0 \<le> idx" "idx < int (length (buckets bm))" "1 < length (buckets bm)"
    "AdjustAfterCompaction idx bm = (True, MergeWithAdjacentBucket idx bm)"
proof (cases "idx < 0 \<or> idx \<ge> int (length (buckets bm))")
  case True
  then show ?thesis using that(1) by (simp add: AdjustAfterCompaction_def)
next
  case False
  then have "AdjustAfterCompaction idx bm = (False, bm) \<or>
      AdjustAfterCompaction idx bm = (True, SplitBucket idx bm) \<or>
      1 < length (buckets bm) \<and> AdjustAfterCompaction idx bm = (True, MergeWithAdjacentBucket idx bm)"
    by (simp add: AdjustAfterCompaction_def Let_def)
  moreover have "0 \<le> idx" "nat idx < length (buckets bm)" "idx < int (length (buckets bm))"
    using False by linarith+
  ultimately show ?thesis using that by blast
qed

lemma AdjustAfterCompaction_run:
  "\<exists>n \<le> 1. adj_run n bm (snd (AdjustAfterCompaction idx bm)) \<and> (n = 1 \<longleftrightarrow> fst (AdjustAfterCompaction idx bm))"
proof (cases rule: AdjustAfterCompaction_cases [of idx bm])
  case 1
  then show ?thesis by (auto intro: adj_refl)
next
  case 2
  have "adj_run (Suc 0) bm (SplitBucket idx bm)" using 2 by (intro adj_run.intros)
  then show ?thesis using 2 by (intro exI [of _ "Suc 0"]) simp
next
  case 3
  have "adj_run (Suc 0) bm (MergeWithAdjacentBucket idx bm)" using 3 by (intro adj_run.intros)
  then show ?thesis using 3 by (intro exI [of _ "Suc 0"]) simp
qed

lemma adjust_step_run:
  assumes "adj_run n bm0 bm" and "m \<longleftrightarrow> 0 < n" and "adjust_step files bytes i (m, r, bm) = (m', r', bm')"
  shows "\<exists>n' \<le> Suc n. adj_run n' bm0 bm' \<and> (m' \<longleftrightarrow> 0 < n')"
proof -
  let ?x = "adjust_step files bytes i (m, r, bm)"
  have "fst ?x = m \<and> snd (snd ?x) = bm \<or>
    i < length (buckets bm) \<and> fst ?x \<and> snd (snd ?x) = SplitBucket (int i) bm \<or>
    i < length (buckets bm) \<and> 1 < length (buckets bm) \<and> fst ?x \<and>
      snd (snd ?x) = MergeWithAdjacentBucket (int i) bm"
    by (simp add: Let_def)
  then consider "m' = m" "bm' = bm"
    | "m'" "i < length (buckets bm)" "bm' = SplitBucket (int i) bm"
    | "m'" "i < length (buckets bm)" "1 < length (buckets bm)" "bm' = MergeWithAdjacentBucket (int i) bm"
    unfolding assms(3) fst_conv snd_conv by blast
  then show ?thesis
  proof cases
    case 1
    then show ?thesis using assms(1,2) by (intro exI [of _ n]) simp
  next
    case 2
    then have "adj_run (Suc n) bm0 bm'" using assms(1) by (auto intro: adj_split)
    with 2 show ?thesis by blast
  next
    case 3
    then have "adj_run (Suc n) bm0 bm'" using assms(1) by (auto intro: adj_merge)
    with 3 show ?thesis by blast
  qed
qed

lemma adjust_fold_run:
  assumes "adj_run n bm0 bm" and "m \<longleftrightarrow> 0 < n" and "fold (adjust_step files bytes) is (m, r, bm) = (m', r', bm')"
  shows "\<exists>n' \<le> n + length is. adj_run n' bm0 bm' \<and> (m' \<longleftrightarrow> 0 < n')"
  using assms
proof (induction "is" arbitrary: n m r bm)
  case (Cons i "is")
  obtain m1 r1 bm1 where s: "adjust_step files bytes i (m, r, bm) = (m1, r1, bm1)"
    by (cases "adjust_step files bytes i (m, r, bm)")
  from adjust_step_run [OF Cons.prems(1,2) s]
  obtain n1 where n1: "n1 \<le> Suc n" "adj_run n1 bm0 bm1" "m1 \<longleftrightarrow> 0 < n1" by blast
  have "fold (adjust_step files bytes) is (m1, r1, bm1) = (m', r', bm')"
    using Cons.prems(3) s by (simp del: adjust_step.simps)
  from Cons.IH [OF n1(2,3) this]
  obtain n' where "n' \<le> n1 + length is" "adj_run n' bm0 bm'" "m' \<longleftrightarrow> 0 < n'" by blast
  then show ?case using n1(1) by (intro exI [of _ n']) simp
qed auto

lemma AdjustBucketsInRange_run:
  "\<exists>n \<le> length (FindBucketsInRange bm lo hi). adj_run n bm (snd (AdjustBucketsInRange lo hi bm)) \<and>
     (0 < n \<longleftrightarrow> fst (AdjustBucketsInRange lo hi bm))"
proof -
  let ?is = "filter (\<lambda>i. bucket_overlaps lo hi (buckets bm ! i)) [0..<length (buckets bm)]"
  let ?f = "fold (adjust_step (total_window_files bm) (total_window_bytes bm)) (rev ?is)
      (False, ddiv 1 (dnat (length (buckets bm))), bm)"
  obtain m' r' bm' where f: "?f = (m', r', bm')" by (cases ?f)
  have "adj_run 0 bm bm" "False \<longleftrightarrow> 0 < (0 :: nat)" by (auto intro: adj_refl)
  from adjust_fold_run [OF this f]
  obtain n where n: "n \<le> length ?is" "adj_run n bm bm'" "m' \<longleftrightarrow> 0 < n" by auto
  have "AdjustBucketsInRange lo hi bm = (False, bm) \<or> AdjustBucketsInRange lo hi bm = (m', bm')"
    using f by (simp add: AdjustBucketsInRange_def Let_def)
  then show ?thesis
    using n adj_refl [of bm] unfolding FindBucketsInRange_def FindBucketsInRangeInternal_def
    by (elim disjE) (auto intro: exI [of _ n] exI [of _ 0])
qed

section \<open>Invariants of every reachable state\<close>

lemma adj_run_inv:
  assumes "adj_run n bm bm'" and "bm_ok bm"
  shows "bm_ok bm' \<and> total_window_files bm' = total_window_files bm \<and>
    total_window_entries bm' = total_window_entries bm \<and> total_window_bytes bm' = total_window_bytes bm"
  using assms
  by (induction rule: adj_run.induct)
     (auto simp: bm_ok_SplitBucket bm_ok_Merge SplitBucket_totals Merge_totals)

lemma adj_run_frame:
  assumes "adj_run n bm bm'"
  shows "global_flush_counter bm' = global_flush_counter bm \<and> initialized bm' = initialized bm \<and>
    structure_epoch bm' = structure_epoch bm + of_nat n"
  using assms by (induction rule: adj_run.induct) (auto simp: SplitBucket_count Merge_count)

lemma adj_run_0: "adj_run n bm bm' \<Longrightarrow> n = 0 \<Longrightarrow> bm' = bm"
  by (induction rule: adj_run.induct) auto

lemma bm_ok_run: "bm_run n bm bm' \<Longrightarrow> bm_ok bm \<Longrightarrow> bm_ok bm'"
  by (induction rule: bm_run.induct)
     (auto intro: bm_ok_Initialize bm_ok_OnFlushCompleted dest: adj_run_inv)

lemma bm_ok_reachable: "bm_reachable bm \<Longrightarrow> bm_ok bm"
  by (auto simp: bm_reachable_def intro: bm_ok_run bm_ok_new)

lemma covers_all_reachable: "bm_reachable bm \<Longrightarrow> initialized bm \<Longrightarrow> covers_all (bucket_ranges bm)"
  using bm_ok_reachable by (simp add: bm_ok_def)

lemma initialized_run: "bm_run n bm bm' \<Longrightarrow> initialized bm \<Longrightarrow> initialized bm'"
  by (induction rule: bm_run.induct) (auto simp: InitializeFromFirstFlush_def dest: adj_run_frame)

text \<open>Each structural change adds one to the epoch, and only structural changes move ranges.\<close>

lemma run_epoch:
  assumes "bm_run n bm bm'"
  shows "structure_epoch bm' = structure_epoch bm + of_nat n"
  using assms
  by (induction rule: bm_run.induct) (auto simp: InitializeFromFirstFlush_def dest: adj_run_frame)

lemma run_no_change:
  assumes "bm_run n bm bm'" and "n = 0" and "initialized bm"
  shows "bucket_ranges bm' = bucket_ranges bm"
  using assms
proof (induction rule: bm_run.induct)
  case (run_init n bm bm' sp per)
  then show ?case using initialized_run by (simp add: InitializeFromFirstFlush_def)
next
  case (run_adjust n bm bm' m bm'')
  then show ?case using adj_run_0 [of m bm' bm''] by simp
qed (simp_all)

lemma epoch_detects_change:
  assumes "bm_run n bm bm'" and "initialized bm" and "n < 2 ^ 64"
    and "structure_epoch bm' = structure_epoch bm"
  shows "bucket_ranges bm' = bucket_ranges bm"
proof -
  have "of_nat n = (0 :: u64)" using run_epoch [OF assms(1)] assms(4) by simp
  then have "n = 0" using assms(3) by (auto simp: word_of_nat_eq_0_iff dest: nat_dvd_not_less)
  then show ?thesis using run_no_change [OF assms(1)] assms(2) by simp
qed

end
