(* ===== verification/Bucket_Properties.thy ===== *)
theory Bucket_Properties
  imports Bucket_Steps
begin

text \<open>
  The properties of the bucket manager: the invariant of every reachable state, the lookups, the
  optimistic snapshots of the flush, the statistics window and the balance decisions. The small
  manager \<open>example_manager\<close> (two buckets, two recorded flushes) instantiates them.
\<close>

section \<open>An example\<close>

definition example_result :: "u64 \<Rightarrow> key \<Rightarrow> key \<Rightarrow> key \<Rightarrow> BucketFlushResult" where
  "example_result bytes median lo hi =
     \<lparr>r_file_count = 1, r_entry_count = 4, r_data_bytes = bytes, r_median_key = median,
      r_min_key = lo, r_max_key = hi\<rparr>"

definition example_new :: BucketManager where
  "example_new = InitializeFromFirstFlush [[100]] 4 (BucketManager_new 2 (Some True))"

definition example_manager :: BucketManager where
  "example_manager =
     OnFlushCompleted 0 [example_result 900 [50] [] [100], example_result 100 [120] [100] []] example_new"

lemma example_new_fields [simp]:
  "buckets example_new = [new_bucket [] [100], new_bucket [100] []]"
  "initialized example_new" "structure_epoch example_new = 0" "global_flush_counter example_new = 0"
  "cfd_enable_adjustment example_new = Some True"
  by (simp_all add: example_new_def InitializeFromFirstFlush_def BucketManager_new_def
      init_buckets_def upt_conv_Cons)

lemma example_new_reachable [simp]: "bm_reachable example_new"
  unfolding example_new_def by (rule bm_reachable_run(1) [OF bm_reachable_new])

lemma example_reachable [simp]: "bm_reachable example_manager"
  unfolding example_manager_def by (rule bm_reachable_run(2)) simp_all

lemma example_buckets [simp]:
  "buckets example_manager =
     [AddFlushEvent 1 1 4 900 [50] (new_bucket [] [100]), AddFlushEvent 1 1 4 100 [120] (new_bucket [100] [])]"
  by (simp add: example_manager_def OnFlushCompleted_def record_flush_def slide_window_def
      example_result_def add_result_def WINDOW_SIZE_def)

lemma example_fields [simp]:
  "initialized example_manager" "structure_epoch example_manager = 0"
  "global_flush_counter example_manager = 1" "cfd_enable_adjustment example_manager = Some True"
  by (simp_all add: example_manager_def OnFlushCompleted_def Let_def)

section \<open>Partition and lookup\<close>

text \<open>C1. In every reachable state of an initialized bucket manager the ranges of the buckets chain
  from minus infinity to plus infinity with no gap, every bucket's aggregates are the sums over its
  recorded flush events, and every recorded flush id is one of the last ten.\<close>

theorem bucket_manager_invariant:
  assumes "bm_reachable bm" and "initialized bm"
  shows "covers_all (bucket_ranges bm) \<and>
    (\<forall>b \<in> set (buckets bm).
       window_file_count b = omap_sum ev_file_count (flush_events b) \<and>
       window_entry_count b = omap_sum ev_entry_count (flush_events b) \<and>
       window_data_bytes b = omap_sum ev_data_bytes (flush_events b) \<and>
       (\<forall>i \<in> event_ids b. 0 < i \<and> i \<le> global_flush_counter bm \<and>
          unat (global_flush_counter bm) < unat i + 10))"
  using bm_ok_reachable [OF assms(1)] assms(2)
  by (auto simp: bm_ok_def stats_ok_def window_ids_def)

theorem bucket_manager_invariant_witness:
  "covers_all (bucket_ranges example_manager) \<and> window_data_bytes (buckets example_manager ! 0) = 900"
  using bucket_manager_invariant [of example_manager] by (simp add: AddFlushEvent_def)

text \<open>C2. In every reachable state of an initialized bucket manager, \<open>FindBucket\<close> returns the index of
  an existing bucket whose range holds the key: the fallback to the last bucket never applies.\<close>

theorem FindBucket_correct:
  assumes "bm_reachable bm" and "initialized bm"
  shows "0 \<le> FindBucket bm k \<and> FindBucket bm k < int (length (buckets bm)) \<and>
    in_range (bucket_ranges bm ! nat (FindBucket bm k)) k"
  using mgr.find_hit [OF covers_all_reachable [OF assms], of k]
    mgr.find_valid [OF covers_all_reachable [OF assms], of k] unfolding length_map by blast

theorem FindBucket_correct_witness:
  "FindBucket example_manager [120] < 2 \<and>
   in_range (bucket_ranges example_manager ! nat (FindBucket example_manager [120])) [120]"
  using FindBucket_correct [of example_manager "[120]"] by simp

text \<open>C3. Optimistic flush: a snapshot taken from an initialized manager and a manager reached from it
  whose epoch is the snapshot's have the same number of buckets and route every key to the same
  bucket, as long as fewer than \<open>2 ^ 64\<close> structural changes happened in between. This is what makes
  the fast path of \<open>OnFlushCompleted\<close>, which adds result \<open>i\<close> to bucket \<open>i\<close>, right.\<close>

theorem snapshot_epoch_sound:
  assumes "initialized bm" and "bm_run n bm bm'" and "n < 2 ^ 64"
    and "structure_epoch bm' = epoch (GetSnapshot bm)"
  shows "ranges (GetSnapshot bm) = bucket_ranges bm' \<and>
    (\<forall>k. FindBucketInSnapshot (GetSnapshot bm) k = FindBucket bm' k)"
proof -
  have r: "bucket_ranges bm' = bucket_ranges bm"
    using epoch_detects_change [OF assms(2,1,3)] assms(4) unfolding GetSnapshot_fields .
  then have l: "length (buckets bm') = length (buckets bm)" by (rule map_eq_imp_length_eq)
  have "FindBucket bm' k = FindBucket bm k" for k
    unfolding FindBucket_def FindBucketInternal_eq r l ..
  then show ?thesis
    by (simp only: FindBucketInSnapshot_GetSnapshot GetSnapshot_fields r simp_thms)
qed

theorem snapshot_epoch_sound_witness:
  "FindBucketInSnapshot (GetSnapshot example_new) [120] = FindBucket example_manager [120]"
proof -
  have "bm_run 0 example_new example_manager"
    unfolding example_manager_def by (intro run_flush run_refl) simp
  then show ?thesis using snapshot_epoch_sound [of example_new 0 example_manager] by simp
qed

section \<open>Overlap queries\<close>

lemma in_range_less: "in_range (lo, hi) k \<Longrightarrow> hi = [] \<or> lo < hi"
  by (cases "lo = []") (auto dest: order.strict_trans1)

lemma not_le_inf: "\<not> (hi \<noteq> [] \<and> lo \<noteq> [] \<and> hi \<le> lo) \<Longrightarrow> hi = [] \<or> lo < (hi :: key)"
  by (cases "lo = []") auto

lemma overlap_iff:
  assumes "in_range (lo, hi) j" and "in_range (min_key b, max_key b) l"
  shows "bucket_overlaps lo hi b \<longleftrightarrow> (\<exists>k. in_range (lo, hi) k \<and> in_range (min_key b, max_key b) k)"
proof
  assume o: "bucket_overlaps lo hi b"
  then have "max_key b = [] \<or> lo < max_key b" "hi = [] \<or> min_key b < hi"
    unfolding bucket_overlaps_def Let_def by (simp_all only: not_le_inf simp_thms)
  with in_range_less [OF assms(1)] in_range_less [OF assms(2)]
  have "in_range (lo, hi) (max lo (min_key b)) \<and> in_range (min_key b, max_key b) (max lo (min_key b))"
    unfolding in_range.simps max_less_iff_conj by simp blast
  then show "\<exists>k. in_range (lo, hi) k \<and> in_range (min_key b, max_key b) k" by blast
next
  assume "\<exists>k. in_range (lo, hi) k \<and> in_range (min_key b, max_key b) k"
  then obtain k where k: "lo = [] \<or> lo \<le> k" "hi = [] \<or> k < hi"
      "min_key b = [] \<or> min_key b \<le> k" "max_key b = [] \<or> k < max_key b"
    unfolding in_range.simps by blast
  have cycle: False if "k < x" "x \<le> y" "y \<le> k" for x y using that by order
  have "\<not> (max_key b \<noteq> [] \<and> lo \<noteq> [] \<and> max_key b \<le> lo)" using k(1,4) cycle by blast
  moreover have "\<not> (hi \<noteq> [] \<and> min_key b \<noteq> [] \<and> hi \<le> min_key b)" using k(2,3) cycle by blast
  ultimately show "bucket_overlaps lo hi b" unfolding bucket_overlaps_def Let_def by blast
qed

lemma empty_range_iff: "(\<nexists>k. in_range (lo, hi) k) \<longleftrightarrow> lo \<noteq> [] \<and> hi \<noteq> [] \<and> hi \<le> lo"
proof
  assume n: "\<nexists>k. in_range (lo, hi) k"
  then have "\<not> in_range (lo, hi) lo" by blast
  then show "lo \<noteq> [] \<and> hi \<noteq> [] \<and> hi \<le> lo"
    using n by (cases "lo = []") (auto simp: not_less)
qed (auto dest: in_range_less)

text \<open>C34. \<open>FindBucketsInRange\<close> on a non-empty half-open range returns valid indices in ascending order
  and without repetition. A bucket that holds some key is returned exactly when it shares a key with
  the range. A bucket without keys, whose upper bound is not above its lower bound, is returned too,
  exactly when the range starts below its upper bound and ends above its lower bound.\<close>

theorem FindBucketsInRange_exact:
  assumes "\<exists>k. in_range (lo, hi) k"
  shows "sorted (FindBucketsInRange bm lo hi) \<and> distinct (FindBucketsInRange bm lo hi) \<and>
    (\<forall>i. i \<in> set (FindBucketsInRange bm lo hi) \<longleftrightarrow> i < length (buckets bm) \<and>
       (let b = buckets bm ! i in
        if \<exists>k. in_range (bucket_range b) k
        then \<exists>k. in_range (lo, hi) k \<and> in_range (bucket_range b) k
        else (lo = [] \<or> lo < max_key b) \<and> (hi = [] \<or> min_key b < hi)))"
proof -
  have "bucket_overlaps lo hi b \<longleftrightarrow>
      (if \<exists>k. in_range (bucket_range b) k
       then \<exists>k. in_range (lo, hi) k \<and> in_range (bucket_range b) k
       else (lo = [] \<or> lo < max_key b) \<and> (hi = [] \<or> min_key b < hi))" for b
  proof (cases "\<exists>k. in_range (bucket_range b) k")
    case True
    then obtain l where l: "in_range (min_key b, max_key b) l" unfolding bucket_range_def by (rule exE)
    obtain j where "in_range (lo, hi) j" using assms by (rule exE)
    from overlap_iff [OF this l] show ?thesis unfolding bucket_range_def if_P [OF True [unfolded bucket_range_def]] .
  next
    case False
    then have "min_key b \<noteq> [] \<and> max_key b \<noteq> []"
      unfolding bucket_range_def empty_range_iff by blast
    then show ?thesis unfolding if_not_P [OF False] bucket_overlaps_def Let_def by (auto simp: not_le)
  qed
  then have "\<forall>i. i \<in> set (FindBucketsInRange bm lo hi) \<longleftrightarrow> i < length (buckets bm) \<and>
       (let b = buckets bm ! i in
        if \<exists>k. in_range (bucket_range b) k
        then \<exists>k. in_range (lo, hi) k \<and> in_range (bucket_range b) k
        else (lo = [] \<or> lo < max_key b) \<and> (hi = [] \<or> min_key b < hi))"
    unfolding FindBucketsInRange_def FindBucketsInRangeInternal_def Let_def set_filter set_upt by auto
  moreover have "sorted (FindBucketsInRange bm lo hi)" "distinct (FindBucketsInRange bm lo hi)"
    unfolding FindBucketsInRange_def FindBucketsInRangeInternal_def by (auto intro: sorted_wrt_filter)
  ultimately show ?thesis by blast
qed

theorem FindBucketsInRange_exact_witness:
  "0 \<in> set (FindBucketsInRange example_manager [10] [90])"
proof -
  have 1: "in_range ([10], [90]) [10]" "in_range (bucket_range (buckets example_manager ! 0)) [10]" by simp_all
  then have "\<exists>k. in_range ([10], [90]) k" "\<exists>k. in_range (bucket_range (buckets example_manager ! 0)) k"
    "\<exists>k. in_range ([10], [90]) k \<and> in_range (bucket_range (buckets example_manager ! 0)) k" by blast+
  moreover have "0 < length (buckets example_manager)" by simp
  ultimately show ?thesis
    using FindBucketsInRange_exact [of "[10]" "[90]" example_manager, unfolded Let_def] by presburger
qed

section \<open>Splitting and merging\<close>

lemma adjustment_run:
  assumes "(modified, bm') = AdjustAfterCompaction idx bm \<or> (modified, bm') = AdjustBucketsInRange lo hi bm"
    and "length (buckets bm) < 2 ^ 64"
  shows "\<exists>n. adj_run n bm bm' \<and> n < 2 ^ 64 \<and> (modified \<longleftrightarrow> 0 < n)"
  using assms(1)
proof
  assume a: "(modified, bm') = AdjustAfterCompaction idx bm"
  obtain n where "n \<le> 1" "adj_run n bm bm'" "n = 1 \<longleftrightarrow> modified"
    using AdjustAfterCompaction_run [of bm idx] unfolding a [symmetric] fst_conv snd_conv by (elim exE conjE)
  then show ?thesis by (intro exI [of _ n]) (cases n; simp)
next
  assume a: "(modified, bm') = AdjustBucketsInRange lo hi bm"
  obtain n where "n \<le> length (FindBucketsInRange bm lo hi)" "adj_run n bm bm'" "0 < n \<longleftrightarrow> modified"
    using AdjustBucketsInRange_run [of bm lo hi] unfolding a [symmetric] fst_conv snd_conv by (elim exE conjE)
  moreover have "length (FindBucketsInRange bm lo hi) \<le> length (buckets bm)"
    unfolding FindBucketsInRange_def FindBucketsInRangeInternal_def
    by (rule order_trans [OF length_filter_le]) simp
  ultimately show ?thesis using assms(2) by (intro exI [of _ n]) simp
qed

text \<open>C4. The adjustment methods lose no statistics: whatever they split or merge, the totals of
  files, entries and bytes over all buckets stay the same, the invariant is kept, and the epoch
  advances exactly when a change is reported.\<close>

theorem adjustment_conserves:
  assumes "bm_reachable bm" and "length (buckets bm) < 2 ^ 64"
    and "(modified, bm') = AdjustAfterCompaction idx bm \<or> (modified, bm') = AdjustBucketsInRange lo hi bm"
  shows "bm_reachable bm' \<and> total_window_files bm' = total_window_files bm \<and>
    total_window_entries bm' = total_window_entries bm \<and> total_window_bytes bm' = total_window_bytes bm \<and>
    (modified \<longleftrightarrow> structure_epoch bm' \<noteq> structure_epoch bm)"
proof -
  obtain n where n: "adj_run n bm bm'" "n < 2 ^ 64" "modified \<longleftrightarrow> 0 < n"
    using adjustment_run [OF assms(3,2)] by (elim exE conjE)
  have "of_nat n = (0 :: u64) \<longleftrightarrow> n = 0"
    using n(2) by (auto simp: word_of_nat_eq_0_iff dest: nat_dvd_not_less)
  then show ?thesis
    using n adj_run_inv [OF n(1) bm_ok_reachable [OF assms(1)]] adj_run_frame [OF n(1)]
      bm_reachable_run(3) [OF assms(1) n(1)] by simp
qed

theorem adjustment_conserves_witness:
  "total_window_bytes (snd (AdjustAfterCompaction 0 example_manager)) = 1000"
  using adjustment_conserves [of example_manager "fst (AdjustAfterCompaction 0 example_manager)"
      "snd (AdjustAfterCompaction 0 example_manager)" 0]
  by (simp add: total_window_bytes_def stats_simps)

lemma splittable_join:
  assumes "splittable a m" and "splittable m c" and "m \<noteq> []"
  shows "splittable a c"
proof (cases "c = []")
  case False
  then have mc: "m < c" using assms(2,3) by (simp add: splittable_def split: if_splits)
  show ?thesis
  proof (cases "a = []")
    case True
    with assms(1,3) have m: "hd m \<noteq> 0" "m \<noteq> [1]" by (simp_all add: splittable_def)
    obtain x xs y ys where l: "m = x # xs" "c = y # ys" using assms(3) False by (meson neq_Nil_conv)
    have "x \<le> y" using mc l by auto
    then have y: "y \<noteq> 0" using m(1) l by auto
    have "c \<noteq> [1]"
    proof
      assume "c = [1]"
      then have "x \<le> 1" "\<not> x < 1" "xs \<noteq> [] \<longrightarrow> x < 1" using mc l m(1) by (auto simp: word_less_nat_alt unsigned_eq_0_iff)
      then have "m = [1]" using l by auto
      with m(2) show False ..
    qed
    then show ?thesis using True y l by (simp add: splittable_def)
  next
    case a: False
    then have "a < m" using assms(1,3) by (simp add: splittable_def)
    then show ?thesis using splittable_iff_between [OF a False] mc by blast
  qed
qed (simp add: splittable_def)

abbreviation splittable_at :: "BucketManager \<Rightarrow> nat \<Rightarrow> bool" where
  "splittable_at bm i \<equiv> splittable (min_key (buckets bm ! i)) (max_key (buckets bm ! i))"

lemma ranges_ok_boundary:
  assumes "ranges_ok (bucket_ranges bm)" and "Suc i < length (buckets bm)"
  shows "max_key (buckets bm ! i) = min_key (buckets bm ! Suc i)" and "min_key (buckets bm ! Suc i) \<noteq> []"
proof -
  have l: "link [] (bucket_ranges bm) []" and n: "[] \<notin> set (map fst (tl (bucket_ranges bm)))"
    using assms(1) by (simp_all add: ranges_ok_def covers_all_def)
  show "max_key (buckets bm ! i) = min_key (buckets bm ! Suc i)"
    using link_adjacent [OF l, of i] assms(2) by (simp add: bucket_range_def)
  have "map fst (tl (bucket_ranges bm)) ! i = min_key (buckets bm ! Suc i)"
    using assms(2) by (simp add: nth_tl bucket_range_def)
  moreover have "i < length (map fst (tl (bucket_ranges bm)))" using assms(2) by simp
  ultimately show "min_key (buckets bm ! Suc i) \<noteq> []" using n nth_mem by metis
qed

text \<open>A change at index \<open>i\<close> leaves the buckets before \<open>i\<close> as they were, or joins two of them.\<close>

lemma split_keeps_below:
  "i < length (buckets bm) \<Longrightarrow> j < i \<Longrightarrow> buckets (SplitBucket (int i) bm) ! j = buckets bm ! j"
  using SplitBucket_buckets [of "int i" bm] by (simp add: nth_append)

lemma merge_keeps_below:
  assumes "ranges_ok (bucket_ranges bm)" and "i < length (buckets bm)" and "1 < length (buckets bm)"
    and "\<forall>j \<le> i. splittable_at bm j" and "j < i"
  shows "splittable_at (MergeWithAdjacentBucket (int i) bm) j"
proof -
  let ?l = "merge_left (int i) bm"
  have i: "0 \<le> int i" "int i < int (length (buckets bm))" using assms(2) by simp_all
  have l: "Suc ?l < length (buckets bm)" using merge_target_neighbour(2) [OF i assms(3)] .
  have near: "i \<le> Suc ?l" using merge_target_neighbour(3) [OF i assms(3)] by linarith
  have b: "buckets (MergeWithAdjacentBucket (int i) bm) = take ?l (buckets bm) @
      [merge_pair (buckets bm ! ?l) (buckets bm ! Suc ?l)] @ drop (Suc (Suc ?l)) (buckets bm)"
    by (rule MergeWithAdjacentBucket_buckets [OF i assms(3)])
  show ?thesis
  proof (cases "j < ?l")
    case True
    then show ?thesis using assms(4,5) l by (simp add: b nth_append)
  next
    case False
    with near assms(5) have j: "j = ?l" "i = Suc ?l" by simp_all
    note bd = ranges_ok_boundary [OF assms(1) l]
    have "splittable_at bm ?l" "splittable_at bm (Suc ?l)" using assms(4) j by simp_all
    then have "splittable (min_key (buckets bm ! ?l)) (max_key (buckets bm ! Suc ?l))"
      using bd splittable_join by metis
    then show ?thesis using l by (simp add: b j(1) nth_append)
  qed
qed

lemma adjust_step_partition:
  assumes "ranges_ok (bucket_ranges bm)" and "\<forall>j \<le> i. j < length (buckets bm) \<longrightarrow> splittable_at bm j"
    and "adjust_step files bytes i (m, r, bm) = (m', r', bm')"
  shows "ranges_ok (bucket_ranges bm') \<and> (\<forall>j < i. j < length (buckets bm') \<longrightarrow> splittable_at bm' j)"
proof -
  let ?x = "adjust_step files bytes i (m, r, bm)"
  have "snd (snd ?x) = bm \<or> i < length (buckets bm) \<and> snd (snd ?x) = SplitBucket (int i) bm \<or>
    i < length (buckets bm) \<and> 1 < length (buckets bm) \<and> snd (snd ?x) = MergeWithAdjacentBucket (int i) bm"
    by (simp add: Let_def)
  then consider "bm' = bm" | "i < length (buckets bm)" "bm' = SplitBucket (int i) bm"
    | "i < length (buckets bm)" "1 < length (buckets bm)" "bm' = MergeWithAdjacentBucket (int i) bm"
    unfolding assms(3) snd_conv by blast
  then show ?thesis
  proof cases
    case 1
    then show ?thesis using assms(1,2) by simp
  next
    case 2
    then show ?thesis
      using assms(1,2) ranges_ok_SplitBucket [OF assms(1), of "int i"] split_keeps_below [OF 2(1)] by simp
  next
    case 3
    have "\<forall>j \<le> i. splittable_at bm j" using assms(2) 3(1) by simp
    from merge_keeps_below [OF assms(1) 3(1,2) this] ranges_ok_Merge [OF assms(1)]
    show ?thesis unfolding 3(3) by blast
  qed
qed

lemma adjust_fold_partition:
  assumes "ranges_ok (bucket_ranges bm)" and "sorted_wrt (>) is"
    and "\<forall>i \<in> set is. \<forall>j \<le> i. j < length (buckets bm) \<longrightarrow> splittable_at bm j"
    and "fold (adjust_step files bytes) is (m, r, bm) = (m', r', bm')"
  shows "ranges_ok (bucket_ranges bm')"
  using assms
proof (induction "is" arbitrary: m r bm)
  case (Cons i "is")
  obtain m1 r1 bm1 where s: "adjust_step files bytes i (m, r, bm) = (m1, r1, bm1)"
    by (cases "adjust_step files bytes i (m, r, bm)")
  have "\<forall>j \<le> i. j < length (buckets bm) \<longrightarrow> splittable_at bm j" using Cons.prems(3) by simp
  note st = adjust_step_partition [OF Cons.prems(1) this s]
  have "fold (adjust_step files bytes) is (m1, r1, bm1) = (m', r', bm')"
    using Cons.prems(4) s by (simp del: adjust_step.simps)
  moreover have "\<forall>i' \<in> set is. \<forall>j \<le> i'. j < length (buckets bm1) \<longrightarrow> splittable_at bm1 j"
    using st Cons.prems(2) by (meson order.strict_trans1 sorted_wrt.simps(2))
  ultimately show ?case using Cons.IH [of bm1 m1 r1] st Cons.prems(2) by simp
qed simp

lemma AdjustBucketsInRange_partition:
  assumes "ranges_ok (bucket_ranges bm)" and "\<forall>j < length (buckets bm). splittable_at bm j"
  shows "ranges_ok (bucket_ranges (snd (AdjustBucketsInRange lo hi bm)))"
proof -
  let ?is = "filter (\<lambda>i. bucket_overlaps lo hi (buckets bm ! i)) [0..<length (buckets bm)]"
  let ?f = "fold (adjust_step (total_window_files bm) (total_window_bytes bm)) (rev ?is)
      (False, ddiv 1 (dnat (length (buckets bm))), bm)"
  obtain m' r' bm' where f: "?f = (m', r', bm')" by (cases ?f)
  have "sorted_wrt (>) (rev ?is)" unfolding sorted_wrt_rev by (intro sorted_wrt_filter) simp
  then have "ranges_ok (bucket_ranges bm')" using adjust_fold_partition [OF assms(1) _ _ f] assms(2) by blast
  moreover have "AdjustBucketsInRange lo hi bm = (False, bm) \<or> AdjustBucketsInRange lo hi bm = (m', bm')"
    using f by (simp add: AdjustBucketsInRange_def Let_def)
  ultimately show ?thesis using assms(1) by auto
qed

text \<open>C14. While every bucket has room for a split point (\<open>splittable\<close>), both adjustment methods keep the
  buckets a partition: ordered, disjoint and covering the key space. Merging needs no room, and the
  descending order in which \<open>AdjustBucketsInRange\<close> visits the buckets makes the condition on the
  buckets before the call enough for all its splits.\<close>

theorem adjustment_keeps_partition:
  assumes "ranges_ok (bucket_ranges bm)"
    and "\<forall>b \<in> set (buckets bm). splittable (min_key b) (max_key b)"
  shows "ranges_ok (bucket_ranges (snd (AdjustAfterCompaction idx bm))) \<and>
    ranges_ok (bucket_ranges (snd (AdjustBucketsInRange lo hi bm)))"
proof
  show "ranges_ok (bucket_ranges (snd (AdjustAfterCompaction idx bm)))"
  proof (cases rule: AdjustAfterCompaction_cases [of idx bm])
    case 1
    then show ?thesis using assms(1) by simp
  next
    case 2
    then show ?thesis using ranges_ok_SplitBucket [OF assms(1)] assms(2) by simp
  next
    case 3
    then show ?thesis using ranges_ok_Merge [OF assms(1)] by simp
  qed
  show "ranges_ok (bucket_ranges (snd (AdjustBucketsInRange lo hi bm)))"
    using AdjustBucketsInRange_partition [OF assms(1)] assms(2) by simp
qed

theorem adjustment_keeps_partition_witness:
  "ranges_ok (bucket_ranges (snd (AdjustAfterCompaction 0 example_manager))) \<and>
   ranges_ok (bucket_ranges (snd (AdjustBucketsInRange [10] [90] example_manager)))"
  by (rule adjustment_keeps_partition) (simp_all add: ranges_ok_def covers_all_def bucket_range_def splittable_def)

lemma strictly_inside_splittable:
  assumes "\<not> (min_key b = [] \<and> max_key b \<noteq> [])"
  shows "splittable (min_key b) (max_key b) \<longleftrightarrow> (\<exists>k. strictly_inside (min_key b, max_key b) k)"
proof (cases "max_key b = []")
  case True
  then have "splittable (min_key b) (max_key b)" by (simp add: splittable_def)
  then show ?thesis using midpoint_inside by blast
next
  case False
  with assms have "min_key b \<noteq> []" by simp
  moreover have "strictly_inside (min_key b, max_key b) k \<longleftrightarrow> min_key b < k \<and> k < max_key b" for k
    using False by (auto simp: strictly_inside_def)
  ultimately show ?thesis using splittable_iff_between [OF _ False] by simp
qed

text \<open>The point chosen is the median when that lies inside the bucket, and else the midpoint.\<close>

lemma choose_split_point_cases:
  "strictly_inside (min_key b, max_key b) (choose_split_point b) \<longleftrightarrow>
     strictly_inside (min_key b, max_key b) (ComputeSplitPoint b) \<or>
     strictly_inside (min_key b, max_key b) (ComputeMidpointKey (min_key b) (max_key b))"
  by (cases "min_key b = []") (auto simp: choose_split_point_def strictly_inside_def Let_def not_le not_less)

lemma midpoint_not_inside:
  assumes "\<not> splittable lo hi"
  shows "\<not> strictly_inside (lo, hi) (ComputeMidpointKey lo hi)"
proof (cases "lo = []")
  case True
  with assms have hi: "hi \<noteq> []" "hd hi = 0 \<or> hi = [1]" by (auto simp: splittable_def)
  then obtain c cs where "hi = c # cs" by (cases hi) auto
  with True hi show ?thesis by (auto simp: strictly_inside_def ComputeMidpointKey_def)
next
  case False
  with assms have "hi \<noteq> []" by (auto simp: splittable_def)
  with splittable_iff_between [OF False this] assms show ?thesis by (auto simp: strictly_inside_def)
qed

text \<open>C20. When the split point of a bucket lies strictly inside it: always when the recorded median does,
  and otherwise exactly when some key lies strictly inside, except for a bucket that is open below
  and bounded above. There the midpoint looks only at the first byte of the upper bound, so it falls
  outside when that byte is zero or the bound is the single byte one, even if keys lie inside.\<close>

theorem split_point_complete:
  "strictly_inside (min_key b, max_key b) (choose_split_point b) \<longleftrightarrow>
     strictly_inside (min_key b, max_key b) (ComputeSplitPoint b) \<or>
     (if min_key b = [] \<and> max_key b \<noteq> [] then hd (max_key b) \<noteq> 0 \<and> max_key b \<noteq> [1]
      else \<exists>k. strictly_inside (min_key b, max_key b) k)"
proof -
  have "strictly_inside (min_key b, max_key b) (ComputeMidpointKey (min_key b) (max_key b)) \<longleftrightarrow>
      splittable (min_key b) (max_key b)"
    using midpoint_inside midpoint_not_inside by blast
  moreover have "splittable (min_key b) (max_key b) \<longleftrightarrow> hd (max_key b) \<noteq> 0 \<and> max_key b \<noteq> [1]"
    if "min_key b = []" "max_key b \<noteq> []"
    using that by (simp add: splittable_def)
  ultimately show ?thesis
    unfolding choose_split_point_cases using strictly_inside_splittable [of b] by presburger
qed

lemma first_index_le: "P x \<Longrightarrow> \<exists>i \<le> length xs. first_index P (xs @ x # ys) = Some i"
  by (induction xs) auto

lemma choose_split_point_gap:
  assumes "min_key b = a" and "max_key b = a @ [0]" and "a \<noteq> []"
  shows "choose_split_point b = a @ [0x80]"
proof -
  have m: "ComputeMidpointKey (min_key b) (max_key b) = a @ [0x80]" using midpoint_gap assms by simp
  have "s \<le> a \<or> a @ [0] \<le> s" for s using no_key_between [of a s] by (auto simp: not_le not_less)
  then show ?thesis
    using assms(3) unfolding choose_split_point_def Let_def m unfolding assms(1,2) by (auto simp: less_imp_le)
qed

text \<open>C27. A bucket with no room, \<open>[a, a + '\\0')\<close>, whatever flushes it has recorded, is split all the
  same, and past its upper bound: the split point is not checked again after the midpoint is computed.
  Afterwards the key \<open>a + '\\0'\<close> of the right neighbour lies in the range of the left half too, and
  \<open>FindBucket\<close> returns an index that is not the neighbour's.\<close>

theorem split_without_room:
  assumes "buckets bm = pre @ b # c # post" and "min_key b \<noteq> []" and "max_key b = min_key b @ [0]"
    and "min_key c = max_key b" and "max_key c = [] \<or> min_key c < max_key c"
  shows "let a = min_key b; k = a @ [0]; bm' = SplitBucket (int (length pre)) bm in
    bucket_ranges bm' = map bucket_range pre @
      [(a, a @ [0x80]), (a @ [0x80], k), bucket_range c] @ map bucket_range post \<and>
    in_range (a, a @ [0x80]) k \<and> in_range (bucket_range c) k \<and> FindBucket bm' k \<le> int (length pre)"
proof -
  let ?a = "min_key b" and ?bm = "SplitBucket (int (length pre)) bm"
  have cp: "choose_split_point b = ?a @ [0x80]" using assms(2,3) by (intro choose_split_point_gap) simp_all
  have r: "bucket_ranges ?bm = map bucket_range pre @
      [(?a, ?a @ [0x80]), (?a @ [0x80], ?a @ [0]), bucket_range c] @ map bucket_range post"
    using SplitBucket_ranges [of "int (length pre)" bm] assms(3) by (simp add: assms(1) cp)
  have in1: "in_range (?a, ?a @ [0x80]) (?a @ [0])" by (simp add: less_imp_le)
  have "\<exists>j \<le> length (map bucket_range pre).
      first_index (\<lambda>r. in_range r (?a @ [0])) (bucket_ranges ?bm) = Some j"
    unfolding r append_Cons append_Nil by (rule first_index_le [of "\<lambda>r. in_range r (?a @ [0])", OF in1])
  then obtain j where "j \<le> length (map bucket_range pre)"
      "first_index (\<lambda>r. in_range r (?a @ [0])) (bucket_ranges ?bm) = Some j" by (elim exE conjE)
  then have "FindBucket ?bm (?a @ [0]) \<le> int (length pre)"
    unfolding FindBucket_def FindBucketInternal_eq by simp
  then show ?thesis unfolding Let_def using r in1 assms(3,4,5) by simp
qed

theorem split_without_room_witness:
  "FindBucket (SplitBucket 0 (example_new
     \<lparr>buckets := [AddFlushEvent 1 1 4 900 [7] (new_bucket [7] [7, 0]), new_bucket [7, 0] []]\<rparr>)) [7, 0] \<le> 0"
  using split_without_room [of "example_new
      \<lparr>buckets := [AddFlushEvent 1 1 4 900 [7] (new_bucket [7] [7, 0]), new_bucket [7, 0] []]\<rparr>"
      "[]" "AddFlushEvent 1 1 4 900 [7] (new_bucket [7] [7, 0])" "new_bucket [7, 0] []" "[]"] by (simp add: Let_def)

section \<open>The statistics window\<close>

lemma event_ids_add_result [simp]: "event_ids (add_result i b r) = insert i (event_ids b)"
  by (simp add: add_result_def)

lemma RemoveFlushEvent_window:
  "window_data_bytes (RemoveFlushEvent i b) =
    window_data_bytes b - (case map_of (flush_events b) i of None \<Rightarrow> 0 | Some e \<Rightarrow> ev_data_bytes e)"
  by (simp add: RemoveFlushEvent_def split: option.splits)

text \<open>C17. Fast path: when the snapshot's epoch is current, each bucket gains the bytes of its own
  result under the new flush id and, once more than ten flushes have completed, loses the bytes it
  had recorded for the flush that leaves the window; no range changes.\<close>

theorem OnFlushCompleted_fast_path:
  assumes "bm_ok bm" and "initialized bm" and "snapshot_epoch = structure_epoch bm"
    and "length results = length (buckets bm)" and "global_flush_counter bm \<noteq> -1" and "i < length results"
  shows "let bm' = OnFlushCompleted snapshot_epoch results bm; id = global_flush_counter bm + 1;
      b = buckets bm ! i; b' = buckets bm' ! i; old = id - WINDOW_SIZE in
    global_flush_counter bm' = id \<and> id \<in> event_ids b' \<and> bucket_range b' = bucket_range b \<and>
    window_data_bytes b' = window_data_bytes b + r_data_bytes (results ! i) -
      (case map_of (flush_events b) old of
         Some e \<Rightarrow> if WINDOW_SIZE < id then ev_data_bytes e else 0 | None \<Rightarrow> 0)"
proof -
  let ?id = "global_flush_counter bm + 1" and ?b = "buckets bm ! i"
  have ne: "?id - WINDOW_SIZE \<noteq> ?id" by (simp add: WINDOW_SIZE_def)
  have ok: "omap_ok (flush_events ?b)" using assms(1,4,6) by (simp add: bm_ok_def stats_ok_def)
  have nth: "buckets (OnFlushCompleted snapshot_epoch results bm) ! i =
      (if WINDOW_SIZE < ?id then RemoveFlushEvent (?id - WINDOW_SIZE) (add_result ?id ?b (results ! i))
       else add_result ?id ?b (results ! i))"
    using assms by (simp add: OnFlushCompleted_def Let_def record_flush_def slide_window_def)
  have ev: "map_of (flush_events (add_result ?id ?b (results ! i))) (?id - WINDOW_SIZE) =
      map_of (flush_events ?b) (?id - WINDOW_SIZE)"
    using ne ok by (simp add: add_result_def AddFlushEvent_def)
  have "window_data_bytes (add_result ?id ?b (results ! i)) = window_data_bytes ?b + r_data_bytes (results ! i)"
    by (simp add: add_result_def stats_simps)
  then show ?thesis
    unfolding Let_def nth using assms(2) ne ev
    by (simp add: RemoveFlushEvent_window OnFlushCompleted_def Let_def split: option.splits)
qed

theorem OnFlushCompleted_fast_path_witness:
  "window_data_bytes (buckets (OnFlushCompleted 0
     [example_result 7 [50] [] [100], example_result 8 [120] [100] []] example_manager) ! 1) = 108"
  using OnFlushCompleted_fast_path [of example_manager 0
      "[example_result 7 [50] [] [100], example_result 8 [120] [100] []]" 1] bm_ok_reachable [of example_manager]
  by (simp add: Let_def WINDOW_SIZE_def AddFlushEvent_def example_result_def)

section \<open>Results of an outdated snapshot\<close>

lemma sum_list_upd:
  "i < length xs \<Longrightarrow> sum_list (map f (xs[i := v])) = sum_list (map f xs) - f (xs ! i) + (f v :: 'b :: ab_group_add)"
  by (simp add: upd_conv_take_nth_drop sum_list_at [of i xs f])

lemma fold_upd_sum:
  fixes f :: "'a \<Rightarrow> 'b :: ab_group_add"
  assumes "distinct is" and "\<forall>i \<in> set is. i < length xs" and "\<And>i x. f (g i x) = f x + c"
  shows "sum_list (map f (fold (\<lambda>i xs. xs[i := g i (xs ! i)]) is xs)) =
    sum_list (map f xs) + (\<Sum>i \<leftarrow> is. c)"
  using assms(1,2)
proof (induction "is" arbitrary: xs)
  case (Cons i "is")
  have "sum_list (map f (xs[i := g i (xs ! i)])) = sum_list (map f xs) + c"
    using Cons.prems by (simp add: sum_list_upd assms(3))
  then show ?case using Cons by (simp add: add.assoc)
qed simp

definition recorded_share :: "BucketManager \<Rightarrow> BucketFlushResult \<Rightarrow> u64 \<Rightarrow> u64" where
  "recorded_share bm result amount =
     (let n = word_of_nat (length (FindBucketsInRange bm (r_min_key result) (r_max_key result)))
      in n * (amount div n))"

lemma distribute_sum:
  assumes "length accs = length (buckets bm)"
  shows "sum_list (map acc_data_bytes (distribute_result bm r accs)) =
      sum_list (map acc_data_bytes accs) + recorded_share bm r (r_data_bytes r)"
    and "sum_list (map acc_entry_count (distribute_result bm r accs)) =
      sum_list (map acc_entry_count accs) + recorded_share bm r (r_entry_count r)"
    and "sum_list (map acc_file_count (distribute_result bm r accs)) =
      sum_list (map acc_file_count accs) + recorded_share bm r (r_file_count r)"
proof -
  let ?is = "FindBucketsInRangeInternal bm (r_min_key r) (r_max_key r)"
  let ?n = "word_of_nat (length ?is) :: u64"
  let ?g = "\<lambda>i a. a\<lparr>acc_file_count := acc_file_count a + r_file_count r div ?n,
      acc_entry_count := acc_entry_count a + r_entry_count r div ?n,
      acc_data_bytes := acc_data_bytes a + r_data_bytes r div ?n,
      acc_median_keys := acc_median_keys a @ [intersection_median r (buckets bm ! i)]\<rparr>"
  have ix: "distinct ?is" "\<forall>i \<in> set ?is. i < length accs"
    using assms by (auto simp: FindBucketsInRangeInternal_def)
  have d: "distribute_result bm r accs = fold (\<lambda>i xs. xs[i := ?g i (xs ! i)]) ?is accs"
    by (simp add: distribute_result_def Let_def)
  note sum = fold_upd_sum [OF ix, of _ ?g]
  show "sum_list (map acc_data_bytes (distribute_result bm r accs)) =
      sum_list (map acc_data_bytes accs) + recorded_share bm r (r_data_bytes r)"
    "sum_list (map acc_entry_count (distribute_result bm r accs)) =
      sum_list (map acc_entry_count accs) + recorded_share bm r (r_entry_count r)"
    "sum_list (map acc_file_count (distribute_result bm r accs)) =
      sum_list (map acc_file_count accs) + recorded_share bm r (r_file_count r)"
    unfolding d
    by (subst sum; simp add: recorded_share_def FindBucketsInRange_def sum_list_replicate_const Let_def)+
qed

lemma accumulate_sum:
  "sum_list (map acc_data_bytes (accumulate_results bm results)) =
     (\<Sum>r \<leftarrow> results. recorded_share bm r (r_data_bytes r))"
  "sum_list (map acc_entry_count (accumulate_results bm results)) =
     (\<Sum>r \<leftarrow> results. recorded_share bm r (r_entry_count r))"
  "sum_list (map acc_file_count (accumulate_results bm results)) =
     (\<Sum>r \<leftarrow> results. recorded_share bm r (r_file_count r))"
proof -
  have "length accs = length (buckets bm) \<Longrightarrow>
      sum_list (map acc_data_bytes (fold (distribute_result bm) results accs)) =
        sum_list (map acc_data_bytes accs) + (\<Sum>r \<leftarrow> results. recorded_share bm r (r_data_bytes r)) \<and>
      sum_list (map acc_entry_count (fold (distribute_result bm) results accs)) =
        sum_list (map acc_entry_count accs) + (\<Sum>r \<leftarrow> results. recorded_share bm r (r_entry_count r)) \<and>
      sum_list (map acc_file_count (fold (distribute_result bm) results accs)) =
        sum_list (map acc_file_count accs) + (\<Sum>r \<leftarrow> results. recorded_share bm r (r_file_count r))" for accs
    by (induction results arbitrary: accs) (simp_all add: distribute_sum add.assoc)
  then show
    "sum_list (map acc_data_bytes (accumulate_results bm results)) =
       (\<Sum>r \<leftarrow> results. recorded_share bm r (r_data_bytes r))"
    "sum_list (map acc_entry_count (accumulate_results bm results)) =
       (\<Sum>r \<leftarrow> results. recorded_share bm r (r_entry_count r))"
    "sum_list (map acc_file_count (accumulate_results bm results)) =
       (\<Sum>r \<leftarrow> results. recorded_share bm r (r_file_count r))"
    unfolding accumulate_results_def by (simp_all add: sum_list_replicate)
qed

lemma recorded_share_bounds:
  fixes bm r x
  defines "n \<equiv> word_of_nat (length (FindBucketsInRange bm (r_min_key r) (r_max_key r))) :: u64"
  assumes "n \<noteq> 0"
  shows "recorded_share bm r x \<le> x" and "x - recorded_share bm r x < n"
proof -
  have "recorded_share bm r x + x mod n = x"
    using div_mult_mod_eq [of x n] by (simp add: recorded_share_def n_def Let_def mult.commute)
  then have e: "recorded_share bm r x = x - x mod n" by (simp add: eq_diff_eq)
  have "x mod n \<le> x" by (simp add: word_le_nat_alt unat_mod)
  then show "recorded_share bm r x \<le> x" unfolding e by (rule word_sub_le)
  show "x - recorded_share bm r x < n"
    using assms(2) by (simp add: e word_less_nat_alt unat_mod unat_gt_0 word_neq_0_conv [symmetric])
qed

definition expired_bytes :: "BucketManager \<Rightarrow> Bucket \<Rightarrow> u64" where
  "expired_bytes bm b =
     (let id = global_flush_counter bm + 1 in
      if WINDOW_SIZE < id then
        (case map_of (flush_events b) (id - WINDOW_SIZE) of None \<Rightarrow> 0 | Some e \<Rightarrow> ev_data_bytes e)
      else 0)"

lemma add_accumulated_slide:
  assumes "omap_ok (flush_events b)"
  shows "(\<Sum>b \<leftarrow> slide_window (global_flush_counter bm + 1)
            [add_accumulated (global_flush_counter bm + 1) b a]. window_data_bytes b) =
    window_data_bytes b + acc_data_bytes a - expired_bytes bm b"
  using assms
  by (simp add: slide_window_def add_accumulated_def expired_bytes_def RemoveFlushEvent_window Let_def
      stats_simps AddFlushEvent_def WINDOW_SIZE_def split: option.splits)

lemma slide_window_append: "slide_window i (xs @ ys) = slide_window i xs @ slide_window i ys"
  by (simp add: slide_window_def)

lemma slow_path_sum:
  assumes "length accs = length bs" and "\<forall>b \<in> set bs. omap_ok (flush_events b)"
  shows "(\<Sum>b \<leftarrow> slide_window (global_flush_counter bm + 1)
            (map2 (add_accumulated (global_flush_counter bm + 1)) bs accs). window_data_bytes b) =
    (\<Sum>b \<leftarrow> bs. window_data_bytes b) + (\<Sum>a \<leftarrow> accs. acc_data_bytes a) - (\<Sum>b \<leftarrow> bs. expired_bytes bm b)"
  using assms
proof (induction accs bs rule: list_induct2)
  case (Cons a accs b bs)
  have "omap_ok (flush_events b)" using Cons.prems by simp
  note h = add_accumulated_slide [OF this, of bm a]
  let ?id = "global_flush_counter bm + 1"
  let ?S = "\<lambda>bs. \<Sum>b \<leftarrow> slide_window ?id bs. window_data_bytes b"
  have "?S (map2 (add_accumulated ?id) (b # bs) (a # accs)) =
      ?S [add_accumulated ?id b a] + ?S (map2 (add_accumulated ?id) bs accs)"
    using slide_window_append [of ?id "[add_accumulated ?id b a]" "map2 (add_accumulated ?id) bs accs"]
    by simp
  also have "?S (map2 (add_accumulated ?id) bs accs) = (\<Sum>b \<leftarrow> bs. window_data_bytes b) +
      (\<Sum>a \<leftarrow> accs. acc_data_bytes a) - (\<Sum>b \<leftarrow> bs. expired_bytes bm b)"
    using Cons.prems by (intro Cons.IH) simp
  finally show ?case unfolding h by (simp only: list.map sum_list.Cons add_diff_eq diff_add_eq diff_diff_eq ac_simps)
qed (simp add: slide_window_def)

text \<open>What one result adds to bucket \<open>i\<close>: an equal part if the bucket overlaps the result's range.\<close>

definition bucket_share :: "BucketManager \<Rightarrow> nat \<Rightarrow> BucketFlushResult \<Rightarrow> u64 \<Rightarrow> u64" where
  "bucket_share bm i result amount =
     (let is = FindBucketsInRange bm (r_min_key result) (r_max_key result)
      in if i \<in> set is then amount div word_of_nat (length is) else 0)"

lemma fold_upd_nth:
  assumes "distinct is" and "i < length xs"
  shows "fold (\<lambda>i xs. xs[i := g i (xs ! i)]) is xs ! i = (if i \<in> set is then g i (xs ! i) else xs ! i)"
  using assms
proof (induction "is" arbitrary: xs)
  case (Cons j "is")
  then show ?case by (cases "j = i") auto
qed simp

lemma distribute_nth:
  assumes "i < length accs"
  shows "acc_file_count (distribute_result bm r accs ! i) =
      acc_file_count (accs ! i) + bucket_share bm i r (r_file_count r)"
    and "acc_entry_count (distribute_result bm r accs ! i) =
      acc_entry_count (accs ! i) + bucket_share bm i r (r_entry_count r)"
    and "acc_data_bytes (distribute_result bm r accs ! i) =
      acc_data_bytes (accs ! i) + bucket_share bm i r (r_data_bytes r)"
proof -
  let ?is = "FindBucketsInRangeInternal bm (r_min_key r) (r_max_key r)"
  let ?n = "word_of_nat (length ?is) :: u64"
  let ?g = "\<lambda>i a. a\<lparr>acc_file_count := acc_file_count a + r_file_count r div ?n,
      acc_entry_count := acc_entry_count a + r_entry_count r div ?n,
      acc_data_bytes := acc_data_bytes a + r_data_bytes r div ?n,
      acc_median_keys := acc_median_keys a @ [intersection_median r (buckets bm ! i)]\<rparr>"
  have "distinct ?is" by (simp add: FindBucketsInRangeInternal_def)
  note nth = fold_upd_nth [OF this assms, of ?g]
  have d: "distribute_result bm r accs ! i = (if i \<in> set ?is then ?g i (accs ! i) else accs ! i)"
    using nth by (simp add: distribute_result_def Let_def)
  show "acc_file_count (distribute_result bm r accs ! i) =
      acc_file_count (accs ! i) + bucket_share bm i r (r_file_count r)"
    "acc_entry_count (distribute_result bm r accs ! i) =
      acc_entry_count (accs ! i) + bucket_share bm i r (r_entry_count r)"
    "acc_data_bytes (distribute_result bm r accs ! i) =
      acc_data_bytes (accs ! i) + bucket_share bm i r (r_data_bytes r)"
    unfolding d by (simp_all add: bucket_share_def FindBucketsInRange_def Let_def)
qed

lemma accumulate_nth:
  assumes "i < length (buckets bm)"
  shows "acc_file_count (accumulate_results bm results ! i) = (\<Sum>r \<leftarrow> results. bucket_share bm i r (r_file_count r))"
    and "acc_entry_count (accumulate_results bm results ! i) = (\<Sum>r \<leftarrow> results. bucket_share bm i r (r_entry_count r))"
    and "acc_data_bytes (accumulate_results bm results ! i) = (\<Sum>r \<leftarrow> results. bucket_share bm i r (r_data_bytes r))"
proof -
  have "i < length accs \<Longrightarrow>
      acc_file_count (fold (distribute_result bm) results accs ! i) =
        acc_file_count (accs ! i) + (\<Sum>r \<leftarrow> results. bucket_share bm i r (r_file_count r)) \<and>
      acc_entry_count (fold (distribute_result bm) results accs ! i) =
        acc_entry_count (accs ! i) + (\<Sum>r \<leftarrow> results. bucket_share bm i r (r_entry_count r)) \<and>
      acc_data_bytes (fold (distribute_result bm) results accs ! i) =
        acc_data_bytes (accs ! i) + (\<Sum>r \<leftarrow> results. bucket_share bm i r (r_data_bytes r))" for accs
    by (induction results arbitrary: accs) (simp_all add: distribute_nth add.assoc)
  then show
    "acc_file_count (accumulate_results bm results ! i) = (\<Sum>r \<leftarrow> results. bucket_share bm i r (r_file_count r))"
    "acc_entry_count (accumulate_results bm results ! i) = (\<Sum>r \<leftarrow> results. bucket_share bm i r (r_entry_count r))"
    "acc_data_bytes (accumulate_results bm results ! i) = (\<Sum>r \<leftarrow> results. bucket_share bm i r (r_data_bytes r))"
    using assms unfolding accumulate_results_def by simp_all
qed

lemma slow_path_bucket:
  assumes "omap_ok (flush_events b)" and "new_id = global_flush_counter bm + 1"
    and "b' = (if WINDOW_SIZE < new_id then RemoveFlushEvent (new_id - WINDOW_SIZE) (add_accumulated new_id b a)
               else add_accumulated new_id b a)"
  shows "bucket_range b' = bucket_range b \<and>
    window_data_bytes b' = window_data_bytes b + acc_data_bytes a - expired_bytes bm b \<and>
    map_option (\<lambda>e. (ev_file_count e, ev_entry_count e, ev_data_bytes e)) (map_of (flush_events b') new_id) =
      Some (acc_file_count a, acc_entry_count a, acc_data_bytes a)"
proof -
  have ne: "new_id - WINDOW_SIZE \<noteq> new_id" by (simp add: WINDOW_SIZE_def)
  have w: "window_data_bytes b' = window_data_bytes b + acc_data_bytes a - expired_bytes bm b"
    using add_accumulated_slide [OF assms(1), of bm a] assms(3)
    by (simp add: slide_window_def flip: assms(2) split: if_splits)
  have "map_option (\<lambda>e. (ev_file_count e, ev_entry_count e, ev_data_bytes e))
      (map_of (flush_events (add_accumulated new_id b a)) new_id) =
    Some (acc_file_count a, acc_entry_count a, acc_data_bytes a)"
    using assms(1) by (simp add: add_accumulated_def AddFlushEvent_def Let_def)
  moreover have "map_of (flush_events b') new_id = map_of (flush_events (add_accumulated new_id b a)) new_id"
    using ne by (auto simp: assms(3) RemoveFlushEvent_def split: option.splits)
  ultimately show ?thesis using w by (simp add: assms(3))
qed

text \<open>C18. Slow path: when the partition changed since the snapshot, each result is divided evenly among
  the current buckets its range overlaps. Bucket by bucket, the new flush is recorded with the sums of
  these shares of files, entries and bytes; the bytes of the window grow by that sum and shrink by what
  leaves the window. Over all buckets, what is recorded of a result is its bytes rounded down to a
  multiple of the number of overlapped buckets: less than one byte per bucket is lost.\<close>

theorem OnFlushCompleted_slow_path:
  fixes bm snapshot_epoch results
  defines "bm' \<equiv> OnFlushCompleted snapshot_epoch results bm" and "new_id \<equiv> global_flush_counter bm + 1"
  assumes "bm_ok bm" and "initialized bm"
    and "snapshot_epoch \<noteq> structure_epoch bm \<or> length results \<noteq> length (buckets bm)"
  shows "(\<forall>i < length (buckets bm). let b = buckets bm ! i; b' = buckets bm' ! i;
        share = \<lambda>f. \<Sum>r \<leftarrow> results. bucket_share bm i r (f r) in
      bucket_range b' = bucket_range b \<and>
      map_option (\<lambda>e. (ev_file_count e, ev_entry_count e, ev_data_bytes e)) (map_of (flush_events b') new_id) =
        Some (share r_file_count, share r_entry_count, share r_data_bytes) \<and>
      window_data_bytes b' = window_data_bytes b + share r_data_bytes - expired_bytes bm b) \<and>
    total_window_bytes bm' =
      total_window_bytes bm + (\<Sum>r \<leftarrow> results. recorded_share bm r (r_data_bytes r)) -
      (\<Sum>b \<leftarrow> buckets bm. expired_bytes bm b) \<and>
    (\<forall>r. let n = word_of_nat (length (FindBucketsInRange bm (r_min_key r) (r_max_key r))) in
       n \<noteq> 0 \<longrightarrow> recorded_share bm r (r_data_bytes r) \<le> r_data_bytes r \<and>
                 r_data_bytes r - recorded_share bm r (r_data_bytes r) < n)"
proof -
  have ok: "\<forall>b \<in> set (buckets bm). omap_ok (flush_events b)"
    using assms(3) by (simp add: bm_ok_def stats_ok_def)
  have rf: "record_flush snapshot_epoch results i bm =
      map2 (add_accumulated i) (buckets bm) (accumulate_results bm results)" for i
    using assms(5) by (auto simp: record_flush_def)
  have bs: "buckets bm' = slide_window new_id (map2 (add_accumulated new_id) (buckets bm) (accumulate_results bm results))"
    using assms(4) by (simp add: bm'_def new_id_def OnFlushCompleted_def Let_def rf)
  have total: "total_window_bytes bm' =
      total_window_bytes bm + (\<Sum>r \<leftarrow> results. recorded_share bm r (r_data_bytes r)) -
      (\<Sum>b \<leftarrow> buckets bm. expired_bytes bm b)"
    using slow_path_sum [OF length_accumulate [of bm results] ok, of bm]
    by (simp add: total_window_bytes_def accumulate_sum bs new_id_def)
  have each: "let b = buckets bm ! i; b' = buckets bm' ! i;
        share = \<lambda>f. \<Sum>r \<leftarrow> results. bucket_share bm i r (f r) in
      bucket_range b' = bucket_range b \<and>
      map_option (\<lambda>e. (ev_file_count e, ev_entry_count e, ev_data_bytes e)) (map_of (flush_events b') new_id) =
        Some (share r_file_count, share r_entry_count, share r_data_bytes) \<and>
      window_data_bytes b' = window_data_bytes b + share r_data_bytes - expired_bytes bm b"
    if i: "i < length (buckets bm)" for i
  proof -
    have "omap_ok (flush_events (buckets bm ! i))" using ok i by simp
    moreover have "buckets bm' ! i = (let a = accumulate_results bm results ! i in
        if WINDOW_SIZE < new_id then RemoveFlushEvent (new_id - WINDOW_SIZE) (add_accumulated new_id (buckets bm ! i) a)
        else add_accumulated new_id (buckets bm ! i) a)"
      using i by (simp add: bs slide_window_def)
    ultimately show ?thesis
      using slow_path_bucket [of "buckets bm ! i" new_id bm] accumulate_nth [OF i, of results]
      unfolding Let_def new_id_def by (metis (no_types, lifting))
  qed
  show ?thesis using each total recorded_share_bounds unfolding Let_def by blast
qed

theorem OnFlushCompleted_slow_path_witness:
  "total_window_bytes (OnFlushCompleted 9 [example_result 7 [50] [] []] example_manager) = 1006 \<and>
   window_data_bytes (buckets (OnFlushCompleted 9 [example_result 7 [50] [] []] example_manager) ! 1) = 103"
proof -
  note c = OnFlushCompleted_slow_path [of example_manager 9 "[example_result 7 [50] [] []]",
      OF bm_ok_reachable [OF example_reachable]]
  note ev = total_window_bytes_def stats_simps recorded_share_def bucket_share_def example_result_def
    FindBucketsInRange_def FindBucketsInRangeInternal_def bucket_overlaps_def expired_bytes_def WINDOW_SIZE_def
    upt_conv_Cons AddFlushEvent_def
  have "window_data_bytes (buckets (OnFlushCompleted 9 [example_result 7 [50] [] []] example_manager) ! 1) = 103"
    using c [THEN conjunct1, THEN spec [of _ 1]] by (simp add: ev Let_def)
  moreover have "total_window_bytes (OnFlushCompleted 9 [example_result 7 [50] [] []] example_manager) = 1006"
    using c [THEN conjunct2, THEN conjunct1] by (simp add: ev)
  ultimately show ?thesis by simp
qed

section \<open>Balance decisions\<close>

text \<open>C19. The thresholds of \<open>AdjustAfterCompaction\<close>, in exact arithmetic: with \<open>n\<close> buckets a bucket is
  split when its share of the window's bytes is above \<open>1.5 / n\<close> (the comment in the source says twice
  the expected share), merged when it is below \<open>0.5 / n\<close> (the comment says a quarter) and left alone
  in between. Shares within a relative \<open>2 ^ -50\<close> of a threshold are left open: there the rounding of
  the \<open>double\<close> computation decides.\<close>

theorem AdjustAfterCompaction_thresholds:
  fixes idx bm
  defines "share \<equiv> exact_ratio (window_data_bytes (buckets bm ! nat idx)) (total_window_bytes bm)"
    and "n \<equiv> length (buckets bm)"
  assumes "cfd_enable_adjustment bm \<noteq> Some False" and "0 \<le> idx" and "idx < int n" and "n \<le> 2 ^ 53"
    and "total_window_files bm \<noteq> 0" and "total_window_bytes bm \<noteq> 0"
  shows "(share > 3 / 2 / of_nat n * (1 + margin) \<longrightarrow> AdjustAfterCompaction idx bm = (True, SplitBucket idx bm)) \<and>
    (share < 1 / 2 / of_nat n * (1 - margin) \<and> 1 < n \<longrightarrow>
       AdjustAfterCompaction idx bm = (True, MergeWithAdjacentBucket idx bm)) \<and>
    (1 / 2 / of_nat n * (1 + margin) < share \<and> share < 3 / 2 / of_nat n * (1 - margin) \<longrightarrow>
       AdjustAfterCompaction idx bm = (False, bm))"
proof -
  let ?b = "window_data_bytes (buckets bm ! nat idx)" and ?t = "total_window_bytes bm"
  let ?a = "ddiv (dbl ?b) (dbl ?t)" and ?e = "ddiv 1 (dnat n)"
  have n: "0 < n" "n \<le> 2 ^ 53" and t: "0 < ?t" using assms by (auto simp: word_neq_0_conv)
  have above: "c / of_nat n * (1 + margin) < share \<Longrightarrow> dmul c ?e < ?a" if "0 < c" for c
    unfolding share_def by (rule ratio_above [OF n that t])
  have below: "share < c / of_nat n * (1 - margin) \<Longrightarrow> ?a < dmul c ?e" if "0 < c" for c
    unfolding share_def by (rule ratio_below [OF n that t])
  have le: "1 / 2 / of_nat n * (1 - margin) \<le> 3 / 2 / rat_of_nat n * (1 - margin)"
    by (intro mult_right_mono divide_right_mono) simp_all
  have adj: "AdjustAfterCompaction idx bm =
      (if ?a > dmul (3 / 2) ?e then (True, SplitBucket idx bm)
       else if ?a < dmul (1 / 2) ?e \<and> n > 1 then (True, MergeWithAdjacentBucket idx bm) else (False, bm))"
    using assms(3-8) by (simp add: AdjustAfterCompaction_def Let_def n_def)
  show ?thesis
    unfolding adj using above [of "3 / 2"] above [of "1 / 2"] below [of "3 / 2"] below [of "1 / 2"] le
    by (intro conjI impI) (auto simp del: times_divide_eq_right)
qed

theorem AdjustAfterCompaction_thresholds_witness:
  "AdjustAfterCompaction 0 example_manager = (True, SplitBucket 0 example_manager)"
  using AdjustAfterCompaction_thresholds [of example_manager 0]
  by (simp add: total_window_bytes_def total_window_files_def stats_simps exact_ratio_def exact_def)

end
