(* ===== verification/Coding.thy ===== *)
theory Coding
  imports Prelude
begin

text \<open>
  The byte encodings of \<open>util/coding_lean.h\<close>, \<open>util/coding.h\<close> and \<open>util/coding.cc\<close>: little-endian
  fixed-width integers, base-128 varints, zigzag signed integers and length-prefixed slices. A
  decoder that advances its input returns the rest of the input.

  The lemmas are the round trips, the lengths, and the equality of the unrolled 32-bit varint
  encoder with the loop of the 64-bit one.
\<close>

unbundle bit_operations_syntax

type_synonym u32 = "32 word"
type_synonym u16 = "16 word"

section \<open>Fixed-width integers\<close>

definition EncodeFixed16 :: "u16 \<Rightarrow> key" where
  "EncodeFixed16 value = [ucast value, ucast (drop_bit 8 value)]"

definition EncodeFixed32 :: "u32 \<Rightarrow> key" where
  "EncodeFixed32 value =
     [ucast value, ucast (drop_bit 8 value), ucast (drop_bit 16 value), ucast (drop_bit 24 value)]"

definition EncodeFixed64 :: "u64 \<Rightarrow> key" where
  "EncodeFixed64 value =
     [ucast value, ucast (drop_bit 8 value), ucast (drop_bit 16 value), ucast (drop_bit 24 value),
      ucast (drop_bit 32 value), ucast (drop_bit 40 value), ucast (drop_bit 48 value),
      ucast (drop_bit 56 value)]"

definition DecodeFixed16 :: "key \<Rightarrow> u16" where
  "DecodeFixed16 ptr = ucast (ptr ! 0) OR push_bit 8 (ucast (ptr ! 1))"

definition DecodeFixed32 :: "key \<Rightarrow> u32" where
  "DecodeFixed32 ptr =
     ucast (ptr ! 0) OR push_bit 8 (ucast (ptr ! 1)) OR push_bit 16 (ucast (ptr ! 2)) OR
     push_bit 24 (ucast (ptr ! 3))"

definition DecodeFixed64 :: "key \<Rightarrow> u64" where
  "DecodeFixed64 ptr =
     (let lo = ucast (DecodeFixed32 ptr); hi = ucast (DecodeFixed32 (drop 4 ptr))
      in push_bit 32 hi OR lo)"

definition GetFixed64 :: "key \<Rightarrow> (u64 \<times> key) option" where
  "GetFixed64 input = (if length input < 8 then None else Some (DecodeFixed64 input, drop 8 input))"

definition GetFixed32 :: "key \<Rightarrow> (u32 \<times> key) option" where
  "GetFixed32 input = (if length input < 4 then None else Some (DecodeFixed32 input, drop 4 input))"

definition GetFixed16 :: "key \<Rightarrow> (u16 \<times> key) option" where
  "GetFixed16 input = (if length input < 2 then None else Some (DecodeFixed16 input, drop 2 input))"

text \<open>The general little-endian encoding of \<open>n\<close> bytes, to which the three widths reduce.\<close>

fun le_bytes :: "nat \<Rightarrow> 'a :: len word \<Rightarrow> key" where
  "le_bytes 0 v = []"
| "le_bytes (Suc n) v = ucast v # le_bytes n (drop_bit 8 v)"

fun le_value :: "key \<Rightarrow> 'a :: len word" where
  "le_value [] = 0"
| "le_value (b # bs) = ucast b OR push_bit 8 (le_value bs)"

lemma byte_no_high_bit [simp]: "8 \<le> n \<Longrightarrow> \<not> bit (b :: byte) n"
  by (auto dest: bit_imp_le_length)

lemma length_le_bytes [simp]: "length (le_bytes n v) = n"
  by (induction n v rule: le_bytes.induct) auto

lemma le_value_bytes: "le_value (le_bytes n v) = take_bit (8 * n) (v :: 'a :: len word)"
proof (induction n v rule: le_bytes.induct)
  case (2 n v)
  then show ?case
    by (auto intro!: bit_word_eqI simp: bit_simps)
qed simp

lemma le_value_bit: "bit (le_value cs :: 'a :: len word) m \<Longrightarrow> m < 8 * length cs"
proof (induction cs arbitrary: m)
  case (Cons c cs)
  show ?case
  proof (cases "m < 8")
    case False
    with Cons.prems have "bit (le_value cs :: 'a word) (m - 8)" by (simp add: bit_simps)
    from Cons.IH [OF this] False show ?thesis by simp
  qed simp
qed simp

lemma le_bytes_value:
  "8 * length bs \<le> LENGTH('a) \<Longrightarrow> le_bytes (length bs) (le_value bs :: 'a :: len word) = bs"
proof (induction bs)
  case (Cons b bs)
  have "ucast (le_value (b # bs) :: 'a word) = b"
    using Cons.prems by (auto intro!: bit_word_eqI simp: bit_simps)
  moreover have "drop_bit 8 (le_value (b # bs) :: 'a word) = take_bit (LENGTH('a) - 8) (le_value bs)"
    by (auto intro!: bit_word_eqI simp: bit_simps less_diff_conv add.commute)
  moreover have "take_bit (LENGTH('a) - 8) (le_value bs :: 'a word) = le_value bs"
  proof (rule bit_word_eqI)
    fix n assume "n < LENGTH('a)"
    from Cons.prems le_value_bit [of bs n, where ?'a = 'a]
    show "bit (take_bit (LENGTH('a) - 8) (le_value bs :: 'a word)) n = bit (le_value bs :: 'a word) n"
      by (auto simp: bit_simps)
  qed
  ultimately show ?case using Cons by simp
qed simp

lemma EncodeFixed_le:
  "EncodeFixed64 v = le_bytes 8 v" "EncodeFixed32 w = le_bytes 4 w" "EncodeFixed16 x = le_bytes 2 x"
  by (simp_all add: EncodeFixed64_def EncodeFixed32_def EncodeFixed16_def numeral_eq_Suc drop_bit_drop_bit)

lemma ucast_push_byte:
  "k \<le> 24 \<Longrightarrow> ucast (push_bit k (ucast (b :: byte) :: u32)) = (push_bit k (ucast b) :: u64)"
proof (rule bit_word_eqI)
  fix n assume "k \<le> 24" "n < LENGTH(64)"
  then show "bit (ucast (push_bit k (ucast b :: u32)) :: u64) n = bit (push_bit k (ucast b) :: u64) n"
    by (cases "n - k < 8") (auto simp: bit_simps)
qed

lemma ucast_or: "ucast (a OR b) = (ucast a OR ucast b :: 'a :: len word)"
  by (rule bit_word_eqI) (auto simp: bit_simps)

lemma ucast_and: "ucast (a AND b) = (ucast a AND ucast b :: 'a :: len word)"
  by (rule bit_word_eqI) (auto simp: bit_simps)

lemma DecodeFixed32_le: "DecodeFixed32 (b0 # b1 # b2 # b3 # bs) = le_value [b0, b1, b2, b3]"
  by (simp add: DecodeFixed32_def push_bit_or or.assoc)

lemma DecodeFixed64_le:
  "DecodeFixed64 (b0 # b1 # b2 # b3 # b4 # b5 # b6 # b7 # bs) = le_value [b0, b1, b2, b3, b4, b5, b6, b7]"
  using ucast_push_byte [of 0]
  by (simp add: DecodeFixed64_def DecodeFixed32_def Let_def push_bit_or or.assoc ucast_or ucast_push_byte
      or.left_commute or.commute)

lemma list_4: "length xs = 4 \<Longrightarrow> \<exists>a b c d. xs = [a, b, c, d]"
  by (auto simp: numeral_eq_Suc length_Suc_conv)

lemma list_8: "length xs = 8 \<Longrightarrow> \<exists>a b c d e f g h. xs = [a, b, c, d, e, f, g, h]"
  by (auto simp: numeral_eq_Suc length_Suc_conv)

lemma DecodeFixed_append:
  "length bs = 8 \<Longrightarrow> DecodeFixed64 (bs @ rest) = le_value bs"
  "length cs = 4 \<Longrightarrow> DecodeFixed32 (cs @ rest) = le_value cs"
  by (auto dest!: list_8 list_4 simp: DecodeFixed64_le DecodeFixed32_le simp del: le_value.simps)

lemma DecodeFixed_Encode [simp]:
  "DecodeFixed64 (EncodeFixed64 v @ rest) = v" "DecodeFixed32 (EncodeFixed32 w @ rest) = w"
  using take_bit_word_eq_self [of 64 v] take_bit_word_eq_self [of 32 w]
  by (simp_all add: EncodeFixed_le DecodeFixed_append le_value_bytes)

lemma DecodeFixed16_Encode [simp]: "DecodeFixed16 (EncodeFixed16 x @ rest) = x"
proof -
  have "DecodeFixed16 (EncodeFixed16 x @ rest) = le_value (le_bytes 2 x)"
    by (simp add: DecodeFixed16_def EncodeFixed16_def numeral_eq_Suc)
  then show ?thesis using take_bit_word_eq_self [of 16 x] by (simp add: le_value_bytes)
qed

lemma EncodeFixed64_Decode: "length bs = 8 \<Longrightarrow> EncodeFixed64 (DecodeFixed64 (bs @ rest)) = bs"
  using le_bytes_value [of bs, where ?'a = 64] by (simp add: EncodeFixed_le DecodeFixed_append)

lemma length_EncodeFixed [simp]:
  "length (EncodeFixed64 v) = 8" "length (EncodeFixed32 w) = 4" "length (EncodeFixed16 x) = 2"
  by (simp_all add: EncodeFixed_le)

section \<open>Varints\<close>

function EncodeVarint64 :: "u64 \<Rightarrow> key" where
  "EncodeVarint64 v =
     (if v \<ge> 128 then ucast ((v AND 127) OR 128) # EncodeVarint64 (drop_bit 7 v) else [ucast v])"
  by pat_completeness auto

lemma drop_bit_7_less: "128 \<le> (v :: u64) \<Longrightarrow> unat (drop_bit 7 v) < unat v"
  by (simp add: word_le_nat_alt unat_drop_bit_eq drop_bit_eq_div unat_div)

termination EncodeVarint64
  by (relation "measure unat") (auto simp: drop_bit_7_less)

declare EncodeVarint64.simps [simp del]

definition EncodeVarint32 :: "u32 \<Rightarrow> key" where
  "EncodeVarint32 v =
     (if v < push_bit 7 1 then [ucast v]
      else if v < push_bit 14 1 then [ucast (v OR 128), ucast (drop_bit 7 v)]
      else if v < push_bit 21 1 then
        [ucast (v OR 128), ucast (drop_bit 7 v OR 128), ucast (drop_bit 14 v)]
      else if v < push_bit 28 1 then
        [ucast (v OR 128), ucast (drop_bit 7 v OR 128), ucast (drop_bit 14 v OR 128), ucast (drop_bit 21 v)]
      else
        [ucast (v OR 128), ucast (drop_bit 7 v OR 128), ucast (drop_bit 14 v OR 128),
         ucast (drop_bit 21 v OR 128), ucast (drop_bit 28 v)])"

text \<open>
  The decoding loop, shared by the two widths: \<open>max_shift\<close> is the largest shift (28 or 63), \<open>None\<close> the
  null pointer of a truncated or overlong input.
\<close>

fun varint_loop :: "nat \<Rightarrow> nat \<Rightarrow> 'a :: len word \<Rightarrow> key \<Rightarrow> ('a word \<times> key) option" where
  "varint_loop max_shift shift result [] = None"
| "varint_loop max_shift shift result (b # p) =
     (if shift \<le> max_shift then
        if b AND 128 \<noteq> 0 then varint_loop max_shift (shift + 7) (result OR push_bit shift (ucast b AND 127)) p
        else Some (result OR push_bit shift (ucast b), p)
      else None)"

definition GetVarint64Ptr :: "key \<Rightarrow> (u64 \<times> key) option" where
  "GetVarint64Ptr p = varint_loop 63 0 0 p"

definition GetVarint32PtrFallback :: "key \<Rightarrow> (u32 \<times> key) option" where
  "GetVarint32PtrFallback p = varint_loop 28 0 0 p"

definition GetVarint32Ptr :: "key \<Rightarrow> (u32 \<times> key) option" where
  "GetVarint32Ptr p =
     (case p of
        b # q \<Rightarrow> if (ucast b :: u32) AND 128 = 0 then Some (ucast b, q) else GetVarint32PtrFallback p
      | [] \<Rightarrow> GetVarint32PtrFallback p)"

function VarintLength :: "u64 \<Rightarrow> u16" where
  "VarintLength v = (if v \<ge> 128 then VarintLength (drop_bit 7 v) + 1 else 1)"
  by pat_completeness auto

termination VarintLength
  by (relation "measure unat") (auto simp: drop_bit_7_less)

declare VarintLength.simps [simp del]

text \<open>The base-128 digits of a natural number, to which both encoders reduce.\<close>

fun venc :: "nat \<Rightarrow> key" where
  "venc n = (if 128 \<le> n then word_of_nat (n mod 128 + 128) # venc (n div 128) else [word_of_nat n])"

declare venc.simps [simp del]

lemma digit_byte: "(word_of_nat (n mod 128 + 128) :: byte) = (word_of_nat n AND 127) OR 128"
proof -
  have "n mod 128 + 128 = take_bit 7 n OR 128"
  proof -
    have "bit (2 ^ 7 :: nat) k \<longleftrightarrow> k = 7" for k using bit_exp_iff [of 7 k, where ?'a = nat] by auto
    then have "\<not> bit (take_bit 7 n) k \<or> \<not> bit (2 ^ 7 :: nat) k" for k by (auto simp: bit_take_bit_iff)
    then have "take_bit 7 n + 2 ^ 7 = take_bit 7 n OR 2 ^ 7" by (intro disjunctive_add)
    then show ?thesis by (simp add: take_bit_eq_mod)
  qed
  moreover have "(word_of_nat (take_bit 7 n) :: byte) = word_of_nat n AND 127"
    using take_bit_eq_mask [of 7 "word_of_nat n :: byte"] by (simp add: of_nat_take_bit mask_eq_exp_minus_1)
  ultimately show ?thesis by (simp add: of_nat_or_eq)
qed

lemma low_byte_or_128:
  "ucast (v OR 128 :: u32) = (word_of_nat (unat v mod 128 + 128) :: byte)"
  "ucast ((w AND 127) OR 128 :: u64) = (word_of_nat (unat w mod 128 + 128) :: byte)"
proof -
  have and_or: "(x AND 127) OR 128 = x OR 128" for x :: byte
  proof (rule bit_word_eqI)
    fix n assume "n < LENGTH(8)"
    then have "n \<in> {0, 1, 2, 3, 4, 5, 6, 7}" by auto
    then show "bit ((x AND 127) OR 128) n = bit (x OR 128) n" by (auto simp: bit_simps bit_numeral_simps)
  qed
  have "ucast (v OR 128) = (ucast v OR 128 :: byte)" by (simp add: ucast_or)
  then show "ucast (v OR 128) = (word_of_nat (unat v mod 128 + 128) :: byte)"
    unfolding digit_byte by (simp add: and_or)
  have "ucast ((w AND 127) OR 128) = ((ucast w AND 127) OR 128 :: byte)"
    by (simp add: ucast_or ucast_and)
  then show "ucast ((w AND 127) OR 128) = (word_of_nat (unat w mod 128 + 128) :: byte)"
    unfolding digit_byte by simp
qed

lemma unat_drop_bit: "unat (drop_bit k v) = unat v div 2 ^ k"
  by (subst unsigned_drop_bit_eq) (simp add: drop_bit_eq_div [where ?'a = nat] take_bit_nat_eq_self)

lemma EncodeVarint64_venc: "EncodeVarint64 v = venc (unat v)"
proof (induction v rule: EncodeVarint64.induct)
  case (1 v)
  show ?case
  proof (cases "128 \<le> v")
    case True
    then have "128 \<le> unat v" by (simp add: word_le_nat_alt)
    moreover have "unat (drop_bit 7 v) = unat v div 128" by (simp add: unat_drop_bit)
    ultimately show ?thesis
      using 1 [OF True] True low_byte_or_128(2) [of v]
      by (subst EncodeVarint64.simps; subst venc.simps) simp
  next
    case False
    then have "\<not> 128 \<le> unat v" by (simp add: word_le_nat_alt)
    with False show ?thesis by (subst EncodeVarint64.simps; subst venc.simps) simp
  qed
qed

lemma EncodeVarint32_venc: "EncodeVarint32 v = venc (unat v)"
proof -
  have d: "unat (drop_bit k v) = unat v div 2 ^ k" for k by (rule unat_drop_bit)
  have b: "ucast (drop_bit k v OR 128) = (word_of_nat (unat v div 2 ^ k mod 128 + 128) :: byte)" for k
    using low_byte_or_128(1) [of "drop_bit k v"] by (simp add: d)
  have u: "ucast (drop_bit k v) = (word_of_nat (unat v div 2 ^ k) :: byte)" for k
    by (simp add: d [symmetric])
  have "unat v < 2 ^ 32" using unsigned_less [of v] by simp
  then show ?thesis
    using b [of 0] b [of 7] b [of 14] b [of 21] u [of 0] u [of 7] u [of 14] u [of 21] u [of 28]
    by (simp add: EncodeVarint32_def venc.simps [of "unat v"] venc.simps [of "unat v div _"] word_less_nat_alt
        div_mult2_eq [symmetric] less_eq_div_iff_mult_less_eq not_le)
qed

text \<open>Decoding: every digit but the last has the continuation bit.\<close>

lemma bit_128: "bit (128 :: int) k \<longleftrightarrow> k = 7"
  using bit_exp_iff [of 7 k, where ?'a = int] by auto

lemma continuation_bit:
  "(word_of_nat (n mod 128 + 128) :: byte) AND 128 \<noteq> 0" "n < 128 \<Longrightarrow> (word_of_nat n :: byte) AND 128 = 0"
proof -
  have "bit ((word_of_nat (n mod 128 + 128) :: byte) AND 128) 7"
    unfolding digit_byte by (simp add: bit_simps bit_numeral_simps)
  then show "(word_of_nat (n mod 128 + 128) :: byte) AND 128 \<noteq> 0" by auto
  show "(word_of_nat n :: byte) AND 128 = 0" if "n < 128"
  proof (rule bit_word_eqI)
    fix k assume "k < LENGTH(8)"
    moreover have "\<not> bit n 7" using that by (simp add: bit_iff_odd)
    ultimately show "bit ((word_of_nat n :: byte) AND 128) k = bit (0 :: byte) k"
      by (auto simp: bit_simps bit_128)
  qed
qed

lemma digit_value:
  assumes "8 \<le> LENGTH('a)"
  shows "(ucast (word_of_nat (n mod 128 + 128) :: byte) AND 127 :: 'a :: len word) = word_of_nat (n mod 128)"
    and "n < 128 \<Longrightarrow> (ucast (word_of_nat n :: byte) :: 'a word) = word_of_nat n"
proof -
  have m: "(127 :: 'b :: len word) = mask 7" by (simp add: mask_eq_exp_minus_1)
  have "(ucast (word_of_nat (n mod 128 + 128) :: byte) AND 127 :: 'a word) = word_of_nat (take_bit 7 n)"
    unfolding digit_byte m by (intro bit_word_eqI) (auto simp: bit_simps bit_128)
  then show "(ucast (word_of_nat (n mod 128 + 128) :: byte) AND 127 :: 'a word) = word_of_nat (n mod 128)"
    by (simp add: take_bit_eq_mod)
  have "(ucast (word_of_nat n :: byte) :: 'a word) = word_of_nat (take_bit 8 n)"
    using assms by (intro bit_word_eqI) (auto simp: bit_simps)
  then show "(ucast (word_of_nat n :: byte) :: 'a word) = word_of_nat n" if "n < 128"
    using that by (simp add: take_bit_eq_mod)
qed

lemma push_digits:
  "push_bit s (word_of_nat (n mod 128)) OR push_bit (s + 7) (word_of_nat (n div 128)) =
    (push_bit s (word_of_nat n) :: 'a :: len word)"
proof -
  have "push_bit s (word_of_nat (take_bit 7 n)) OR push_bit (s + 7) (word_of_nat (drop_bit 7 n)) =
    (push_bit s (word_of_nat n) :: 'a word)"
  proof (rule bit_word_eqI)
    fix k assume k: "k < LENGTH('a)"
    show "bit (push_bit s (word_of_nat (take_bit 7 n)) OR push_bit (s + 7) (word_of_nat (drop_bit 7 n)) :: 'a word) k =
        bit (push_bit s (word_of_nat n) :: 'a word) k"
    proof (cases "s + 7 \<le> k")
      case True
      then have "7 + (k - (s + 7)) = k - s" "\<not> k - s < 7" "k - (s + 7) < LENGTH('a)" "k - s < LENGTH('a)"
        using k by simp_all
      with True k show ?thesis by (simp add: bit_simps)
    next
      case False
      then show ?thesis by (auto simp: bit_simps)
    qed
  qed
  then show ?thesis by (simp add: take_bit_eq_mod drop_bit_eq_div)
qed

lemma varint_loop_venc:
  fixes r :: "'a :: len word"
  assumes "8 \<le> LENGTH('a)" and "7 dvd shift" and "shift \<le> max_shift" and "n < 2 ^ (LENGTH('a) - shift)"
    and "\<And>s. 7 dvd s \<Longrightarrow> s + 7 < LENGTH('a) \<Longrightarrow> s + 7 \<le> max_shift"
  shows "varint_loop max_shift shift r (venc n @ rest) = Some (r OR push_bit shift (word_of_nat n), rest)"
  using assms(2-4)
proof (induction n arbitrary: shift r rule: venc.induct)
  case (1 n)
  show ?case
  proof (cases "128 \<le> n")
    case True
    have "shift + 7 < LENGTH('a)"
    proof (rule ccontr)
      assume "\<not> shift + 7 < LENGTH('a)"
      then have "(2 :: nat) ^ (LENGTH('a) - shift) \<le> 2 ^ 7" by (intro power_increasing) auto
      with 1(4) True show False by simp
    qed
    then have s: "7 dvd shift + 7" "shift + 7 \<le> max_shift" using 1(2) assms(5) by auto
    define m where "m = LENGTH('a) - (shift + 7)"
    have "LENGTH('a) - shift = m + 7" using \<open>shift + 7 < _\<close> by (simp add: m_def)
    then have "n < 2 ^ m * 2 ^ 7" using 1(4) by (simp add: power_add)
    then have "n div 128 < 2 ^ m" by (simp add: div_less_iff_less_mult)
    note ih = 1(1) [OF True s this [unfolded m_def]]
    have "push_bit shift (word_of_nat (n mod 128)) OR push_bit (shift + 7) (word_of_nat (n div 128)) =
      (push_bit shift (word_of_nat n) :: 'a word)"
      by (rule push_digits)
    note digits = this
    have "venc n = word_of_nat (n mod 128 + 128) # venc (n div 128)"
      using True by (subst venc.simps) simp
    then have "varint_loop max_shift shift r (venc n @ rest) =
        varint_loop max_shift (shift + 7) (r OR push_bit shift (word_of_nat (n mod 128))) (venc (n div 128) @ rest)"
      using 1(3) continuation_bit(1) [of n] digit_value(1) [OF assms(1), of n] by (simp only: append_Cons varint_loop.simps if_True simp_thms)
    then show ?thesis unfolding ih or.assoc digits .
  next
    case False
    then have "venc n = [word_of_nat n]" by (subst venc.simps) simp
    then show ?thesis
      using 1(3) False continuation_bit(2) [of n] digit_value(2) [OF assms(1), of n] by simp
  qed
qed

lemma GetVarint64Ptr_Encode: "GetVarint64Ptr (EncodeVarint64 v @ rest) = Some (v, rest)"
proof -
  have "varint_loop 63 0 (0 :: u64) (venc (unat v) @ rest) = Some (0 OR push_bit 0 (word_of_nat (unat v)), rest)"
    using unsigned_less [of v, where ?'a = nat] by (intro varint_loop_venc) auto
  then show ?thesis by (simp add: GetVarint64Ptr_def EncodeVarint64_venc)
qed

lemma GetVarint32PtrFallback_Encode: "GetVarint32PtrFallback (EncodeVarint32 v @ rest) = Some (v, rest)"
proof -
  have "varint_loop 28 0 (0 :: u32) (venc (unat v) @ rest) = Some (0 OR push_bit 0 (word_of_nat (unat v)), rest)"
  proof (intro varint_loop_venc)
    fix s :: nat assume "7 dvd s" "s + 7 < LENGTH(32)"
    then show "s + 7 \<le> 28" by (auto elim!: dvdE)
  qed (use unsigned_less [of v, where ?'a = nat] in auto)
  then show ?thesis by (simp add: GetVarint32PtrFallback_def EncodeVarint32_venc)
qed

lemma ucast_byte_0: "(ucast (x :: byte) :: u32) = 0 \<longleftrightarrow> x = 0"
proof
  assume "(ucast x :: u32) = 0"
  then have "\<not> bit (ucast x :: u32) n" for n by simp
  then have "\<not> bit x n" if "n < 8" for n using that by (simp add: bit_simps)
  then show "x = 0" by (intro bit_word_eqI) auto
qed simp

text \<open>The one-byte shortcut of \<open>GetVarint32Ptr\<close> returns what the loop would.\<close>

lemma GetVarint32Ptr_eq: "GetVarint32Ptr p = GetVarint32PtrFallback p"
proof (cases p)
  case (Cons b q)
  have "((ucast b :: u32) AND 128 = 0) = (b AND 128 = 0)"
  proof -
    have "(ucast b :: u32) AND 128 = ucast (b AND 128)" by (simp add: ucast_and)
    moreover have "(ucast (b AND 128) :: u32) = 0 \<longleftrightarrow> b AND 128 = 0"
      by (rule ucast_byte_0)
    ultimately show ?thesis by simp
  qed
  then show ?thesis
    using Cons by (simp add: GetVarint32Ptr_def GetVarint32PtrFallback_def)
qed (simp add: GetVarint32Ptr_def)

lemma GetVarint32Ptr_Encode [simp]: "GetVarint32Ptr (EncodeVarint32 v @ rest) = Some (v, rest)"
  by (simp add: GetVarint32Ptr_eq GetVarint32PtrFallback_Encode)

lemma length_venc: "n < 128 ^ Suc k \<Longrightarrow> length (venc n) \<le> Suc k"
proof (induction n arbitrary: k rule: venc.induct)
  case (1 n)
  show ?case
  proof (cases "128 \<le> n")
    case True
    with 1(2) obtain k' where k': "k = Suc k'" by (cases k) auto
    with 1(2) have "n div 128 < 128 ^ Suc k'" by (simp add: div_less_iff_less_mult mult.commute)
    from 1(1) [OF True this] True k' show ?thesis by (subst venc.simps) simp
  qed (subst venc.simps, simp)
qed

lemma length_EncodeVarint:
  "length (EncodeVarint64 v) \<le> 10" "length (EncodeVarint32 w) \<le> 5"
  using length_venc [of "unat v" 9] length_venc [of "unat w" 4] unsigned_less [of v, where ?'a = nat]
    unsigned_less [of w, where ?'a = nat]
  by (simp_all add: EncodeVarint64_venc EncodeVarint32_venc)

lemma EncodeVarint_nonempty [simp]: "EncodeVarint64 v \<noteq> []" "EncodeVarint32 w \<noteq> []"
  by (simp_all add: EncodeVarint64_venc EncodeVarint32_venc venc.simps [of "unat _"])

lemma VarintLength_eq: "VarintLength v = word_of_nat (length (EncodeVarint64 v))"
proof (induction v rule: VarintLength.induct)
  case (1 v)
  then show ?case by (subst VarintLength.simps; subst EncodeVarint64.simps) (simp add: add.commute)
qed

section \<open>Zigzag\<close>

definition i64ToZigzag :: "u64 \<Rightarrow> u64" where
  "i64ToZigzag l = push_bit 1 l XOR signed_drop_bit 63 l"

definition zigzagToI64 :: "u64 \<Rightarrow> u64" where
  "zigzagToI64 n = drop_bit 1 n XOR - (n AND 1)"

lemma sign_fill: "signed_drop_bit 63 (l :: u64) = (if bit l 63 then -1 else 0)"
  by (rule bit_word_eqI) (auto simp: bit_simps min_def Suc_le_eq)

lemma neg_low_bit: "- (n AND 1) = (if bit n 0 then -1 else (0 :: u64))"
  by (simp add: and_one_eq mod_2_eq_odd bit_0)

lemma u64_no_high_bit [simp]: "64 \<le> n \<Longrightarrow> \<not> bit (v :: u64) n"
  by (auto dest: bit_imp_le_length)

lemma zigzagToI64_ToZigzag: "zigzagToI64 (i64ToZigzag l) = l"
proof -
  have b0: "bit (i64ToZigzag l) 0 = bit l 63"
    unfolding i64ToZigzag_def sign_fill bit_xor_iff bit_push_bit_iff by simp
  have bs: "bit (i64ToZigzag l) (Suc k) = (bit l k \<noteq> bit l 63)" if "k < 63" for k
    using that unfolding i64ToZigzag_def sign_fill bit_xor_iff bit_push_bit_iff by simp
  show ?thesis
  proof (rule bit_word_eqI)
    fix k assume k: "k < LENGTH(64)"
    show "bit (zigzagToI64 (i64ToZigzag l)) k = bit l k"
      unfolding zigzagToI64_def neg_low_bit b0 bit_xor_iff bit_drop_bit_eq comp_def
    proof (cases "k < 63")
      case False
      with k have "k = 63" by simp
      then show "(bit (i64ToZigzag l) (1 + k)) \<noteq> bit (if bit l 63 then - 1 else 0 :: u64) k \<longleftrightarrow> bit l k" by simp
    qed (use bs [of k] in auto)
  qed
qed

lemma i64ToZigzag_ToI64: "i64ToZigzag (zigzagToI64 n) = n"
proof -
  have b63: "bit (zigzagToI64 n) 63 = bit n 0"
    unfolding zigzagToI64_def neg_low_bit bit_xor_iff bit_drop_bit_eq comp_def by simp
  have bs: "bit (zigzagToI64 n) k = (bit n (Suc k) \<noteq> bit n 0)" if "k < 63" for k
    using that unfolding zigzagToI64_def neg_low_bit bit_xor_iff bit_drop_bit_eq comp_def by simp
  show ?thesis
  proof (rule bit_word_eqI)
    fix k assume k: "k < LENGTH(64)"
    show "bit (i64ToZigzag (zigzagToI64 n)) k = bit n k"
      unfolding i64ToZigzag_def sign_fill b63 bit_xor_iff bit_push_bit_iff
      using k bs [of "k - 1"] by (cases k) auto
  qed
qed

section \<open>Slices\<close>

definition PutFixed64 :: "key \<Rightarrow> u64 \<Rightarrow> key" where
  "PutFixed64 dst value = dst @ EncodeFixed64 value"

definition PutFixed32 :: "key \<Rightarrow> u32 \<Rightarrow> key" where
  "PutFixed32 dst value = dst @ EncodeFixed32 value"

definition PutVarint32 :: "key \<Rightarrow> u32 \<Rightarrow> key" where
  "PutVarint32 dst v = dst @ EncodeVarint32 v"

definition PutVarint64 :: "key \<Rightarrow> u64 \<Rightarrow> key" where
  "PutVarint64 dst v = dst @ EncodeVarint64 v"

definition PutVarsignedint64 :: "key \<Rightarrow> u64 \<Rightarrow> key" where
  "PutVarsignedint64 dst v = dst @ EncodeVarint64 (i64ToZigzag v)"

definition PutVarint32Varint32 :: "key \<Rightarrow> u32 \<Rightarrow> u32 \<Rightarrow> key" where
  "PutVarint32Varint32 dst v1 v2 = dst @ EncodeVarint32 v1 @ EncodeVarint32 v2"

definition PutVarint32Varint32Varint32 :: "key \<Rightarrow> u32 \<Rightarrow> u32 \<Rightarrow> u32 \<Rightarrow> key" where
  "PutVarint32Varint32Varint32 dst v1 v2 v3 = dst @ EncodeVarint32 v1 @ EncodeVarint32 v2 @ EncodeVarint32 v3"

definition PutVarint64Varint64 :: "key \<Rightarrow> u64 \<Rightarrow> u64 \<Rightarrow> key" where
  "PutVarint64Varint64 dst v1 v2 = dst @ EncodeVarint64 v1 @ EncodeVarint64 v2"

definition PutVarint32Varint64 :: "key \<Rightarrow> u32 \<Rightarrow> u64 \<Rightarrow> key" where
  "PutVarint32Varint64 dst v1 v2 = dst @ EncodeVarint32 v1 @ EncodeVarint64 v2"

definition PutVarint32Varint32Varint64 :: "key \<Rightarrow> u32 \<Rightarrow> u32 \<Rightarrow> u64 \<Rightarrow> key" where
  "PutVarint32Varint32Varint64 dst v1 v2 v3 = dst @ EncodeVarint32 v1 @ EncodeVarint32 v2 @ EncodeVarint64 v3"

text \<open>\<open>static_cast<uint32_t>(value.size())\<close> truncates the length.\<close>

definition PutLengthPrefixedSlice :: "key \<Rightarrow> key \<Rightarrow> key" where
  "PutLengthPrefixedSlice dst value = PutVarint32 dst (word_of_nat (length value)) @ value"

definition PutLengthPrefixedSliceParts :: "key \<Rightarrow> nat \<Rightarrow> key list \<Rightarrow> key" where
  "PutLengthPrefixedSliceParts dst total_bytes parts =
     PutVarint32 dst (word_of_nat (total_bytes + sum_list (map length parts))) @ concat parts"

definition PutLengthPrefixedSlicePartsWithPadding :: "key \<Rightarrow> key list \<Rightarrow> nat \<Rightarrow> key" where
  "PutLengthPrefixedSlicePartsWithPadding dst parts pad_sz =
     PutLengthPrefixedSliceParts dst pad_sz parts @ replicate pad_sz 0"

definition GetVarint32 :: "key \<Rightarrow> (u32 \<times> key) option" where
  "GetVarint32 input = GetVarint32Ptr input"

definition GetVarint64 :: "key \<Rightarrow> (u64 \<times> key) option" where
  "GetVarint64 input = GetVarint64Ptr input"

definition GetVarsignedint64 :: "key \<Rightarrow> (u64 \<times> key) option" where
  "GetVarsignedint64 input = map_option (\<lambda>(u, rest). (zigzagToI64 u, rest)) (GetVarint64Ptr input)"

text \<open>
  The result is the new value of \<open>input\<close> and the slice, if any: when the length is read but the
  data is too short, the input has already been advanced past the length.
\<close>

definition GetLengthPrefixedSlice :: "key \<Rightarrow> key \<times> key option" where
  "GetLengthPrefixedSlice input =
     (case GetVarint32 input of
        None \<Rightarrow> (input, None)
      | Some (len, rest) \<Rightarrow>
          if unat len \<le> length rest then (drop (unat len) rest, Some (take (unat len) rest))
          else (rest, None))"

definition GetSliceUntil :: "key \<Rightarrow> byte \<Rightarrow> key \<times> key" where
  "GetSliceUntil input delimiter =
     (let len = length (takeWhile (\<lambda>c. c \<noteq> delimiter) input)
      in (take len input, drop (len + (if len < length input then 1 else 0)) input))"

lemma GetLengthPrefixedSlice_Put:
  "length value < 2 ^ 32 \<Longrightarrow>
    GetLengthPrefixedSlice (drop (length dst) (PutLengthPrefixedSlice dst value) @ rest) = (rest, Some value)"
  by (simp add: GetLengthPrefixedSlice_def PutLengthPrefixedSlice_def PutVarint32_def GetVarint32_def
      unat_of_nat take_bit_nat_eq_self)

section \<open>Properties\<close>

text \<open>C40. Varints round-trip: decoding an encoded value at the front of any input gives the value and
  the rest of the input, for both widths, and the encodings take at most ten and five bytes.\<close>

theorem varint_roundtrip:
  "GetVarint64 (PutVarint64 [] v @ rest) = Some (v, rest) \<and> GetVarint32 (PutVarint32 [] w @ rest) = Some (w, rest) \<and>
   GetVarsignedint64 (PutVarsignedint64 [] v @ rest) = Some (v, rest) \<and>
   length (EncodeVarint64 v) \<le> 10 \<and> length (EncodeVarint32 w) \<le> 5 \<and>
   VarintLength v = word_of_nat (length (EncodeVarint64 v))"
  by (simp add: GetVarint64_def PutVarint64_def GetVarint64Ptr_Encode GetVarint32_def PutVarint32_def
      GetVarsignedint64_def PutVarsignedint64_def zigzagToI64_ToZigzag length_EncodeVarint VarintLength_eq)

text \<open>The unrolled 32-bit encoder writes the same bytes as the loop of the 64-bit encoder.\<close>

lemma EncodeVarint32_eq_64: "EncodeVarint32 v = EncodeVarint64 (ucast v)"
  using unsigned_less [of v, where ?'a = nat]
  by (simp add: EncodeVarint32_venc EncodeVarint64_venc unsigned_ucast_eq take_bit_nat_eq_self)

text \<open>A length-prefixed slice shorter than \<open>2 ^ 32\<close> bytes round-trips; a truncated one is
  rejected: no result is produced when the announced length exceeds the data.\<close>

lemma length_prefixed_slice_roundtrip:
  assumes "length value < 2 ^ 32"
  shows "GetLengthPrefixedSlice (PutLengthPrefixedSlice [] value @ rest) = (rest, Some value) \<and>
    (\<forall>n < length value. snd (GetLengthPrefixedSlice (PutVarint32 [] (word_of_nat (length value)) @ take n value)) = None)"
proof -
  have "unat (word_of_nat (length value) :: u32) = length value"
    using assms by (simp add: unat_of_nat take_bit_nat_eq_self)
  then have "\<forall>n < length value. snd (GetLengthPrefixedSlice
      (PutVarint32 [] (word_of_nat (length value)) @ take n value)) = None"
    by (simp add: GetLengthPrefixedSlice_def PutVarint32_def GetVarint32_def)
  then show ?thesis using GetLengthPrefixedSlice_Put [OF assms, of "[]" rest] by simp
qed

end
