(* ===== verification/Comparators.thy ===== *)
theory Comparators
  imports Coding
begin

text \<open>
  Key comparators: \<open>Slice::compare\<close> (\<open>include/rocksdb/slice.h\<close>) and the built-in comparators of
  \<open>util/comparator.cc\<close> with their key-shortening methods. The locale \<open>comparator\<close> is the contract
  of a user comparator on the keys it accepts (a total preorder given by the sign of an integer);
  the built-in comparators are its interpretations.
\<close>

section \<open>The contract of a comparator\<close>

locale comparator =
  fixes cmp :: "key \<Rightarrow> key \<Rightarrow> int" and ok :: "key \<Rightarrow> bool"
  assumes cmp_refl: "ok a \<Longrightarrow> cmp a a = 0"
    and cmp_swap: "ok a \<Longrightarrow> ok b \<Longrightarrow> cmp a b < 0 \<longleftrightarrow> cmp b a > 0"
    and cmp_trans: "ok a \<Longrightarrow> ok b \<Longrightarrow> ok c \<Longrightarrow> cmp a b \<le> 0 \<Longrightarrow> cmp b c \<le> 0 \<Longrightarrow> cmp a c \<le> 0"
begin

lemma cmp_zero_sym: "ok a \<Longrightarrow> ok b \<Longrightarrow> cmp a b = 0 \<longleftrightarrow> cmp b a = 0"
  using cmp_swap [of a b] cmp_swap [of b a] by linarith

lemma cmp_le_swap: "ok a \<Longrightarrow> ok b \<Longrightarrow> cmp a b \<le> 0 \<longleftrightarrow> cmp b a \<ge> 0"
  using cmp_swap [of a b] cmp_swap [of b a] by linarith

lemma cmp_total: "ok a \<Longrightarrow> ok b \<Longrightarrow> cmp a b \<le> 0 \<or> cmp b a \<le> 0"
  using cmp_le_swap [of a b] by linarith

lemma cmp_less_le_trans: "ok a \<Longrightarrow> ok b \<Longrightarrow> ok c \<Longrightarrow> cmp a b < 0 \<Longrightarrow> cmp b c \<le> 0 \<Longrightarrow> cmp a c < 0"
  using cmp_trans [of b c a] cmp_le_swap [of c a] cmp_swap [of a b] by linarith

lemma cmp_le_less_trans: "ok a \<Longrightarrow> ok b \<Longrightarrow> ok c \<Longrightarrow> cmp a b \<le> 0 \<Longrightarrow> cmp b c < 0 \<Longrightarrow> cmp a c < 0"
  using cmp_trans [of c a b] cmp_le_swap [of c a] cmp_swap [of b c] by linarith

lemma cmp_zero_cong:
  assumes "ok a" "ok b" "ok c" "cmp a b = 0"
  shows "cmp a c < 0 \<longleftrightarrow> cmp b c < 0" "cmp a c = 0 \<longleftrightarrow> cmp b c = 0" "cmp a c > 0 \<longleftrightarrow> cmp b c > 0"
proof -
  have z: "cmp b a = 0" using assms cmp_zero_sym by blast
  show lt: "cmp a c < 0 \<longleftrightarrow> cmp b c < 0"
    using cmp_le_less_trans [of a b c] cmp_le_less_trans [of b a c] assms z by auto
  have "cmp a c \<le> 0 \<longleftrightarrow> cmp b c \<le> 0"
    using cmp_trans [of a b c] cmp_trans [of b a c] assms z by auto
  with lt show "cmp a c = 0 \<longleftrightarrow> cmp b c = 0" "cmp a c > 0 \<longleftrightarrow> cmp b c > 0" by linarith+
qed

end

section \<open>Bytewise comparison\<close>

fun memcmp :: "key \<Rightarrow> key \<Rightarrow> nat \<Rightarrow> int" where
  "memcmp (x # xs) (y # ys) (Suc n) = (if x < y then -1 else if y < x then 1 else memcmp xs ys n)"
| "memcmp _ _ _ = 0"

definition slice_compare :: "key \<Rightarrow> key \<Rightarrow> int" where
  "slice_compare a b =
     (let min_len = (if length a < length b then length a else length b);
          r = memcmp a b min_len
      in if r = 0 then (if length a < length b then -1 else if length b < length a then 1 else 0) else r)"

definition bytewise_Compare :: "key \<Rightarrow> key \<Rightarrow> int" where
  "bytewise_Compare a b = slice_compare a b"

definition reverse_bytewise_Compare :: "key \<Rightarrow> key \<Rightarrow> int" where
  "reverse_bytewise_Compare a b = - slice_compare a b"

lemma slice_compare_Cons:
  "slice_compare (x # xs) (y # ys) = (if x < y then -1 else if y < x then 1 else slice_compare xs ys)"
  by (simp add: slice_compare_def Let_def)

lemma slice_compare_eq: "slice_compare a b = (if a < b then -1 else if b < a then 1 else 0)"
proof (induction a arbitrary: b)
  case Nil
  then show ?case by (cases b) (simp_all add: slice_compare_def)
next
  case (Cons x xs)
  show ?case
  proof (cases b)
    case Nil
    then show ?thesis by (simp add: slice_compare_def)
  next
    case (Cons y ys)
    with Cons.IH [of ys] show ?thesis unfolding slice_compare_Cons Cons by auto
  qed
qed

lemma slice_compare_sign [simp]:
  "slice_compare a b < 0 \<longleftrightarrow> a < b" "slice_compare a b = 0 \<longleftrightarrow> a = b" "0 < slice_compare a b \<longleftrightarrow> b < a"
  "slice_compare a b \<le> 0 \<longleftrightarrow> a \<le> b" "0 \<le> slice_compare a b \<longleftrightarrow> b \<le> a"
  by (auto simp: slice_compare_eq)

interpretation bytewise: comparator bytewise_Compare "\<lambda>_. True"
  by unfold_locales (auto simp: bytewise_Compare_def)

interpretation reverse_bytewise: comparator reverse_bytewise_Compare "\<lambda>_. True"
  by unfold_locales (auto simp: reverse_bytewise_Compare_def)

section \<open>User-defined timestamps\<close>

definition StripTimestampFromUserKey :: "key \<Rightarrow> nat \<Rightarrow> key" where
  "StripTimestampFromUserKey user_key ts_sz = take (length user_key - ts_sz) user_key"

definition ExtractTimestampFromUserKey :: "key \<Rightarrow> nat \<Rightarrow> key" where
  "ExtractTimestampFromUserKey user_key ts_sz = drop (length user_key - ts_sz) user_key"

definition CompareTimestamp :: "key \<Rightarrow> key \<Rightarrow> int" where
  "CompareTimestamp ts1 ts2 =
     (let lhs = DecodeFixed64 ts1; rhs = DecodeFixed64 ts2
      in if lhs < rhs then -1 else if rhs < lhs then 1 else 0)"

definition u64ts_CompareWithoutTimestamp ::
  "(key \<Rightarrow> key \<Rightarrow> int) \<Rightarrow> key \<Rightarrow> bool \<Rightarrow> key \<Rightarrow> bool \<Rightarrow> int" where
  "u64ts_CompareWithoutTimestamp cmp_without_ts a a_has_ts b b_has_ts =
     cmp_without_ts (if a_has_ts then StripTimestampFromUserKey a 8 else a)
                    (if b_has_ts then StripTimestampFromUserKey b 8 else b)"

definition u64ts_Compare :: "(key \<Rightarrow> key \<Rightarrow> int) \<Rightarrow> key \<Rightarrow> key \<Rightarrow> int" where
  "u64ts_Compare cmp_without_ts a b =
     (let ret = u64ts_CompareWithoutTimestamp cmp_without_ts a True b True
      in if ret \<noteq> 0 then ret
         else - CompareTimestamp (ExtractTimestampFromUserKey a 8) (ExtractTimestampFromUserKey b 8))"

definition DecodeU64Ts :: "key \<Rightarrow> u64 option" where
  "DecodeU64Ts ts = (if length ts \<noteq> 8 then None else Some (DecodeFixed64 ts))"

definition EncodeU64Ts :: "u64 \<Rightarrow> key" where
  "EncodeU64Ts ts = EncodeFixed64 ts"

text \<open>
  Ordering first by a comparator and then by a second number in descending order again gives a
  comparator. This is the shape of the timestamp comparator and of the internal key comparator.
\<close>

definition then_desc :: "(key \<Rightarrow> key \<Rightarrow> int) \<Rightarrow> (key \<Rightarrow> key) \<Rightarrow> (key \<Rightarrow> u64) \<Rightarrow> key \<Rightarrow> key \<Rightarrow> int" where
  "then_desc cmp f g a b =
     (if cmp (f a) (f b) \<noteq> 0 then cmp (f a) (f b)
      else if g a > g b then -1 else if g a < g b then 1 else 0)"

context comparator
begin

lemma then_desc_comparator:
  assumes "\<And>k. ok' k \<Longrightarrow> ok (f k)"
  shows "comparator (then_desc cmp f g) ok'"
proof
  fix a assume "ok' a"
  then show "then_desc cmp f g a a = 0" using assms cmp_refl by (simp add: then_desc_def)
next
  fix a b assume "ok' a" "ok' b"
  then show "then_desc cmp f g a b < 0 \<longleftrightarrow> 0 < then_desc cmp f g b a"
    using assms cmp_swap [of "f a" "f b"] cmp_zero_sym [of "f a" "f b"] by (auto simp: then_desc_def)
next
  fix a b c
  assume k: "ok' a" "ok' b" "ok' c"
    and ab: "then_desc cmp f g a b \<le> 0" and bc: "then_desc cmp f g b c \<le> 0"
  note o = assms [OF k(1)] assms [OF k(2)] assms [OF k(3)]
  have le: "cmp (f a) (f b) \<le> 0" "cmp (f b) (f c) \<le> 0"
    using ab bc by (auto simp: then_desc_def split: if_splits)
  show "then_desc cmp f g a c \<le> 0"
  proof (cases "cmp (f a) (f c) = 0")
    case True
    then have "cmp (f a) (f b) = 0" "cmp (f b) (f c) = 0"
      using le cmp_less_le_trans [OF o(1,2,3)] cmp_le_less_trans [OF o(1,2,3)] by (auto simp: le_less)
    then have "g b \<le> g a" "g c \<le> g b" using ab bc by (auto simp: then_desc_def not_less split: if_splits)
    with True show ?thesis by (auto simp: then_desc_def)
  next
    case False
    with cmp_trans [OF o le] show ?thesis by (simp add: then_desc_def)
  qed
qed

end

lemma u64ts_Compare_eq:
  "u64ts_Compare cmp = then_desc cmp (\<lambda>k. StripTimestampFromUserKey k 8)
     (\<lambda>k. DecodeFixed64 (ExtractTimestampFromUserKey k 8))"
  by (auto simp: fun_eq_iff u64ts_Compare_def u64ts_CompareWithoutTimestamp_def then_desc_def
      CompareTimestamp_def Let_def)

interpretation bytewise_u64ts: comparator "u64ts_Compare bytewise_Compare" "\<lambda>k. 8 \<le> length k"
  unfolding u64ts_Compare_eq by (rule bytewise.then_desc_comparator) simp

interpretation reverse_bytewise_u64ts: comparator "u64ts_Compare reverse_bytewise_Compare" "\<lambda>k. 8 \<le> length k"
  unfolding u64ts_Compare_eq by (rule reverse_bytewise.then_desc_comparator) simp

section \<open>Shortening keys\<close>

fun difference_offset :: "key \<Rightarrow> key \<Rightarrow> nat" where
  "difference_offset (x # xs) (y # ys) = (if x = y then Suc (difference_offset xs ys) else 0)"
| "difference_offset _ _ = 0"

text \<open>
  The loop that increments the first byte other than \<open>0xff\<close> and cuts the string after it; \<open>None\<close>
  when there is no such byte.
\<close>

fun bump_first :: "key \<Rightarrow> key option" where
  "bump_first [] = None"
| "bump_first (b # bs) = (if b < 0xff then Some [b + 1] else map_option (Cons b) (bump_first bs))"

definition FindShortestSeparator :: "key \<Rightarrow> key \<Rightarrow> key" where
  "FindShortestSeparator start limit =
     (let min_length = min (length start) (length limit);
          diff_index = difference_offset start limit
      in if diff_index \<ge> min_length then start
         else
           let start_byte = start ! diff_index; limit_byte = limit ! diff_index in
           if start_byte \<ge> limit_byte then start
           else if diff_index < length limit - 1 \<or> unat start_byte + 1 < unat limit_byte
           then take diff_index start @ [start_byte + 1]
           else case bump_first (drop (diff_index + 1) start) of
                  Some t \<Rightarrow> take (diff_index + 1) start @ t
                | None \<Rightarrow> start)"

definition FindShortSuccessor :: "key \<Rightarrow> key" where
  "FindShortSuccessor k = (case bump_first k of Some t \<Rightarrow> t | None \<Rightarrow> k)"

definition reverse_FindShortestSeparator :: "key \<Rightarrow> key \<Rightarrow> key" where
  "reverse_FindShortestSeparator start limit =
     (let min_length = min (length start) (length limit);
          diff_index = difference_offset start limit
      in if diff_index = min_length then start
         else if start ! diff_index > limit ! diff_index \<and> diff_index < length start - 1
         then take (diff_index + 1) start
         else start)"

definition IsSameLengthImmediateSuccessor :: "key \<Rightarrow> key \<Rightarrow> bool" where
  "IsSameLengthImmediateSuccessor s t =
     (if length s \<noteq> length t \<or> length s = 0 then False
      else
        let diff_ind = difference_offset s t in
        if diff_ind \<ge> length s then False
        else if s ! diff_ind \<noteq> 0xff \<and> unat (s ! diff_ind) + 1 = unat (t ! diff_ind)
        then list_all2 (\<lambda>x y. x = 0xff \<and> y = 0) (drop (diff_ind + 1) s) (drop (diff_ind + 1) t)
        else False)"

lemma byte_succ: "(x :: byte) < y \<Longrightarrow> unat (x + 1) = unat x + 1"
  using byte_bound [of y] by (simp add: unat_word_ariths word_less_nat_alt)

lemma bump_first_less: "bump_first bs = Some t \<Longrightarrow> bs < t \<and> length t \<le> length bs"
proof (induction bs arbitrary: t)
  case (Cons b bs)
  show ?case
  proof (cases "b < 0xff")
    case True
    with Cons.prems have "t = [b + 1]" by simp
    then show ?thesis using byte_succ [OF True] by (simp add: word_less_nat_alt)
  next
    case False
    with Cons show ?thesis by auto
  qed
qed simp

lemma difference_offset_append [simp]:
  "difference_offset (us @ xs) (us @ ys) = length us + difference_offset xs ys"
  by (induction us) auto

lemma difference_offset_prefix [simp]: "difference_offset xs (xs @ zs) = length xs"
  using difference_offset_append [of xs "[]" zs] by simp

lemma FindShortestSeparator_between:
  assumes "start < limit"
  shows "start \<le> FindShortestSeparator start limit \<and> FindShortestSeparator start limit < limit \<and>
    length (FindShortestSeparator start limit) \<le> length start"
  using assms
proof (cases rule: list_less_cases)
  case (prefix z zs)
  then have "FindShortestSeparator start limit = start" by (simp add: FindShortestSeparator_def Let_def)
  then show ?thesis using assms by simp
next
  case (diverge us x xs y ys)
  have d: "difference_offset start limit = length us" using diverge by simp
  have x1: "unat (x + 1) = unat x + 1" using byte_succ [OF diverge(3)] .
  let ?cut = "ys \<noteq> [] \<or> unat x + 1 < unat y"
  have eq: "FindShortestSeparator start limit =
      (if ?cut then us @ [x + 1]
       else case bump_first xs of Some t \<Rightarrow> us @ x # t | None \<Rightarrow> start)"
  proof -
    have f: "start ! length us = x" "limit ! length us = y" "\<not> min (length start) (length limit) \<le> length us"
        "take (length us) start = us" "take (length us + 1) start = us @ [x]" "drop (length us + 1) start = xs"
        "length us < length limit - 1 \<longleftrightarrow> ys \<noteq> []" "\<not> y \<le> x"
      using diverge by auto
    show ?thesis unfolding FindShortestSeparator_def Let_def d f using f(3,8) by (simp split: option.splits)
  qed
  show ?thesis
  proof (cases ?cut)
    case True
    have "x + 1 < y \<or> x + 1 = y \<and> ys \<noteq> []"
    proof (cases "unat x + 1 < unat y")
      case False
      then have "unat (x + 1) = unat y" using x1 diverge(3) by (simp add: word_less_nat_alt)
      then have "x + 1 = y" by (rule unsigned_word_eqI)
      with True False show ?thesis by simp
    qed (simp add: word_less_nat_alt x1)
    moreover have "x < x + 1" using x1 by (simp add: word_less_nat_alt)
    ultimately show ?thesis unfolding eq using True by (auto simp: diverge(1,2))
  next
    case False
    then show ?thesis
      unfolding eq using diverge bump_first_less [of xs] by (auto split: option.splits)
  qed
qed

lemma FindShortSuccessor_ge: "k \<le> FindShortSuccessor k \<and> length (FindShortSuccessor k) \<le> length k"
  using bump_first_less [of k] by (auto simp: FindShortSuccessor_def split: option.splits)

lemma reverse_FindShortestSeparator_between:
  assumes "limit < start"
  shows "limit < reverse_FindShortestSeparator start limit \<and> reverse_FindShortestSeparator start limit \<le> start"
  using assms
proof (cases rule: list_less_cases)
  case (prefix z zs)
  have "difference_offset (us @ zs) us = length us" for us zs
    using difference_offset_append [of us zs "[]"] by simp
  then have "reverse_FindShortestSeparator start limit = start"
    using prefix by (simp add: reverse_FindShortestSeparator_def Let_def)
  then show ?thesis using assms by simp
next
  case (diverge us x xs y ys)
  then have "difference_offset start limit = length us" by simp
  then show ?thesis
    using diverge assms by (auto simp: reverse_FindShortestSeparator_def Let_def nth_append)
qed

text \<open>C39. The separator and the successor that index blocks store instead of full keys are correct and
  never longer: for \<open>start < limit\<close> the separator lies in \<open>[start, limit)\<close> in the comparator's order
  (bytewise and reverse bytewise), and the successor is not below the key.\<close>

theorem short_keys_ordered:
  "(bytewise_Compare start limit < 0 \<longrightarrow>
      bytewise_Compare start (FindShortestSeparator start limit) \<le> 0 \<and>
      bytewise_Compare (FindShortestSeparator start limit) limit < 0 \<and>
      length (FindShortestSeparator start limit) \<le> length start) \<and>
   (reverse_bytewise_Compare start limit < 0 \<longrightarrow>
      reverse_bytewise_Compare start (reverse_FindShortestSeparator start limit) \<le> 0 \<and>
      reverse_bytewise_Compare (reverse_FindShortestSeparator start limit) limit < 0) \<and>
   bytewise_Compare start (FindShortSuccessor start) \<le> 0 \<and> length (FindShortSuccessor start) \<le> length start"
  using FindShortestSeparator_between [of start limit] FindShortSuccessor_ge [of start]
    reverse_FindShortestSeparator_between [of limit start]
  by (simp add: bytewise_Compare_def reverse_bytewise_Compare_def)

theorem short_keys_ordered_witness:
  "bytewise_Compare (FindShortestSeparator [1, 2, 3] [1, 4]) [1, 4] < 0"
  using short_keys_ordered [of "[1, 2, 3]" "[1, 4]"] by (simp add: bytewise_Compare_def)

end
