(* ===== verification/Db_Format.thy ===== *)
theory Db_Format
  imports Comparators
begin

text \<open>
  Internal keys (\<open>db/dbformat.h\<close>, \<open>db/dbformat.cc\<close>): a user key followed by eight bytes that hold
  a sequence number and a value type, their packing, parsing, timestamps, the comparator over them
  and the key buffer \<open>IterKey\<close> that block iterators rebuild keys in.

  A \<open>ValueType\<close> is a byte: the sources cast arbitrary bytes to the enumeration when they decode.
\<close>

section \<open>Value types\<close>

type_synonym ValueType = byte

definition kTypeDeletion :: ValueType where "kTypeDeletion = 0x0"
definition kTypeValue :: ValueType where "kTypeValue = 0x1"
definition kTypeMerge :: ValueType where "kTypeMerge = 0x2"
definition kTypeSingleDeletion :: ValueType where "kTypeSingleDeletion = 0x7"
definition kTypeRangeDeletion :: ValueType where "kTypeRangeDeletion = 0xF"
definition kTypeBlobIndex :: ValueType where "kTypeBlobIndex = 0x11"
definition kTypeDeletionWithTimestamp :: ValueType where "kTypeDeletionWithTimestamp = 0x14"
definition kTypeWideColumnEntity :: ValueType where "kTypeWideColumnEntity = 0x16"
definition kTypeValuePreferredSeqno :: ValueType where "kTypeValuePreferredSeqno = 0x18"
definition kTypeMaxValid :: ValueType where "kTypeMaxValid = 0x1A"

lemmas value_type_defs = kTypeDeletion_def kTypeValue_def kTypeMerge_def kTypeSingleDeletion_def
  kTypeRangeDeletion_def kTypeBlobIndex_def kTypeDeletionWithTimestamp_def kTypeWideColumnEntity_def
  kTypeValuePreferredSeqno_def kTypeMaxValid_def

definition kValueTypeForSeek :: ValueType where "kValueTypeForSeek = kTypeValuePreferredSeqno"

definition IsValueType :: "ValueType \<Rightarrow> bool" where
  "IsValueType t \<longleftrightarrow> t \<le> kTypeMerge \<or> kTypeSingleDeletion = t \<or> kTypeBlobIndex = t \<or>
     kTypeDeletionWithTimestamp = t \<or> kTypeWideColumnEntity = t \<or> kTypeValuePreferredSeqno = t"

definition IsExtendedValueType :: "ValueType \<Rightarrow> bool" where
  "IsExtendedValueType t \<longleftrightarrow> IsValueType t \<or> t = kTypeRangeDeletion \<or> t = kTypeMaxValid"

datatype EntryType = kEntryPut | kEntryDelete | kEntrySingleDelete | kEntryMerge | kEntryRangeDeletion
  | kEntryBlobIndex | kEntryDeleteWithTimestamp | kEntryWideColumnEntity | kEntryTimedPut | kEntryOther

definition GetEntryType :: "ValueType \<Rightarrow> EntryType" where
  "GetEntryType value_type =
     (if value_type = kTypeValue then kEntryPut
      else if value_type = kTypeDeletion then kEntryDelete
      else if value_type = kTypeDeletionWithTimestamp then kEntryDeleteWithTimestamp
      else if value_type = kTypeSingleDeletion then kEntrySingleDelete
      else if value_type = kTypeMerge then kEntryMerge
      else if value_type = kTypeRangeDeletion then kEntryRangeDeletion
      else if value_type = kTypeBlobIndex then kEntryBlobIndex
      else if value_type = kTypeWideColumnEntity then kEntryWideColumnEntity
      else if value_type = kTypeValuePreferredSeqno then kEntryTimedPut
      else kEntryOther)"

section \<open>Packing\<close>

definition kMaxSequenceNumber :: u64 where "kMaxSequenceNumber = push_bit 56 1 - 1"

definition kDisableGlobalSequenceNumber :: u64 where "kDisableGlobalSequenceNumber = -1"

definition kNumInternalBytes :: nat where "kNumInternalBytes = 8"

record ParsedInternalKey =
  user_key :: key
  sequence :: u64
  vtype :: ValueType

definition PackSequenceAndType :: "u64 \<Rightarrow> ValueType \<Rightarrow> u64" where
  "PackSequenceAndType seq t = push_bit 8 seq OR ucast t"

definition UnPackSequenceAndType :: "u64 \<Rightarrow> u64 \<times> ValueType" where
  "UnPackSequenceAndType packed = (drop_bit 8 packed, ucast (packed AND 0xff))"

definition AppendInternalKey :: "key \<Rightarrow> ParsedInternalKey \<Rightarrow> key" where
  "AppendInternalKey result k =
     PutFixed64 (result @ user_key k) (PackSequenceAndType (sequence k) (vtype k))"

definition AppendInternalKeyFooter :: "key \<Rightarrow> u64 \<Rightarrow> ValueType \<Rightarrow> key" where
  "AppendInternalKeyFooter result s t = PutFixed64 result (PackSequenceAndType s t)"

definition ExtractUserKey :: "key \<Rightarrow> key" where
  "ExtractUserKey internal_key = take (length internal_key - kNumInternalBytes) internal_key"

definition ExtractInternalKeyFooter :: "key \<Rightarrow> u64" where
  "ExtractInternalKeyFooter internal_key =
     DecodeFixed64 (drop (length internal_key - kNumInternalBytes) internal_key)"

definition ExtractValueType :: "key \<Rightarrow> ValueType" where
  "ExtractValueType internal_key = ucast (ExtractInternalKeyFooter internal_key AND 0xff)"

definition GetInternalKeySeqno :: "key \<Rightarrow> u64" where
  "GetInternalKeySeqno internal_key = drop_bit 8 (ExtractInternalKeyFooter internal_key)"

definition UpdateInternalKey :: "key \<Rightarrow> u64 \<Rightarrow> ValueType \<Rightarrow> key" where
  "UpdateInternalKey ikey seq t =
     take (length ikey - kNumInternalBytes) ikey @ EncodeFixed64 (push_bit 8 seq OR ucast t)"

text \<open>
  The two \<open>Status::Corruption\<close> results of \<open>ParseInternalKey\<close>. The function also asserts that the type
  byte is at most \<open>kMaxValue\<close>; as everywhere in this development, that is the behaviour of a release
  build, where assertions are compiled out. The keys it would stop at are corrupted ones.
\<close>

datatype parse_error = KeyTooSmall nat | CorruptedKey ParsedInternalKey

definition ParseInternalKey :: "key \<Rightarrow> parse_error + ParsedInternalKey" where
  "ParseInternalKey internal_key =
     (let n = length internal_key in
      if n < kNumInternalBytes then Inl (KeyTooSmall n)
      else
        let num = DecodeFixed64 (drop (n - kNumInternalBytes) internal_key);
            result = \<lparr>user_key = take (n - kNumInternalBytes) internal_key, sequence = drop_bit 8 num,
                      vtype = ucast (num AND 0xff)\<rparr>
        in if IsExtendedValueType (vtype result) then Inr result else Inl (CorruptedKey result))"

lemma unpack_pack:
  assumes "seq \<le> kMaxSequenceNumber"
  shows "drop_bit 8 (PackSequenceAndType seq t) = seq" and "ucast (PackSequenceAndType seq t AND 0xff) = t"
proof -
  have "unat seq < 2 ^ 56" using assms by (simp add: kMaxSequenceNumber_def word_le_nat_alt)
  then have "unat (take_bit 56 seq) = unat seq" by (simp add: unsigned_take_bit_eq take_bit_nat_eq_self)
  then have "take_bit 56 seq = seq" by (rule unsigned_word_eqI)
  then have hi: "bit seq n \<Longrightarrow> n < 56" for n by (metis bit_take_bit_iff)
  show "drop_bit 8 (PackSequenceAndType seq t) = seq"
    by (rule bit_word_eqI) (auto simp: PackSequenceAndType_def bit_simps dest: hi)
  have m: "(0xff :: u64) = mask 8" by (simp add: mask_eq_exp_minus_1)
  show "ucast (PackSequenceAndType seq t AND 0xff) = t"
    unfolding m by (intro bit_word_eqI) (auto simp: PackSequenceAndType_def bit_simps)
qed

lemma length_AppendInternalKey [simp]:
  "length (AppendInternalKey r k) = length r + length (user_key k) + kNumInternalBytes"
  by (simp add: AppendInternalKey_def PutFixed64_def kNumInternalBytes_def)

lemma ikey_parts:
  "ExtractUserKey (u @ EncodeFixed64 v) = u" "ExtractInternalKeyFooter (u @ EncodeFixed64 v) = v"
  using DecodeFixed_Encode(1) [of v "[]"]
  by (simp_all add: ExtractUserKey_def ExtractInternalKeyFooter_def kNumInternalBytes_def)


lemma AppendInternalKey_parts:
  "AppendInternalKey [] k = user_key k @ EncodeFixed64 (PackSequenceAndType (sequence k) (vtype k))"
  by (simp add: AppendInternalKey_def PutFixed64_def)

lemma ParseInternalKey_Append:
  assumes "sequence k \<le> kMaxSequenceNumber" and "IsExtendedValueType (vtype k)"
  shows "ParseInternalKey (AppendInternalKey [] k) = Inr (k :: ParsedInternalKey)"
proof -
  have n: "\<not> length (AppendInternalKey [] k) < kNumInternalBytes" by simp
  have u: "take (length (AppendInternalKey [] k) - kNumInternalBytes) (AppendInternalKey [] k) = user_key k"
    and f: "DecodeFixed64 (drop (length (AppendInternalKey [] k) - kNumInternalBytes) (AppendInternalKey [] k)) =
      PackSequenceAndType (sequence k) (vtype k)"
    using ikey_parts [of "user_key k" "PackSequenceAndType (sequence k) (vtype k)"]
    unfolding AppendInternalKey_parts ExtractUserKey_def ExtractInternalKeyFooter_def by simp_all
  show ?thesis
    unfolding ParseInternalKey_def Let_def u f using n assms(2) unpack_pack [OF assms(1), of "vtype k"] by simp
qed

text \<open>The footers order like the pairs of sequence number and type.\<close>

lemma pack_less:
  assumes "s \<le> kMaxSequenceNumber" and "s' \<le> kMaxSequenceNumber"
  shows "PackSequenceAndType s t < PackSequenceAndType s' t' \<longleftrightarrow> s < s' \<or> s = s' \<and> t < t'"
proof -
  have v: "unat (PackSequenceAndType x y) = unat x * 256 + unat y" if "x \<le> kMaxSequenceNumber" for x y
  proof -
    have x: "unat x < 2 ^ 56" using that by (simp add: kMaxSequenceNumber_def word_le_nat_alt)
    have "push_bit 8 x OR ucast y = push_bit 8 x + ucast y"
      by (rule disjunctive_add [symmetric]) (auto simp: bit_simps)
    moreover have "unat (push_bit 8 x) = unat x * 256"
      using x by (simp add: unsigned_push_bit_eq push_bit_eq_mult take_bit_nat_eq_self unat_word_ariths)
    moreover have "unat (ucast y :: u64) = unat y"
      using byte_bound [of y] by (simp add: unsigned_ucast_eq take_bit_nat_eq_self)
    moreover have "unat x * 256 + unat y < 2 ^ 64" using x byte_bound [of y] by simp
    ultimately show ?thesis by (simp add: PackSequenceAndType_def unat_word_ariths)
  qed
  have "unat s * 256 + unat t < unat s' * 256 + unat t' \<longleftrightarrow>
      unat s < unat s' \<or> unat s = unat s' \<and> unat t < unat t'"
    using byte_bound [of t] byte_bound [of t'] by linarith
  moreover have "unat s = unat s' \<longleftrightarrow> s = s'" by (auto intro: unsigned_word_eqI)
  ultimately show ?thesis by (simp only: word_less_nat_alt v [OF assms(1)] v [OF assms(2)])
qed

section \<open>The comparator of internal keys\<close>

definition ikc_Compare :: "(key \<Rightarrow> key \<Rightarrow> int) \<Rightarrow> key \<Rightarrow> key \<Rightarrow> int" where
  "ikc_Compare cmp akey bkey =
     (let r = cmp (ExtractUserKey akey) (ExtractUserKey bkey) in
      if r = 0 then
        let anum = DecodeFixed64 (drop (length akey - kNumInternalBytes) akey);
            bnum = DecodeFixed64 (drop (length bkey - kNumInternalBytes) bkey)
        in if anum > bnum then -1 else if anum < bnum then 1 else r
      else r)"

definition ikc_Compare_parsed ::
  "(key \<Rightarrow> key \<Rightarrow> int) \<Rightarrow> ParsedInternalKey \<Rightarrow> ParsedInternalKey \<Rightarrow> int" where
  "ikc_Compare_parsed cmp a b =
     (let r = cmp (user_key a) (user_key b) in
      if r = 0 then
        if sequence a > sequence b then -1
        else if sequence a < sequence b then 1
        else if vtype a > vtype b then -1
        else if vtype a < vtype b then 1
        else r
      else r)"

definition ikc_Compare_mixed :: "(key \<Rightarrow> key \<Rightarrow> int) \<Rightarrow> key \<Rightarrow> ParsedInternalKey \<Rightarrow> int" where
  "ikc_Compare_mixed cmp a b =
     (let r = cmp (ExtractUserKey a) (user_key b) in
      if r = 0 then
        let anum = DecodeFixed64 (drop (length a - kNumInternalBytes) a);
            bnum = push_bit 8 (sequence b) OR ucast (vtype b)
        in if anum > bnum then -1 else if anum < bnum then 1 else r
      else r)"

definition ikc_CompareKeySeq :: "(key \<Rightarrow> key \<Rightarrow> int) \<Rightarrow> key \<Rightarrow> key \<Rightarrow> int" where
  "ikc_CompareKeySeq cmp akey bkey =
     (let r = cmp (ExtractUserKey akey) (ExtractUserKey bkey) in
      if r = 0 then
        let anum = drop_bit 8 (DecodeFixed64 (drop (length akey - kNumInternalBytes) akey));
            bnum = drop_bit 8 (DecodeFixed64 (drop (length bkey - kNumInternalBytes) bkey))
        in if anum > bnum then -1 else if anum < bnum then 1 else r
      else r)"

definition ikc_Compare_global :: "(key \<Rightarrow> key \<Rightarrow> int) \<Rightarrow> key \<Rightarrow> u64 \<Rightarrow> key \<Rightarrow> u64 \<Rightarrow> int" where
  "ikc_Compare_global cmp a a_global_seqno b b_global_seqno =
     (let r = cmp (ExtractUserKey a) (ExtractUserKey b) in
      if r = 0 then
        let a_footer = (if a_global_seqno = kDisableGlobalSequenceNumber then ExtractInternalKeyFooter a
                        else PackSequenceAndType a_global_seqno (ExtractValueType a));
            b_footer = (if b_global_seqno = kDisableGlobalSequenceNumber then ExtractInternalKeyFooter b
                        else PackSequenceAndType b_global_seqno (ExtractValueType b))
        in if a_footer > b_footer then -1 else if a_footer < b_footer then 1 else r
      else r)"

lemma ikc_Compare_eq: "ikc_Compare cmp = then_desc cmp ExtractUserKey ExtractInternalKeyFooter"
  by (auto simp: fun_eq_iff ikc_Compare_def then_desc_def ExtractInternalKeyFooter_def Let_def)

interpretation ikc: comparator "ikc_Compare bytewise_Compare" "\<lambda>k. kNumInternalBytes \<le> length k"
  unfolding ikc_Compare_eq by (rule bytewise.then_desc_comparator) simp

interpretation ikc_reverse: comparator "ikc_Compare reverse_bytewise_Compare" "\<lambda>k. kNumInternalBytes \<le> length k"
  unfolding ikc_Compare_eq by (rule reverse_bytewise.then_desc_comparator) simp

text \<open>On equal user keys the newer entry comes first, and comparing encoded keys agrees with comparing
  parsed keys.\<close>

lemma ikc_Compare_parsed_eq:
  assumes "sequence a \<le> kMaxSequenceNumber" and "sequence b \<le> kMaxSequenceNumber"
  shows "ikc_Compare cmp (AppendInternalKey [] a) (AppendInternalKey [] b) = ikc_Compare_parsed cmp a b"
    and "ikc_Compare_mixed cmp (AppendInternalKey [] a) b = ikc_Compare_parsed cmp a b"
proof -
  note less = pack_less [OF assms] pack_less [OF assms(2,1)]
  note parts = ikey_parts [of "user_key a" "PackSequenceAndType (sequence a) (vtype a)"]
    ikey_parts [of "user_key b" "PackSequenceAndType (sequence b) (vtype b)"]
  have p: "(let anum = PackSequenceAndType (sequence a) (vtype a); bnum = PackSequenceAndType (sequence b) (vtype b)
        in if anum > bnum then -1 else if anum < bnum then 1 else r) =
      (if sequence a > sequence b then -1 else if sequence a < sequence b then 1
       else if vtype a > vtype b then -1 else if vtype a < vtype b then 1 else r)" for r :: int
    unfolding Let_def less by auto
  show "ikc_Compare cmp (AppendInternalKey [] a) (AppendInternalKey [] b) = ikc_Compare_parsed cmp a b"
    unfolding ikc_Compare_def ikc_Compare_parsed_def AppendInternalKey_parts parts(1,3)
      parts(2,4) [unfolded ExtractInternalKeyFooter_def] p ..
  show "ikc_Compare_mixed cmp (AppendInternalKey [] a) b = ikc_Compare_parsed cmp a b"
    unfolding ikc_Compare_mixed_def ikc_Compare_parsed_def AppendInternalKey_parts parts(1)
      parts(2) [unfolded ExtractInternalKeyFooter_def] PackSequenceAndType_def [symmetric] p ..
qed

section \<open>Timestamps\<close>

definition AppendInternalKeyWithDifferentTimestamp :: "key \<Rightarrow> ParsedInternalKey \<Rightarrow> key \<Rightarrow> key" where
  "AppendInternalKeyWithDifferentTimestamp result k ts =
     PutFixed64 (result @ take (length (user_key k) - length ts) (user_key k) @ ts)
       (PackSequenceAndType (sequence k) (vtype k))"

definition AppendUserKeyWithDifferentTimestamp :: "key \<Rightarrow> key \<Rightarrow> key \<Rightarrow> key" where
  "AppendUserKeyWithDifferentTimestamp result k ts = result @ take (length k - length ts) k @ ts"

definition AppendKeyWithMinTimestamp :: "key \<Rightarrow> key \<Rightarrow> nat \<Rightarrow> key" where
  "AppendKeyWithMinTimestamp result k ts_sz = result @ k @ replicate ts_sz 0"

definition AppendKeyWithMaxTimestamp :: "key \<Rightarrow> key \<Rightarrow> nat \<Rightarrow> key" where
  "AppendKeyWithMaxTimestamp result k ts_sz = result @ k @ replicate ts_sz 0xff"

definition AppendUserKeyWithMinTimestamp :: "key \<Rightarrow> key \<Rightarrow> nat \<Rightarrow> key" where
  "AppendUserKeyWithMinTimestamp result k ts_sz = result @ take (length k - ts_sz) k @ replicate ts_sz 0"

definition AppendUserKeyWithMaxTimestamp :: "key \<Rightarrow> key \<Rightarrow> nat \<Rightarrow> key" where
  "AppendUserKeyWithMaxTimestamp result k ts_sz =
     result @ take (length k - ts_sz) k @
       (let kTsMax = replicate 9 0xff in
        if ts_sz < length kTsMax then take ts_sz kTsMax else replicate ts_sz 0xff)"

definition PadInternalKeyWithMinTimestamp :: "key \<Rightarrow> key \<Rightarrow> nat \<Rightarrow> key" where
  "PadInternalKeyWithMinTimestamp result k ts_sz =
     (let user_key_size = length k - kNumInternalBytes
      in result @ take user_key_size k @ replicate ts_sz 0 @ drop user_key_size k)"

definition PadInternalKeyWithMaxTimestamp :: "key \<Rightarrow> key \<Rightarrow> nat \<Rightarrow> key" where
  "PadInternalKeyWithMaxTimestamp result k ts_sz =
     (let user_key_size = length k - kNumInternalBytes
      in result @ take user_key_size k @ replicate ts_sz 0xff @ drop user_key_size k)"

definition StripTimestampFromInternalKey :: "key \<Rightarrow> key \<Rightarrow> nat \<Rightarrow> key" where
  "StripTimestampFromInternalKey result k ts_sz =
     result @ take (length k - kNumInternalBytes - ts_sz) k @ drop (length k - kNumInternalBytes) k"

definition ReplaceInternalKeyWithMinTimestamp :: "key \<Rightarrow> key \<Rightarrow> nat \<Rightarrow> key" where
  "ReplaceInternalKeyWithMinTimestamp result k ts_sz =
     result @ take (length k - kNumInternalBytes - ts_sz) k @ replicate ts_sz 0 @
       drop (length k - kNumInternalBytes) k"

definition ExtractUserKeyAndStripTimestamp :: "key \<Rightarrow> nat \<Rightarrow> key" where
  "ExtractUserKeyAndStripTimestamp internal_key ts_sz =
     take (length internal_key - (kNumInternalBytes + ts_sz)) internal_key"

definition ExtractTimestampFromKey :: "key \<Rightarrow> nat \<Rightarrow> key" where
  "ExtractTimestampFromKey internal_key ts_sz =
     take ts_sz (drop (length internal_key - ts_sz - kNumInternalBytes) internal_key)"

lemma Strip_Pad:
  assumes "kNumInternalBytes \<le> length k"
  shows "StripTimestampFromInternalKey [] (PadInternalKeyWithMinTimestamp [] k n) n = k"
    and "StripTimestampFromInternalKey [] (PadInternalKeyWithMaxTimestamp [] k n) n = k"
  using assms
  by (simp_all add: StripTimestampFromInternalKey_def PadInternalKeyWithMinTimestamp_def
      PadInternalKeyWithMaxTimestamp_def Let_def)

lemma Replace_eq:
  assumes "kNumInternalBytes + n \<le> length k"
  shows "ReplaceInternalKeyWithMinTimestamp [] k n =
    PadInternalKeyWithMinTimestamp [] (StripTimestampFromInternalKey [] k n) n"
  using assms
  by (simp add: ReplaceInternalKeyWithMinTimestamp_def StripTimestampFromInternalKey_def
      PadInternalKeyWithMinTimestamp_def Let_def min_def)

section \<open>The key buffer of block iterators\<close>

text \<open>
  Where \<open>key_\<close> points: to external memory, to \<open>buf_\<close> or to \<open>secondary_buf_\<close>. The bytes of the
  key are kept by value; the sources copy them between the two buffers so that a write never
  overlaps the slices it reads.
\<close>

datatype key_home = Pinned | InBuf | InSecondary

record IterKey =
  key_bytes :: key
  key_home :: key_home
  buf_size :: nat
  secondary_buf_size :: nat
  is_user_key :: bool

definition IterKey_new :: IterKey where
  "IterKey_new = \<lparr>key_bytes = [], key_home = InBuf, buf_size = 39, secondary_buf_size = 39, is_user_key = True\<rparr>"

definition IterKey_GetUserKey :: "IterKey \<Rightarrow> key" where
  "IterKey_GetUserKey ik =
     (if is_user_key ik then key_bytes ik else take (length (key_bytes ik) - kNumInternalBytes) (key_bytes ik))"

definition SetKeyImpl :: "key \<Rightarrow> bool \<Rightarrow> IterKey \<Rightarrow> IterKey" where
  "SetKeyImpl k copy ik =
     (if copy then ik\<lparr>key_bytes := k, key_home := InBuf, buf_size := max (length k) (buf_size ik)\<rparr>
      else ik\<lparr>key_bytes := k, key_home := Pinned\<rparr>)"

definition IterKey_SetUserKey :: "key \<Rightarrow> bool \<Rightarrow> IterKey \<Rightarrow> IterKey" where
  "IterKey_SetUserKey k copy ik = SetKeyImpl k copy (ik\<lparr>is_user_key := True\<rparr>)"

definition IterKey_SetInternalKey :: "key \<Rightarrow> bool \<Rightarrow> IterKey \<Rightarrow> IterKey" where
  "IterKey_SetInternalKey k copy ik = SetKeyImpl k copy (ik\<lparr>is_user_key := False\<rparr>)"

text \<open>Copying a list of slices into the buffer that does not hold the present key.\<close>

definition SetKeyImpl_slices :: "key list \<Rightarrow> nat \<Rightarrow> IterKey \<Rightarrow> IterKey" where
  "SetKeyImpl_slices key_slices total_bytes ik =
     (if key_home ik = InBuf
      then ik\<lparr>key_bytes := concat key_slices, key_home := InSecondary,
              secondary_buf_size := max total_bytes (secondary_buf_size ik)\<rparr>
      else ik\<lparr>key_bytes := concat key_slices, key_home := InBuf, buf_size := max total_bytes (buf_size ik)\<rparr>)"

text \<open>
  \<open>None\<close>: the key lies in the secondary buffer and the result fits into \<open>buf_\<close>. The sources then
  write the new suffix into \<open>buf_\<close> without copying the shared prefix, so the result would depend on
  what \<open>buf_\<close> held before.
\<close>

definition TrimAppend :: "nat \<Rightarrow> key \<Rightarrow> IterKey \<Rightarrow> IterKey option" where
  "TrimAppend shared_len non_shared ik =
     (let total_size = shared_len + length non_shared in
      if key_home ik = InSecondary \<and> total_size \<le> buf_size ik \<and> 0 < shared_len then None
      else Some (ik\<lparr>key_bytes := take shared_len (key_bytes ik) @ non_shared, key_home := InBuf,
                    buf_size := max total_size (buf_size ik)\<rparr>))"

definition MaybeAddKeyPartsWithTimestamp ::
  "key \<Rightarrow> bool \<Rightarrow> nat \<Rightarrow> nat \<Rightarrow> key list \<times> bool \<Rightarrow> key list \<times> bool" where
  "MaybeAddKeyPartsWithTimestamp slice_data add_timestamp left_sz ts_sz st =
     (case st of (key_slices, ts_added) \<Rightarrow>
        if add_timestamp \<and> \<not> ts_added
        then (key_slices @ [take left_sz slice_data, replicate ts_sz 0, drop left_sz slice_data], True)
        else (key_slices @ [slice_data], ts_added))"

definition TrimAppendWithTimestamp :: "nat \<Rightarrow> key \<Rightarrow> nat \<Rightarrow> IterKey \<Rightarrow> IterKey" where
  "TrimAppendWithTimestamp shared_len non_shared ts_sz ik =
     (let k = key_bytes ik; non_shared_len = length non_shared;
          key_slices =
            (if is_user_key ik then [take shared_len k, non_shared, replicate ts_sz 0]
             else
               let user_key_len = length k - kNumInternalBytes;
                   sharable_user_key_len = user_key_len - ts_sz;
                   shared_user_key_len = min shared_len sharable_user_key_len;
                   shared_internal_bytes_len = shared_len - shared_user_key_len;
                   st1 = MaybeAddKeyPartsWithTimestamp (take shared_user_key_len k)
                           (shared_internal_bytes_len + non_shared_len < kNumInternalBytes)
                           (shared_len + non_shared_len - kNumInternalBytes) ts_sz ([], False);
                   st2 = MaybeAddKeyPartsWithTimestamp (take shared_internal_bytes_len (drop user_key_len k))
                           (non_shared_len < kNumInternalBytes)
                           (shared_internal_bytes_len + non_shared_len - kNumInternalBytes) ts_sz st1;
                   st3 = MaybeAddKeyPartsWithTimestamp non_shared (non_shared_len \<ge> kNumInternalBytes)
                           (non_shared_len - kNumInternalBytes) ts_sz st2
               in fst st3)
      in SetKeyImpl_slices key_slices (shared_len + non_shared_len + ts_sz) ik)"

definition SetKeyWithPaddedMinTimestamp :: "key \<Rightarrow> nat \<Rightarrow> IterKey \<Rightarrow> IterKey" where
  "SetKeyWithPaddedMinTimestamp k ts_sz ik =
     (let key_slices =
            (if is_user_key ik then [k, replicate ts_sz 0]
             else
               let user_key_size = length k - kNumInternalBytes
               in [take user_key_size k, replicate ts_sz 0, drop user_key_size k])
      in SetKeyImpl_slices key_slices (length k + ts_sz) ik)"

text \<open>
  The footer is written to the buffer that holds the key, the timestamp always to \<open>buf_\<close>: a key in
  the secondary buffer keeps its old timestamp. \<open>None\<close>: the key is pinned or too short, or the
  timestamp would be written outside \<open>buf_\<close>.
\<close>

definition IterKey_UpdateInternalKey :: "u64 \<Rightarrow> ValueType \<Rightarrow> key option \<Rightarrow> IterKey \<Rightarrow> IterKey option" where
  "IterKey_UpdateInternalKey seq t ts ik =
     (let k = key_bytes ik; n = length k; tsb = (case ts of None \<Rightarrow> [] | Some ts \<Rightarrow> ts);
          k' = (if key_home ik = InBuf
                then take (n - kNumInternalBytes - length tsb) k @ tsb @ drop (n - kNumInternalBytes) k
                else k)
      in if key_home ik = Pinned \<or> n < kNumInternalBytes + length tsb \<or>
            tsb \<noteq> [] \<and> buf_size ik < n - kNumInternalBytes
         then None
         else Some (ik\<lparr>key_bytes := take (n - kNumInternalBytes) k' @ EncodeFixed64 (push_bit 8 seq OR ucast t)\<rparr>))"

definition IterKey_SetInternalKey_parts ::
  "key \<Rightarrow> key \<Rightarrow> u64 \<Rightarrow> ValueType \<Rightarrow> key option \<Rightarrow> IterKey \<Rightarrow> IterKey" where
  "IterKey_SetInternalKey_parts key_prefix ukey s value_type ts ik =
     (let tsb = (case ts of None \<Rightarrow> [] | Some ts \<Rightarrow> ts);
          k = key_prefix @ ukey @ tsb @ EncodeFixed64 (PackSequenceAndType s value_type)
      in ik\<lparr>key_bytes := k, key_home := InBuf, buf_size := max (length k) (buf_size ik), is_user_key := False\<rparr>)"

lemma SetKeyImpl_slices_bytes [simp]: "key_bytes (SetKeyImpl_slices ss n ik) = concat ss"
  by (simp add: SetKeyImpl_slices_def)

text \<open>Inserting the padding into the slice that straddles the end of the user key.\<close>

lemma slices_with_timestamp:
  fixes s1 s2 s3 :: key
  defines "n \<equiv> length s1 + length s2 + length s3 - kNumInternalBytes"
  assumes "kNumInternalBytes \<le> length s1 + length s2 + length s3"
  shows "concat (fst (MaybeAddKeyPartsWithTimestamp s3 (length s3 \<ge> kNumInternalBytes)
            (length s3 - kNumInternalBytes) ts
          (MaybeAddKeyPartsWithTimestamp s2 (length s3 < kNumInternalBytes)
            (length s2 + length s3 - kNumInternalBytes) ts
          (MaybeAddKeyPartsWithTimestamp s1 (length s2 + length s3 < kNumInternalBytes) n ts ([], False))))) =
    take n (s1 @ s2 @ s3) @ replicate ts 0 @ drop n (s1 @ s2 @ s3)"
proof -
  consider "length s2 + length s3 < kNumInternalBytes"
    | "\<not> length s2 + length s3 < kNumInternalBytes" "length s3 < kNumInternalBytes"
    | "\<not> length s3 < kNumInternalBytes" by linarith
  then show ?thesis
    using assms(2) by cases (simp_all add: MaybeAddKeyPartsWithTimestamp_def n_def)
qed

lemma shared_stripped:
  assumes "u + ts + kNumInternalBytes = length k"
  shows "take n (StripTimestampFromInternalKey [] k ts) =
    take (min n u) k @ take (n - min n u) (drop (length k - kNumInternalBytes) k)"
proof -
  have "length k - kNumInternalBytes - ts = u" "u \<le> length k" using assms by simp_all
  then show ?thesis
    unfolding StripTimestampFromInternalKey_def by (cases "n \<le> u") (simp_all add: min_def)
qed

section \<open>Properties\<close>

text \<open>C29. Internal keys round-trip: parsing what \<open>AppendInternalKey\<close> wrote gives the key back, for
  every sequence number that fits into 56 bits and every extended value type.\<close>

theorem internal_key_roundtrip:
  assumes "sequence k \<le> kMaxSequenceNumber" and "IsExtendedValueType (vtype k)"
  shows "ParseInternalKey (AppendInternalKey [] k) = Inr (k :: ParsedInternalKey) \<and>
    ExtractUserKey (AppendInternalKey [] k) = user_key k \<and>
    GetInternalKeySeqno (AppendInternalKey [] k) = sequence k \<and>
    ExtractValueType (AppendInternalKey [] k) = vtype k"
  using ParseInternalKey_Append [OF assms] unpack_pack [OF assms(1), of "vtype k"]
  by (simp add: GetInternalKeySeqno_def ExtractValueType_def AppendInternalKey_parts ikey_parts)

theorem internal_key_roundtrip_witness:
  "ParseInternalKey (AppendInternalKey [] \<lparr>user_key = [1, 2], sequence = 7, vtype = kTypeValue\<rparr>) =
     Inr \<lparr>user_key = [1, 2], sequence = 7, vtype = kTypeValue\<rparr>"
  using internal_key_roundtrip [of "\<lparr>user_key = [1, 2], sequence = 7, vtype = kTypeValue\<rparr>"]
  by (simp add: kMaxSequenceNumber_def IsExtendedValueType_def IsValueType_def value_type_defs)






text \<open>C28. The order of encoded internal keys: comparing encoded keys, comparing parsed keys and the mixed
  comparison agree for every user comparator, and among equal user keys the entry with the larger
  sequence number (and, on a tie, the larger type) comes first.\<close>

theorem internal_key_order:
  assumes "sequence a \<le> kMaxSequenceNumber" and "sequence b \<le> kMaxSequenceNumber"
  shows "ikc_Compare cmp (AppendInternalKey [] a) (AppendInternalKey [] b) = ikc_Compare_parsed cmp a b \<and>
    ikc_Compare_mixed cmp (AppendInternalKey [] a) b = ikc_Compare_parsed cmp a b \<and>
    (cmp (user_key a) (user_key b) = 0 \<longrightarrow>
       (ikc_Compare cmp (AppendInternalKey [] a) (AppendInternalKey [] b) < 0 \<longleftrightarrow>
          sequence b < sequence a \<or> sequence a = sequence b \<and> vtype b < vtype a))"
  using ikc_Compare_parsed_eq [OF assms, of cmp] by (auto simp: ikc_Compare_parsed_def)

theorem internal_key_order_witness:
  "ikc_Compare bytewise_Compare (AppendInternalKey [] \<lparr>user_key = [5], sequence = 9, vtype = kTypeValue\<rparr>)
     (AppendInternalKey [] \<lparr>user_key = [5], sequence = 8, vtype = kTypeValue\<rparr>) < 0"
  using internal_key_order [of "\<lparr>user_key = [5], sequence = 9, vtype = kTypeValue\<rparr>"
      "\<lparr>user_key = [5], sequence = 8, vtype = kTypeValue\<rparr>" bytewise_Compare]
  by (simp add: kMaxSequenceNumber_def bytewise_Compare_def)

text \<open>C38. Rebuilding a delta-encoded internal key with a padded timestamp: the four-way slicing of
  \<open>TrimAppendWithTimestamp\<close> gives the same key as stripping the timestamp of the previous key,
  replacing everything after the shared prefix and padding the minimum timestamp back in.\<close>

theorem TrimAppendWithTimestamp_correct:
  assumes "\<not> is_user_key ik" and "ts_sz + kNumInternalBytes \<le> length (key_bytes ik)"
    and "shared_len \<le> length (key_bytes ik) - ts_sz" and "kNumInternalBytes \<le> shared_len + length non_shared"
  shows "key_bytes (TrimAppendWithTimestamp shared_len non_shared ts_sz ik) =
    PadInternalKeyWithMinTimestamp []
      (take shared_len (StripTimestampFromInternalKey [] (key_bytes ik) ts_sz) @ non_shared) ts_sz"
proof -
  let ?k = "key_bytes ik"
  define u where "u = length ?k - kNumInternalBytes - ts_sz"
  have u: "u + ts_sz + kNumInternalBytes = length ?k" using assms(2) by (simp add: u_def)
  define s1 where "s1 = take (min shared_len u) ?k"
  define s2 where "s2 = take (shared_len - min shared_len u) (drop (length ?k - kNumInternalBytes) ?k)"
  have l: "length s1 = min shared_len u" "length s2 = shared_len - min shared_len u"
    using assms(3) u by (auto simp: s1_def s2_def min_def)
  then have "length s1 + length s2 + length non_shared = shared_len + length non_shared" by simp
  note sl = slices_with_timestamp [of s1 s2 non_shared ts_sz, unfolded this, OF assms(4), unfolded l]
  have "key_bytes (TrimAppendWithTimestamp shared_len non_shared ts_sz ik) =
      take (shared_len + length non_shared - kNumInternalBytes) (s1 @ s2 @ non_shared) @ replicate ts_sz 0 @
      drop (shared_len + length non_shared - kNumInternalBytes) (s1 @ s2 @ non_shared)"
    using assms(1) sl by (simp add: TrimAppendWithTimestamp_def Let_def s1_def s2_def u_def)
  moreover have "s1 @ s2 @ non_shared = take shared_len (StripTimestampFromInternalKey [] ?k ts_sz) @ non_shared"
    using shared_stripped [OF u, of shared_len] by (simp add: s1_def s2_def)
  moreover have "length (s1 @ s2 @ non_shared) = shared_len + length non_shared" by (simp add: l)
  ultimately show ?thesis unfolding PadInternalKeyWithMinTimestamp_def Let_def append_Nil by (simp only:)
qed

theorem TrimAppendWithTimestamp_correct_witness:
  "key_bytes (TrimAppendWithTimestamp 3 [9, 9, 9, 9, 9, 9] 2
     (IterKey_SetInternalKey [1, 2, 0, 0, 5, 5, 5, 5, 5, 5, 5, 5] True IterKey_new)) =
   [1, 0, 0, 2, 5, 9, 9, 9, 9, 9, 9]"
  using TrimAppendWithTimestamp_correct [of "IterKey_SetInternalKey [1, 2, 0, 0, 5, 5, 5, 5, 5, 5, 5, 5] True IterKey_new"
      2 3 "[9, 9, 9, 9, 9, 9]"]
  by (simp add: IterKey_SetInternalKey_def SetKeyImpl_def kNumInternalBytes_def StripTimestampFromInternalKey_def
      PadInternalKeyWithMinTimestamp_def numeral_eq_Suc)

end
