(* ===== verification/File_Meta.thy ===== *)
theory File_Meta
  imports Db_Format
begin

text \<open>
  The metadata of a table file: \<open>FileDescriptor\<close> and \<open>FileMetaData\<close> of \<open>db/version_edit.h\<close> with the
  updates of the key boundaries (\<open>db/version_edit.cc\<close>), and the blob index that \<open>UpdateBoundaries\<close>
  decodes (\<open>db/blob/blob_index.h\<close>). Handles into the table cache, reference counts and sampling
  counters are left out; keys are the encodings of \<open>InternalKey\<close>.
\<close>

section \<open>File descriptor\<close>

definition kFileNumberMask :: u64 where "kFileNumberMask = 0x3FFFFFFFFFFFFFFF"

definition PackFileNumberAndPathId :: "u64 \<Rightarrow> u64 \<Rightarrow> u64" where
  "PackFileNumberAndPathId number path_id = number OR (path_id * (kFileNumberMask + 1))"

record FileDescriptor =
  packed_number_and_path_id :: u64
  file_size :: u64
  smallest_seqno :: u64
  largest_seqno :: u64

definition FileDescriptor_new :: "u64 \<Rightarrow> u32 \<Rightarrow> u64 \<Rightarrow> u64 \<Rightarrow> u64 \<Rightarrow> FileDescriptor" where
  "FileDescriptor_new number path_id sz smallest_seq largest_seq =
     \<lparr>packed_number_and_path_id = PackFileNumberAndPathId number (ucast path_id), file_size = sz,
      smallest_seqno = smallest_seq, largest_seqno = largest_seq\<rparr>"

definition GetNumber :: "FileDescriptor \<Rightarrow> u64" where
  "GetNumber fd = packed_number_and_path_id fd AND kFileNumberMask"

definition GetPathId :: "FileDescriptor \<Rightarrow> u32" where
  "GetPathId fd = ucast (packed_number_and_path_id fd div (kFileNumberMask + 1))"

section \<open>File metadata\<close>

definition kUnknownEpochNumber :: u64 where "kUnknownEpochNumber = 0"
definition kInvalidBlobFileNumber :: u64 where "kInvalidBlobFileNumber = 0"
definition kUnknownTemperature :: byte where "kUnknownTemperature = 0"
definition kColdTemperature :: byte where "kColdTemperature = 0x0C"
definition kUnknownFileChecksum :: key where "kUnknownFileChecksum = []"
definition kUnknownFileChecksumFuncName :: key where
  "kUnknownFileChecksumFuncName = [0x55, 0x6E, 0x6B, 0x6E, 0x6F, 0x77, 0x6E]"

record FileMetaData =
  fd :: FileDescriptor
  smallest :: key
  largest :: key
  compensated_file_size :: u64
  compensated_range_deletion_size :: u64
  being_compacted :: bool
  marked_for_compaction :: bool
  temperature :: byte
  oldest_blob_file_number :: u64
  oldest_ancester_time :: u64
  file_creation_time :: u64
  epoch_number :: u64
  file_checksum :: key
  file_checksum_func_name :: key
  unique_id :: "u64 \<times> u64"
  tail_size :: u64
  user_defined_timestamps_persisted :: bool

definition FileMetaData_default :: FileMetaData where
  "FileMetaData_default =
     \<lparr>fd = FileDescriptor_new 0 0 0 kMaxSequenceNumber 0, smallest = [], largest = [],
      compensated_file_size = 0, compensated_range_deletion_size = 0, being_compacted = False,
      marked_for_compaction = False, temperature = kUnknownTemperature,
      oldest_blob_file_number = kInvalidBlobFileNumber, oldest_ancester_time = 0,
      file_creation_time = 0, epoch_number = kUnknownEpochNumber,
      file_checksum = kUnknownFileChecksum, file_checksum_func_name = kUnknownFileChecksumFuncName,
      unique_id = (0, 0), tail_size = 0, user_defined_timestamps_persisted = True\<rparr>"

abbreviation smallest_user_key :: "FileMetaData \<Rightarrow> key" where
  "smallest_user_key f \<equiv> ExtractUserKey (smallest f)"

abbreviation largest_user_key :: "FileMetaData \<Rightarrow> key" where
  "largest_user_key f \<equiv> ExtractUserKey (largest f)"

abbreviation GetFileSize :: "FileMetaData \<Rightarrow> u64" where
  "GetFileSize f \<equiv> file_size (fd f)"

definition InternalKey_Valid :: "key \<Rightarrow> bool" where
  "InternalKey_Valid k = (case ParseInternalKey k of Inl _ \<Rightarrow> False | Inr _ \<Rightarrow> True)"

section \<open>Blob index\<close>

datatype BlobIndex =
    InlinedTTL (bi_expiration: u64) (bi_value: key)
  | Blob (bi_file_number: u64) (bi_offset: u64) (bi_size: u64) (bi_compression: byte)
  | BlobTTL (bi_expiration: u64) (bi_file_number: u64) (bi_offset: u64) (bi_size: u64) (bi_compression: byte)

fun BlobIndex_Encode :: "BlobIndex \<Rightarrow> key" where
  "BlobIndex_Encode (InlinedTTL expiration val) = PutVarint64 [0] expiration @ val"
| "BlobIndex_Encode (Blob number offset sz compression) =
     PutVarint64 (PutVarint64 (PutVarint64 [1] number) offset) sz @ [compression]"
| "BlobIndex_Encode (BlobTTL expiration number offset sz compression) =
     PutVarint64 (PutVarint64 (PutVarint64 (PutVarint64 [2] expiration) number) offset) sz @ [compression]"

datatype blob_error = UnknownBlobType byte | CorruptedExpiration | CorruptedBlobOffset

definition decode_blob_ref :: "key \<Rightarrow> blob_error + (u64 \<times> u64 \<times> u64 \<times> byte)" where
  "decode_blob_ref s =
     (case GetVarint64 s of
        None \<Rightarrow> Inl CorruptedBlobOffset
      | Some (number, s1) \<Rightarrow>
          (case GetVarint64 s1 of
             None \<Rightarrow> Inl CorruptedBlobOffset
           | Some (offset, s2) \<Rightarrow>
               (case GetVarint64 s2 of
                  Some (sz, [compression]) \<Rightarrow> Inr (number, offset, sz, compression)
                | _ \<Rightarrow> Inl CorruptedBlobOffset)))"

text \<open>The empty slice is excluded by an assertion; \<open>None\<close> stands for it.\<close>

definition BlobIndex_DecodeFrom :: "key \<Rightarrow> (blob_error + BlobIndex) option" where
  "BlobIndex_DecodeFrom s =
     (case s of
        [] \<Rightarrow> None
      | t # rest \<Rightarrow> Some
          (if t \<ge> 3 then Inl (UnknownBlobType t)
           else if t = 1 then
             map_sum id (\<lambda>(n, off, sz, c). Blob n off sz c) (decode_blob_ref rest)
           else
             (case GetVarint64 rest of
                None \<Rightarrow> Inl CorruptedExpiration
              | Some (expiration, rest') \<Rightarrow>
                  if t = 0 then Inr (InlinedTTL expiration rest')
                  else map_sum id (\<lambda>(n, off, sz, c). BlobTTL expiration n off sz c) (decode_blob_ref rest'))))"

section \<open>Key boundaries\<close>

datatype boundary_error = BadBlobIndex blob_error | InvalidBlobFileNumber

definition track_blob_file :: "key \<Rightarrow> FileMetaData \<Rightarrow> (boundary_error + FileMetaData) option" where
  "track_blob_file val f =
     (case BlobIndex_DecodeFrom val of
        None \<Rightarrow> None
      | Some (Inl e) \<Rightarrow> Some (Inl (BadBlobIndex e))
      | Some (Inr (Blob number offset sz compression)) \<Rightarrow>
          Some (if number = kInvalidBlobFileNumber then Inl InvalidBlobFileNumber
                else if oldest_blob_file_number f = kInvalidBlobFileNumber \<or> oldest_blob_file_number f > number
                then Inr (f\<lparr>oldest_blob_file_number := number\<rparr>)
                else Inr f)
      | Some (Inr _) \<Rightarrow> Some (Inr f))"

definition note_seqno :: "u64 \<Rightarrow> FileMetaData \<Rightarrow> FileMetaData" where
  "note_seqno seqno f =
     f\<lparr>fd := (fd f)\<lparr>smallest_seqno := min (smallest_seqno (fd f)) seqno,
                    largest_seqno := max (largest_seqno (fd f)) seqno\<rparr>\<rparr>"

definition UpdateBoundaries ::
  "key \<Rightarrow> key \<Rightarrow> u64 \<Rightarrow> byte \<Rightarrow> FileMetaData \<Rightarrow> (boundary_error + FileMetaData) option" where
  "UpdateBoundaries k val seqno value_type f =
     (case (if value_type = kTypeBlobIndex then track_blob_file val f else Some (Inr f)) of
        None \<Rightarrow> None
      | Some (Inl e) \<Rightarrow> Some (Inl e)
      | Some (Inr f1) \<Rightarrow>
          Some (Inr (note_seqno seqno
            (f1\<lparr>smallest := if smallest f1 = [] then k else smallest f1, largest := k\<rparr>))))"

definition UpdateBoundariesForRange ::
  "(key \<Rightarrow> key \<Rightarrow> int) \<Rightarrow> key \<Rightarrow> key \<Rightarrow> u64 \<Rightarrow> FileMetaData \<Rightarrow> FileMetaData" where
  "UpdateBoundariesForRange icmp start finish seqno f =
     note_seqno seqno
       (f\<lparr>smallest := if smallest f = [] \<or> icmp start (smallest f) < 0 then start else smallest f,
          largest := if largest f = [] \<or> icmp (largest f) finish < 0 then finish else largest f\<rparr>)"

section \<open>Lemmas\<close>

lemma kFileNumberMask_mask: "kFileNumberMask = mask 62" "kFileNumberMask + 1 = 2 ^ 62"
  by (simp_all add: kFileNumberMask_def mask_eq_exp_minus_1)

lemma less_exp_no_bit:
  fixes w :: u64
  assumes "unat w < 2 ^ n" and "n \<le> m"
  shows "\<not> bit w m"
proof -
  have "take_bit n (unat w) = unat w" using assms(1) by (simp add: take_bit_nat_eq_self)
  then have "take_bit n w = w" by (metis unsigned_take_bit_eq unsigned_word_eqI)
  then show ?thesis using assms(2) by (metis bit_take_bit_iff not_less)
qed

lemma GetNumber_new:
  assumes "number \<le> kFileNumberMask" and "path_id \<le> 3"
  shows "GetNumber (FileDescriptor_new number path_id sz a b) = number"
    and "GetPathId (FileDescriptor_new number path_id sz a b) = path_id"
proof -
  let ?p = "ucast path_id :: u64"
  have "unat number < 2 ^ 62" using assms(1) by (simp add: word_le_nat_alt kFileNumberMask_def)
  note n = less_exp_no_bit [OF this]
  have "unat ?p < 2 ^ 2"
    using assms(2) by (auto simp: word_le_nat_alt unsigned_ucast_eq intro: order.strict_trans1 [OF take_bit_nat_less_eq_self])
  note p = less_exp_no_bit [OF this]
  have q: "PackFileNumberAndPathId number ?p = number OR push_bit 62 ?p"
    unfolding PackFileNumberAndPathId_def kFileNumberMask_mask(2) by (simp add: push_bit_eq_mult)
  show "GetNumber (FileDescriptor_new number path_id sz a b) = number"
    unfolding GetNumber_def FileDescriptor_new_def kFileNumberMask_mask(1) FileDescriptor.simps q using n
    by (auto intro!: bit_word_eqI simp: bit_simps) (meson not_le)
  have "(number OR push_bit 62 ?p) div 2 ^ 62 = drop_bit 62 (number OR push_bit 62 ?p)"
    by (simp add: drop_bit_eq_div)
  also have "\<dots> = ?p" using n p by (intro bit_word_eqI) (auto simp: bit_simps intro: ccontr simp flip: not_le)
  finally have "GetPathId (FileDescriptor_new number path_id sz a b) = ucast ?p"
    unfolding GetPathId_def FileDescriptor_new_def kFileNumberMask_mask(2) FileDescriptor.simps q by simp
  also have "ucast ?p = path_id" by (intro bit_word_eqI) (simp add: bit_simps)
  finally show "GetPathId (FileDescriptor_new number path_id sz a b) = path_id" .
qed

lemma GetVarint64_Put: "GetVarint64 (EncodeVarint64 v @ rest) = Some (v, rest)"
  by (simp add: GetVarint64_def GetVarint64Ptr_Encode)

lemma decode_blob_ref_Encode:
  "decode_blob_ref (EncodeVarint64 n @ EncodeVarint64 off @ EncodeVarint64 sz @ [c]) = Inr (n, off, sz, c)"
  by (simp add: decode_blob_ref_def GetVarint64_Put)

lemma BlobIndex_roundtrip: "BlobIndex_DecodeFrom (BlobIndex_Encode b) = Some (Inr b)"
  by (cases b)
     (simp_all add: BlobIndex_DecodeFrom_def PutVarint64_def GetVarint64_Put decode_blob_ref_Encode word_le_nat_alt)

text \<open>
  \<open>boundaries_ok icmp f\<close>: the boundaries are either both unset or both set and ordered, as every
  reader of a file's range expects.
\<close>

definition boundaries_ok :: "(key \<Rightarrow> key \<Rightarrow> int) \<Rightarrow> FileMetaData \<Rightarrow> bool" where
  "boundaries_ok icmp f \<longleftrightarrow>
     (smallest f = [] \<and> largest f = [] \<or>
      smallest f \<noteq> [] \<and> largest f \<noteq> [] \<and> icmp (smallest f) (largest f) \<le> 0)"

lemma note_seqno_fields [simp]:
  "smallest (note_seqno s f) = smallest f" "largest (note_seqno s f) = largest f"
  "smallest_seqno (fd (note_seqno s f)) = min (smallest_seqno (fd f)) s"
  "largest_seqno (fd (note_seqno s f)) = max (largest_seqno (fd f)) s"
  by (simp_all add: note_seqno_def)

lemma track_blob_file_fields:
  "track_blob_file val f = Some (Inr g) \<Longrightarrow> smallest g = smallest f \<and> largest g = largest f \<and> fd g = fd f"
  by (auto simp: track_blob_file_def split: option.splits sum.splits BlobIndex.splits if_splits)

lemma UpdateBoundaries_fields:
  assumes "UpdateBoundaries k val seqno vt f = Some (Inr g)"
  shows "smallest g = (if smallest f = [] then k else smallest f)" and "largest g = k"
    and "smallest_seqno (fd g) = min (smallest_seqno (fd f)) seqno"
    and "largest_seqno (fd g) = max (largest_seqno (fd f)) seqno"
proof -
  obtain f1 where "(if vt = kTypeBlobIndex then track_blob_file val f else Some (Inr f)) = Some (Inr f1)"
    and g: "g = note_seqno seqno (f1\<lparr>smallest := if smallest f1 = [] then k else smallest f1, largest := k\<rparr>)"
    using assms unfolding UpdateBoundaries_def by (auto split: option.splits sum.splits)
  then have "smallest f1 = smallest f \<and> fd f1 = fd f"
    using track_blob_file_fields [of val f f1] by (auto split: if_splits)
  then show "smallest g = (if smallest f = [] then k else smallest f)" and "largest g = k"
    and "smallest_seqno (fd g) = min (smallest_seqno (fd f)) seqno"
    and "largest_seqno (fd g) = max (largest_seqno (fd f)) seqno"
    by (simp_all add: g)
qed

end
