(* ===== verification/Edit_Parts.thy ===== *)
theory Edit_Parts
  imports File_Meta
begin

text \<open>
  The parts of a version edit with an encoding of their own: \<open>BlobFileAddition\<close> and
  \<open>BlobFileGarbage\<close> (\<open>db/blob/blob_file_addition.cc\<close>, \<open>db/blob/blob_file_garbage.cc\<close>),
  \<open>WalAddition\<close> and \<open>WalDeletion\<close> (\<open>db/wal_edit.cc\<close>) and the bytes of a unique id
  (\<open>table/unique_id.cc\<close>).

  A decoder returns an error message or the value with the rest of the input. The objects are decoded
  into freshly constructed ones, as every caller does.
\<close>

section \<open>Reading slices\<close>

definition get_slice :: "key \<Rightarrow> (key \<times> key) option" where
  "get_slice input =
     (case GetLengthPrefixedSlice input of (rest, Some v) \<Rightarrow> Some (v, rest) | (_, None) \<Rightarrow> None)"

lemma varint_loop_shorter: "varint_loop n shift acc s = Some (v, rest) \<Longrightarrow> length rest < length s"
  by (induction n shift acc s rule: varint_loop.induct) (auto simp: Let_def split: if_splits)

lemma GetVarint32_shorter: "GetVarint32 s = Some (v, rest) \<Longrightarrow> length rest < length s"
  unfolding GetVarint32_def GetVarint32Ptr_eq GetVarint32PtrFallback_def by (rule varint_loop_shorter)

lemma GetVarint64_shorter: "GetVarint64 s = Some (v, rest) \<Longrightarrow> length rest < length s"
  unfolding GetVarint64_def GetVarint64Ptr_def by (rule varint_loop_shorter)

lemma get_slice_shorter: "get_slice s = Some (v, rest) \<Longrightarrow> length rest < length s"
  by (auto simp: get_slice_def GetLengthPrefixedSlice_def split: option.splits prod.splits if_splits
      dest!: GetVarint32_shorter)

lemma GetVarint32_Encode [simp]: "GetVarint32 (EncodeVarint32 v @ rest) = Some (v, rest)"
  by (simp add: GetVarint32_def)

lemma GetVarint64_Encode [simp]: "GetVarint64 (EncodeVarint64 v @ rest) = Some (v, rest)"
  by (rule GetVarint64_Put)

lemma GetVarint64_Encode_all [simp]: "GetVarint64 (EncodeVarint64 v) = Some (v, [])"
  using GetVarint64_Encode [of v "[]"] by simp

definition enc_slice :: "key \<Rightarrow> key" where
  "enc_slice v = EncodeVarint32 (word_of_nat (length v)) @ v"

lemma PutLengthPrefixedSlice_eq: "PutLengthPrefixedSlice dst v = dst @ enc_slice v"
  by (simp add: PutLengthPrefixedSlice_def PutVarint32_def enc_slice_def)

lemma get_slice_enc [simp]: "length v < 2 ^ 32 \<Longrightarrow> get_slice (enc_slice v @ rest) = Some (v, rest)"
  using GetLengthPrefixedSlice_Put [of v "[]" rest] by (simp add: get_slice_def PutLengthPrefixedSlice_eq)

lemmas put_defs = PutVarint32_def PutVarint64_def PutVarint32Varint32_def PutVarint32Varint64_def
  PutVarint64Varint64_def PutVarint32Varint32Varint64_def PutFixed64_def PutLengthPrefixedSlice_eq

section \<open>Blob files\<close>

definition kEndMarker :: u32 where "kEndMarker = 0"
definition kForwardIncompatibleMask :: u32 where "kForwardIncompatibleMask = 0x40"

function skip_custom_fields :: "key \<Rightarrow> string + key" where
  "skip_custom_fields input =
     (case GetVarint32 input of
        None \<Rightarrow> Inl ''Error decoding custom field tag''
      | Some (tag, input1) \<Rightarrow>
          if tag = kEndMarker then Inr input1
          else if tag AND kForwardIncompatibleMask \<noteq> 0 then Inl ''Forward incompatible custom field encountered''
          else
            (case get_slice input1 of
               None \<Rightarrow> Inl ''Error decoding custom field value''
             | Some (custom_field_value, input2) \<Rightarrow> skip_custom_fields input2))"
  by pat_completeness auto
termination
  by (relation "measure length") (auto dest!: GetVarint32_shorter get_slice_shorter)

declare skip_custom_fields.simps [simp del]

record BlobFileAddition =
  add_blob_file_number :: u64
  total_blob_count :: u64
  total_blob_bytes :: u64
  checksum_method :: key
  checksum_value :: key

definition BlobFileAddition_EncodeTo :: "key \<Rightarrow> BlobFileAddition \<Rightarrow> key" where
  "BlobFileAddition_EncodeTo dst b =
     (let d1 = PutVarint64 dst (add_blob_file_number b);
          d2 = PutVarint64 d1 (total_blob_count b);
          d3 = PutVarint64 d2 (total_blob_bytes b);
          d4 = PutLengthPrefixedSlice d3 (checksum_method b);
          d5 = PutLengthPrefixedSlice d4 (checksum_value b)
      in PutVarint32 d5 kEndMarker)"

definition BlobFileAddition_DecodeFrom :: "key \<Rightarrow> string + (BlobFileAddition \<times> key)" where
  "BlobFileAddition_DecodeFrom input =
     (case GetVarint64 input of
        None \<Rightarrow> Inl ''Error decoding blob file number''
      | Some (number, i1) \<Rightarrow>
     (case GetVarint64 i1 of
        None \<Rightarrow> Inl ''Error decoding total blob count''
      | Some (blobs, i2) \<Rightarrow>
     (case GetVarint64 i2 of
        None \<Rightarrow> Inl ''Error decoding total blob bytes''
      | Some (bytes, i3) \<Rightarrow>
     (case get_slice i3 of
        None \<Rightarrow> Inl ''Error decoding checksum method''
      | Some (meth, i4) \<Rightarrow>
     (case get_slice i4 of
        None \<Rightarrow> Inl ''Error decoding checksum value''
      | Some (checksum, i5) \<Rightarrow>
          map_sum id (\<lambda>rest. (\<lparr>add_blob_file_number = number, total_blob_count = blobs, total_blob_bytes = bytes,
                               checksum_method = meth, checksum_value = checksum\<rparr>, rest))
            (skip_custom_fields i5))))))"

record BlobFileGarbage =
  garbage_blob_file_number :: u64
  garbage_blob_count :: u64
  garbage_blob_bytes :: u64

definition BlobFileGarbage_EncodeTo :: "key \<Rightarrow> BlobFileGarbage \<Rightarrow> key" where
  "BlobFileGarbage_EncodeTo dst b =
     (let d1 = PutVarint64 dst (garbage_blob_file_number b);
          d2 = PutVarint64 d1 (garbage_blob_count b);
          d3 = PutVarint64 d2 (garbage_blob_bytes b)
      in PutVarint32 d3 kEndMarker)"

definition BlobFileGarbage_DecodeFrom :: "key \<Rightarrow> string + (BlobFileGarbage \<times> key)" where
  "BlobFileGarbage_DecodeFrom input =
     (case GetVarint64 input of
        None \<Rightarrow> Inl ''Error decoding blob file number''
      | Some (number, i1) \<Rightarrow>
     (case GetVarint64 i1 of
        None \<Rightarrow> Inl ''Error decoding garbage blob count''
      | Some (blobs, i2) \<Rightarrow>
     (case GetVarint64 i2 of
        None \<Rightarrow> Inl ''Error decoding garbage blob bytes''
      | Some (bytes, i3) \<Rightarrow>
          map_sum id (\<lambda>rest. (\<lparr>garbage_blob_file_number = number, garbage_blob_count = blobs, garbage_blob_bytes = bytes\<rparr>, rest))
            (skip_custom_fields i3))))"

section \<open>Write-ahead logs\<close>

definition kUnknownWalSize :: u64 where "kUnknownWalSize = -1"
definition kWalTerminate :: u32 where "kWalTerminate = 1"
definition kSyncedSize :: u32 where "kSyncedSize = 2"

record WalAddition =
  wal_number :: u64
  synced_size_bytes :: u64

definition HasSyncedSize :: "u64 \<Rightarrow> bool" where
  "HasSyncedSize sz \<longleftrightarrow> sz \<noteq> kUnknownWalSize"

definition WalAddition_EncodeTo :: "key \<Rightarrow> WalAddition \<Rightarrow> key" where
  "WalAddition_EncodeTo dst w =
     (let d1 = PutVarint64 dst (wal_number w);
          d2 = (if HasSyncedSize (synced_size_bytes w)
                then PutVarint64 (PutVarint32 d1 kSyncedSize) (synced_size_bytes w) else d1)
      in PutVarint32 d2 kWalTerminate)"

text \<open>The loop over the tags, with the synced size read so far. The message names the unknown tag.\<close>

function decode_wal_tags :: "key \<Rightarrow> u64 \<Rightarrow> string + (u64 \<times> key)" where
  "decode_wal_tags src sz =
     (case GetVarint32 src of
        None \<Rightarrow> Inl ''Error decoding tag''
      | Some (tag, src1) \<Rightarrow>
          if tag = kSyncedSize then
            (case GetVarint64 src1 of
               None \<Rightarrow> Inl ''Error decoding WAL file size''
             | Some (sz', src2) \<Rightarrow> decode_wal_tags src2 sz')
          else if tag = kWalTerminate then Inr (sz, src1)
          else Inl ''Unknown tag'')"
  by pat_completeness auto
termination
  by (relation "measure (length \<circ> fst)") (auto dest!: GetVarint32_shorter GetVarint64_shorter)

declare decode_wal_tags.simps [simp del]

definition WalAddition_DecodeFrom :: "key \<Rightarrow> string + (WalAddition \<times> key)" where
  "WalAddition_DecodeFrom src =
     (case GetVarint64 src of
        None \<Rightarrow> Inl ''Error decoding WAL log number''
      | Some (number, src1) \<Rightarrow>
          map_sum id (\<lambda>(sz, rest). (\<lparr>wal_number = number, synced_size_bytes = sz\<rparr>, rest))
            (decode_wal_tags src1 kUnknownWalSize))"

text \<open>A deletion is its log number; 0 is the empty deletion.\<close>

definition WalDeletion_EncodeTo :: "key \<Rightarrow> u64 \<Rightarrow> key" where
  "WalDeletion_EncodeTo dst number = PutVarint64 dst number"

definition WalDeletion_DecodeFrom :: "key \<Rightarrow> string + (u64 \<times> key)" where
  "WalDeletion_DecodeFrom src =
     (case GetVarint64 src of None \<Rightarrow> Inl ''Error decoding WAL log number'' | Some r \<Rightarrow> Inr r)"

section \<open>Unique ids\<close>

text \<open>The third word is present in an extended id.\<close>

definition EncodeUniqueIdBytes :: "u64 \<times> u64 \<Rightarrow> u64 option \<Rightarrow> key" where
  "EncodeUniqueIdBytes u ext =
     EncodeFixed64 (fst u) @ EncodeFixed64 (snd u) @ (case ext of None \<Rightarrow> [] | Some x \<Rightarrow> EncodeFixed64 x)"

definition DecodeUniqueIdBytes :: "bool \<Rightarrow> key \<Rightarrow> ((u64 \<times> u64) \<times> u64 option) option" where
  "DecodeUniqueIdBytes extended uid =
     (if length uid \<noteq> (if extended then 24 else 16) then None
      else Some ((DecodeFixed64 uid, DecodeFixed64 (drop 8 uid)),
                 if extended then Some (DecodeFixed64 (drop 16 uid)) else None))"

section \<open>Round trips\<close>

lemma skip_custom_fields_end [simp]: "skip_custom_fields (EncodeVarint32 kEndMarker @ rest) = Inr rest"
  by (subst skip_custom_fields.simps) simp

lemma BlobFileAddition_roundtrip:
  "length (checksum_method b) < 2 ^ 32 \<Longrightarrow> length (checksum_value b) < 2 ^ 32 \<Longrightarrow>
     BlobFileAddition_DecodeFrom (BlobFileAddition_EncodeTo [] b @ rest) = Inr (b, rest)"
  by (simp add: BlobFileAddition_DecodeFrom_def BlobFileAddition_EncodeTo_def put_defs)

lemma BlobFileGarbage_roundtrip: "BlobFileGarbage_DecodeFrom (BlobFileGarbage_EncodeTo [] b @ rest) = Inr (b, rest)"
  by (simp add: BlobFileGarbage_DecodeFrom_def BlobFileGarbage_EncodeTo_def put_defs)

lemma decode_wal_tags_simps [simp]:
  "decode_wal_tags (EncodeVarint32 kWalTerminate @ rest) sz = Inr (sz, rest)"
  "decode_wal_tags (EncodeVarint32 kSyncedSize @ EncodeVarint64 sz' @ rest) sz = decode_wal_tags rest sz'"
  by (simp_all add: decode_wal_tags.simps [of "EncodeVarint32 _ @ _"] kWalTerminate_def kSyncedSize_def)

lemma WalAddition_roundtrip: "WalAddition_DecodeFrom (WalAddition_EncodeTo [] w @ rest) = Inr (w, rest)"
  by (auto simp: WalAddition_DecodeFrom_def WalAddition_EncodeTo_def put_defs HasSyncedSize_def Let_def)

lemma WalDeletion_roundtrip: "WalDeletion_DecodeFrom (WalDeletion_EncodeTo [] n @ rest) = Inr (n, rest)"
  by (simp add: WalDeletion_DecodeFrom_def WalDeletion_EncodeTo_def put_defs)

lemma UniqueId_roundtrip: "DecodeUniqueIdBytes (ext \<noteq> None) (EncodeUniqueIdBytes u ext) = Some (u, ext)"
proof -
  have "DecodeFixed64 (EncodeFixed64 v) = v" for v using DecodeFixed_Encode(1) [of v "[]"] by simp
  then show ?thesis by (cases ext) (auto simp: DecodeUniqueIdBytes_def EncodeUniqueIdBytes_def)
qed

section \<open>Progress\<close>

lemma skip_custom_fields_shorter: "skip_custom_fields s = Inr rest \<Longrightarrow> length rest < length s"
proof (induction s rule: measure_induct_rule [where f = length])
  case (less s)
  from less.prems show ?case
    by (subst (asm) skip_custom_fields.simps)
       (auto split: option.splits prod.splits if_splits dest!: GetVarint32_shorter get_slice_shorter;
        meson less.IH less_trans)
qed

end
