(* ===== verification/Bucket_Flush.thy ===== *)
theory Bucket_Flush
  imports Bucket_Properties Edit_Parts
begin

text \<open>
  The bucket flush, \<open>FlushJob::WriteBucketLevel0Table\<close> of \<open>db/flush_job.cc\<close>: the choice of the first
  split points, the counting of entries per bucket of a snapshot, the bounded iterators that feed
  one table builder per non-empty bucket, the sequential and the parallel build, and the commit.

  The memtables are given by the list of entries their merging iterator yields. \<open>BuildTable\<close>
  (\<open>db/builder.cc\<close>) is the parameter \<open>build\<close>; the regular flush the code falls back to is the
  outcome \<open>RegularFlush\<close>. Logging, statistics counters and rate limiting are left out.
\<close>

section \<open>Data\<close>

type_synonym entry = "ParsedInternalKey \<times> key"

abbreviation ukey :: "entry \<Rightarrow> key" where "ukey e \<equiv> user_key (fst e)"

text \<open>The parts of \<open>FileMetaData\<close> that a flush fills in.\<close>

record bucket_meta =
  bm_number :: u64
  bm_epoch :: u64
  bm_size :: u64
  bm_smallest :: key
  bm_largest :: key

text \<open>
  A table builder either fails or reports the size, the user keys at both ends and the blob files
  it has written next to the table (what \<open>BuildTable\<close> appends to its \<open>blob_file_additions\<close>).
\<close>

datatype build_result = BuildError
  | Built (built_size: u64) (built_smallest: key) (built_largest: key) (built_blobs: "BlobFileAddition list")

type_synonym builder = "u64 \<Rightarrow> entry list \<Rightarrow> (key \<times> key) list \<Rightarrow> build_result"

datatype flush_status = FlushOk | BuildFailed | BuildAborted | SyncFailed

section \<open>The first split points\<close>

text \<open>The inner loop: step over entries until \<open>target_count\<close> of them have been passed.\<close>

fun advance :: "u64 \<Rightarrow> u64 \<Rightarrow> entry list \<Rightarrow> u64 \<times> entry list" where
  "advance target_count cnt [] = (cnt, [])"
| "advance target_count cnt (e # it) =
     (if cnt < target_count then advance target_count (cnt + 1) it else (cnt, e # it))"

fun split_points_loop :: "u64 \<Rightarrow> u64 list \<Rightarrow> u64 \<Rightarrow> entry list \<Rightarrow> key list" where
  "split_points_loop entries_per_bucket [] cnt it = []"
| "split_points_loop entries_per_bucket (i # is) cnt it =
     (if it = [] then []
      else
        let (cnt', it') = advance (i * entries_per_bucket) cnt it
        in (if it' \<noteq> [] then [ukey (hd it')] else []) @
           split_points_loop entries_per_bucket is cnt' it')"

text \<open>\<open>None\<close>: the division by a target of zero buckets.\<close>

definition first_split_points :: "int \<Rightarrow> u64 \<Rightarrow> entry list \<Rightarrow> (key list \<times> u64) option" where
  "first_split_points num_target total_num_input_entries entries =
     (if num_target = 0 then None
      else
        let entries_per_bucket = total_num_input_entries div word_of_int num_target
        in Some (if entries_per_bucket > 0
                 then split_points_loop entries_per_bucket
                        (map word_of_nat [1..<nat num_target]) 0 entries
                 else [], entries_per_bucket))"

section \<open>Counting\<close>

definition count_entry :: "BucketSnapshot \<Rightarrow> entry \<Rightarrow> u64 list \<times> key list list \<Rightarrow> u64 list \<times> key list list" where
  "count_entry snap e st =
     (let (counts, keys) = st; idx = FindBucketInSnapshot snap (ukey e) in
      if 0 \<le> idx \<and> idx < int (length (ranges snap))
      then (counts[nat idx := counts ! nat idx + 1], keys[nat idx := keys ! nat idx @ [ukey e]])
      else (counts, keys))"

definition count_entries :: "BucketSnapshot \<Rightarrow> entry list \<Rightarrow> u64 list \<times> key list list" where
  "count_entries snap entries =
     fold (count_entry snap) entries
       (replicate (length (ranges snap)) 0, replicate (length (ranges snap)) [])"

definition bucket_medians :: "key list list \<Rightarrow> key list" where
  "bucket_medians = map (\<lambda>ks. if ks = [] then [] else median_of ks)"

definition non_empty_buckets :: "u64 list \<Rightarrow> nat list" where
  "non_empty_buckets counts = filter (\<lambda>i. counts ! i > 0) [0..<length counts]"

section \<open>The bounded iterator\<close>

definition bbi_SeekToFirst :: "(key \<Rightarrow> key \<Rightarrow> int) \<Rightarrow> key \<Rightarrow> entry list \<Rightarrow> entry list" where
  "bbi_SeekToFirst cmp lo entries =
     (if lo = [] then entries
      else
        let seek_key = \<lparr>user_key = lo, sequence = kMaxSequenceNumber, vtype = kValueTypeForSeek\<rparr>
        in dropWhile (\<lambda>e. ikc_Compare_parsed cmp (fst e) seek_key < 0) entries)"

definition bbi_Valid :: "key \<Rightarrow> key \<Rightarrow> entry list \<Rightarrow> bool" where
  "bbi_Valid lo hi it =
     (case it of
        [] \<Rightarrow> False
      | e # _ \<Rightarrow> if hi \<noteq> [] \<and> slice_compare (ukey e) hi \<ge> 0 then False
                 else if lo \<noteq> [] \<and> slice_compare (ukey e) lo < 0 then False
                 else True)"

text \<open>What a reader that loops \<open>while (Valid()) ... Next()\<close> sees.\<close>

fun bbi_drain :: "key \<Rightarrow> key \<Rightarrow> entry list \<Rightarrow> entry list" where
  "bbi_drain lo hi [] = []"
| "bbi_drain lo hi (e # it) = (if bbi_Valid lo hi (e # it) then e # bbi_drain lo hi it else [])"

definition bucket_input :: "(key \<Rightarrow> key \<Rightarrow> int) \<Rightarrow> BucketSnapshot \<Rightarrow> entry list \<Rightarrow> nat \<Rightarrow> entry list" where
  "bucket_input cmp snap entries i =
     (let (lo, hi) = ranges snap ! i in bbi_drain lo hi (bbi_SeekToFirst cmp lo entries))"

section \<open>Building the tables\<close>

text \<open>
  \<open>build_state\<close>: the files built so far, the number of files per bucket, the job's
  \<open>blob_file_additions\<close>, and the next file and epoch numbers (\<open>NewFileNumber\<close>, \<open>NewEpochNumber\<close>).
\<close>

record build_state =
  metas :: "bucket_meta list"
  file_counts :: "u64 list"
  new_blobs :: "BlobFileAddition list"
  next_file :: u64
  next_epoch :: u64

definition add_built :: "nat \<Rightarrow> u64 \<Rightarrow> u64 \<Rightarrow> build_result \<Rightarrow> build_state \<Rightarrow> build_state" where
  "add_built i number ep r st =
     (if built_size r > 0
      then st\<lparr>metas := metas st @ [\<lparr>bm_number = number, bm_epoch = ep, bm_size = built_size r,
                                   bm_smallest = built_smallest r, bm_largest = built_largest r\<rparr>],
              file_counts := (file_counts st)[i := file_counts st ! i + 1]\<rparr>
      else st)"

text \<open>
  The sequential path. The builder appends to the job's own \<open>blob_file_additions\<close>; the list of
  range deletions it is given is always empty.
\<close>

fun build_sequential ::
  "builder \<Rightarrow> (nat \<Rightarrow> entry list) \<Rightarrow> nat list \<Rightarrow> build_state \<Rightarrow> flush_status \<times> build_state" where
  "build_sequential build input [] st = (FlushOk, st)"
| "build_sequential build input (i # is) st =
     (let number = next_file st; ep = next_epoch st;
          st' = st\<lparr>next_file := number + 1, next_epoch := ep + 1\<rparr>
      in case build number (input i) [] of
           BuildError \<Rightarrow> (BuildFailed, st')
         | r \<Rightarrow> build_sequential build input is
                  (add_built i number ep r (st'\<lparr>new_blobs := new_blobs st' @ built_blobs r\<rparr>)))"

text \<open>
  The parallel path: the contexts of all non-empty buckets are prepared first, then built by
  concurrent threads. A thread gives up (\<open>None\<close>) only when it sees that another one has failed;
  \<open>gives_up\<close> stands for what each thread happens to see. Each thread hands its builder a local
  vector \<open>bucket_blob_additions\<close> that ends with the thread: the collecting loop only sees the
  status, the meta data and the files to sync of a context.
\<close>

fun prepare_contexts :: "nat list \<Rightarrow> build_state \<Rightarrow> (nat \<times> u64 \<times> u64) list \<times> build_state" where
  "prepare_contexts [] st = ([], st)"
| "prepare_contexts (i # is) st =
     (let number = next_file st; ep = next_epoch st;
          (ctxs, st') = prepare_contexts is (st\<lparr>next_file := number + 1, next_epoch := ep + 1\<rparr>)
      in ((i, number, ep) # ctxs, st'))"

definition build_contexts ::
  "builder \<Rightarrow> (nat \<Rightarrow> bool) \<Rightarrow> (nat \<Rightarrow> entry list) \<Rightarrow> (nat \<times> u64 \<times> u64) list \<Rightarrow>
     (nat \<times> u64 \<times> u64 \<times> build_result option) list" where
  "build_contexts build gives_up input ctxs =
     (let has_error = (\<exists>(i, number, ep) \<in> set ctxs. \<not> gives_up i \<and> build number (input i) [] = BuildError)
      in map (\<lambda>(i, number, ep).
                (i, number, ep, if has_error \<and> gives_up i then None else Some (build number (input i) []))) ctxs)"

fun collect_contexts ::
  "(nat \<times> u64 \<times> u64 \<times> build_result option) list \<Rightarrow> build_state \<Rightarrow> flush_status \<times> build_state" where
  "collect_contexts [] st = (FlushOk, st)"
| "collect_contexts ((i, number, ep, res) # rest) st =
     (case res of
        None \<Rightarrow> (BuildAborted, st)
      | Some BuildError \<Rightarrow> (BuildFailed, st)
      | Some r \<Rightarrow> collect_contexts rest (add_built i number ep r st))"

definition build_parallel ::
  "builder \<Rightarrow> (nat \<Rightarrow> bool) \<Rightarrow> (nat \<Rightarrow> entry list) \<Rightarrow> nat list \<Rightarrow> build_state \<Rightarrow> flush_status \<times> build_state" where
  "build_parallel build gives_up input is st =
     (let (ctxs, st') = prepare_contexts is st
      in collect_contexts (build_contexts build gives_up input ctxs) st')"

section \<open>Results and commit\<close>

definition flush_results :: "BucketSnapshot \<Rightarrow> u64 list \<Rightarrow> u64 list \<Rightarrow> key list \<Rightarrow> BucketFlushResult list" where
  "flush_results snap fcounts counts medians =
     map (\<lambda>i. \<lparr>r_file_count = fcounts ! i, r_entry_count = counts ! i, r_data_bytes = 0,
               r_median_key = medians ! i, r_min_key = fst (ranges snap ! i), r_max_key = snd (ranges snap ! i)\<rparr>)
       [0..<length (ranges snap)]"

definition add_file_bytes :: "BucketSnapshot \<Rightarrow> bucket_meta \<Rightarrow> BucketFlushResult list \<Rightarrow> BucketFlushResult list" where
  "add_file_bytes snap meta rs =
     (let idx = FindBucketInSnapshot snap (bm_smallest meta) in
      if 0 \<le> idx \<and> idx < int (length (ranges snap))
      then rs[nat idx := (rs ! nat idx)\<lparr>r_data_bytes := r_data_bytes (rs ! nat idx) + bm_size meta\<rparr>]
      else rs)"

text \<open>
  The state of the column family that a flush reads and changes, with the registry of the files
  that running jobs are about to add.
\<close>

record PendingSplitFile =
  pf_job_id :: u64
  pf_index :: u32
  pf_smallest_key :: key
  pf_largest_key :: key

type_synonym pending_files = "(u64, PendingSplitFile list) omap"

record flush_env =
  mgr :: BucketManager
  pending_split_files :: pending_files
  env_file_number :: u64
  env_epoch_number :: u64

definition register_files :: "u64 \<Rightarrow> range list \<Rightarrow> pending_files \<Rightarrow> pending_files" where
  "register_files job_id file_ranges m =
     omap_upd job_id
       (map (\<lambda>i. \<lparr>pf_job_id = job_id, pf_index = word_of_nat i,
                  pf_smallest_key = fst (file_ranges ! i), pf_largest_key = snd (file_ranges ! i)\<rparr>)
          [0..<length file_ranges]) m"

definition all_file_ranges :: "pending_files \<Rightarrow> range list" where
  "all_file_ranges m =
     concat (map (\<lambda>(job_id, files). map (\<lambda>f. (pf_smallest_key f, pf_largest_key f)) files) m)"

definition RegisterPendingSplitFiles :: "u64 \<Rightarrow> range list \<Rightarrow> flush_env \<Rightarrow> flush_env" where
  "RegisterPendingSplitFiles job_id file_ranges env =
     env\<lparr>pending_split_files := register_files job_id file_ranges (pending_split_files env)\<rparr>"

definition UnregisterPendingSplitFiles :: "u64 \<Rightarrow> flush_env \<Rightarrow> flush_env" where
  "UnregisterPendingSplitFiles job_id env =
     env\<lparr>pending_split_files := omap_del job_id (pending_split_files env)\<rparr>"

definition GetAllPendingSplitFileRanges :: "flush_env \<Rightarrow> range list" where
  "GetAllPendingSplitFileRanges env = all_file_ranges (pending_split_files env)"

text \<open>
  The inputs of one flush: the options, what the memtables hold, and what the environment does
  meanwhile. \<open>fj_interference\<close> is the change that compactions make to the manager between the
  snapshot and the update of the statistics, \<open>fj_dir_sync_ok\<close> the result of the directory sync
  (true when none is requested).
\<close>

record flush_job =
  fj_job_id :: u64
  fj_cmp :: "key \<Rightarrow> key \<Rightarrow> int"
  fj_target :: int
  fj_parallel :: bool
  fj_l0_empty :: bool
  fj_total_entries :: u64
  fj_entries :: "entry list"
  fj_range_dels :: "(key \<times> key) list"
  fj_interference :: "BucketManager \<Rightarrow> BucketManager"
  fj_gives_up :: "nat \<Rightarrow> bool"
  fj_dir_sync_ok :: bool

text \<open>
  The outcome: a regular flush instead, or a status with the table files and the blob files added
  to the version edit.
\<close>

datatype flush_outcome = RegularFlush flush_env
  | BucketFlush flush_status flush_env "bucket_meta list" "BlobFileAddition list"

definition initialize_buckets :: "flush_job \<Rightarrow> flush_env \<Rightarrow> flush_env option" where
  "initialize_buckets job env =
     (if fj_l0_empty job \<and> \<not> initialized (mgr env)
      then map_option (\<lambda>(sp, per). env\<lparr>mgr := InitializeFromFirstFlush sp per (mgr env)\<rparr>)
             (first_split_points (fj_target job) (fj_total_entries job) (fj_entries job))
      else Some env)"

definition build_buckets ::
  "builder \<Rightarrow> flush_job \<Rightarrow> BucketSnapshot \<Rightarrow> u64 list \<Rightarrow> flush_env \<Rightarrow> flush_status \<times> build_state" where
  "build_buckets build job snap counts env =
     (let is = non_empty_buckets counts;
          input = bucket_input (fj_cmp job) snap (fj_entries job);
          st = \<lparr>metas = [], file_counts = replicate (length (ranges snap)) 0, new_blobs = [],
                next_file = env_file_number env, next_epoch = env_epoch_number env\<rparr>
      in if fj_parallel job \<and> length is > 1 then build_parallel build (fj_gives_up job) input is st
         else build_sequential build input is st)"

text \<open>
  What follows the build: the statistics on success, the directory sync, the end of the
  registration, and either the regular flush (no file was built) or the files and blob files for the edit.
\<close>

definition commit_flush ::
  "flush_job \<Rightarrow> BucketSnapshot \<Rightarrow> u64 list \<Rightarrow> key list \<Rightarrow> flush_env \<Rightarrow> flush_status \<Rightarrow> build_state \<Rightarrow> flush_outcome" where
  "commit_flush job snap counts medians env s st =
     (let mgr1 = fj_interference job (mgr env);
          mgr2 = (if s = FlushOk
                  then OnFlushCompleted (epoch snap)
                         (fold (add_file_bytes snap) (metas st)
                            (flush_results snap (file_counts st) counts medians)) mgr1
                  else mgr1);
          s' = (if s = FlushOk \<and> \<not> fj_dir_sync_ok job then SyncFailed else s);
          env2 = UnregisterPendingSplitFiles (fj_job_id job)
                   (env\<lparr>mgr := mgr2, env_file_number := next_file st, env_epoch_number := next_epoch st\<rparr>)
      in if s' = FlushOk \<and> metas st = [] then RegularFlush env2
         else BucketFlush s' env2 (if s' = FlushOk then metas st else [])
                (if s' = FlushOk then new_blobs st else []))"

definition WriteBucketLevel0Table :: "builder \<Rightarrow> flush_job \<Rightarrow> flush_env \<Rightarrow> flush_outcome option" where
  "WriteBucketLevel0Table build job env0 =
     (case initialize_buckets job env0 of
        None \<Rightarrow> None
      | Some env \<Rightarrow>
          if \<not> initialized (mgr env) then Some (RegularFlush env)
          else
            let snap = GetSnapshot (mgr env);
                (counts, keys) = count_entries snap (fj_entries job);
                env1 = RegisterPendingSplitFiles (fj_job_id job)
                         (map (\<lambda>i. ranges snap ! i) (non_empty_buckets counts)) env;
                (s, st) = build_buckets build job snap counts env1
            in Some (commit_flush job snap counts (bucket_medians keys) env1 s st))"

end
