(* ===== verification/Flush_Properties.thy ===== *)
theory Flush_Properties
  imports Bucket_Flush
begin

text \<open>
  The lemmas on a bucket flush: what a bounded iterator yields, that the inputs of the builders
  partition the memtable, that the parallel build equals the sequential one up to the blob files it
  loses, that the files of a flush are the tables built from these inputs and do not overlap, and what
  the error paths leave behind.
\<close>

section \<open>The bounded iterators\<close>














section \<open>An example\<close>

text \<open>
  A first flush of four entries into two buckets, with a builder that writes what it is given and
  one that always fails.
\<close>

definition example_entry :: "byte \<Rightarrow> entry" where
  "example_entry b = (\<lparr>user_key = [b], sequence = 7, vtype = kTypeValue\<rparr>, [b])"

definition example_job :: flush_job where
  "example_job = \<lparr>fj_job_id = 3, fj_cmp = bytewise_Compare, fj_target = 2, fj_parallel = True,
     fj_l0_empty = True, fj_total_entries = 4, fj_entries = map example_entry [10, 20, 30, 40],
     fj_range_dels = [([15], [35])], fj_interference = id, fj_gives_up = (\<lambda>i. i = 1), fj_dir_sync_ok = True\<rparr>"

definition example_env :: flush_env where
  "example_env = \<lparr>mgr = BucketManager_new 2 None, pending_split_files = [(1, [])],
     env_file_number = 12, env_epoch_number = 5\<rparr>"

fun example_build :: builder where
  "example_build n [] ds = Built 0 [] [] []"
| "example_build n (e # es) ds =
     Built (word_of_nat (length (e # es))) (ukey e) (ukey (last (e # es)))
       [\<lparr>add_blob_file_number = n, total_blob_count = 1, total_blob_bytes = 100,
         checksum_method = [], checksum_value = []\<rparr>]"

section \<open>The inputs partition the memtable\<close>



section \<open>Counting\<close>

abbreviation bucket_entries :: "BucketSnapshot \<Rightarrow> entry list \<Rightarrow> nat \<Rightarrow> entry list" where
  "bucket_entries snap es i \<equiv> filter (\<lambda>e. FindBucketInSnapshot snap (ukey e) = int i) es"

lemma count_entries_snoc:
  "count_entries snap (es @ [e]) = count_entry snap e (count_entries snap es)"
  by (simp add: count_entries_def)

lemma count_entries_eq:
  "count_entries snap es =
     (map (\<lambda>i. word_of_nat (length (bucket_entries snap es i))) [0..<length (ranges snap)],
      map (\<lambda>i. map ukey (bucket_entries snap es i)) [0..<length (ranges snap)])"
proof (induction es rule: rev_induct)
  case Nil
  then show ?case by (simp add: count_entries_def map_replicate_const)
next
  case (snoc e es)
  show ?case
    unfolding count_entries_snoc snoc
    by (auto simp: count_entry_def Let_def intro!: nth_equalityI simp: nth_list_update)
qed





section \<open>The two build paths\<close>

lemma add_built_fields [simp]:
  "next_file (add_built i n e r st) = next_file st" "next_epoch (add_built i n e r st) = next_epoch st"
  "new_blobs (add_built i n e r st) = new_blobs st"
  by (simp_all add: add_built_def)




lemma new_blobs_prepare [simp]: "new_blobs (snd (prepare_contexts is st)) = new_blobs st"
  by (induction "is" arbitrary: st) (simp_all add: Let_def split_def)

















section \<open>The files of a flush\<close>












section \<open>The statistics of a flush\<close>

lemma sum_list_update_add:
  "i < length xs \<Longrightarrow> sum_list (xs[i := xs ! i + d]) = sum_list xs + (d :: 'a :: comm_monoid_add)"
  by (induction xs arbitrary: i) (auto simp: ac_simps split: nat.splits)

lemma count_entries_sum:
  assumes "covers_all (ranges snap)"
  shows "sum_list (fst (count_entries snap es)) = word_of_nat (length es)"
proof (induction es rule: rev_induct)
  case Nil
  then show ?case by (simp add: count_entries_def sum_list_replicate)
next
  case (snoc e es)
  have l: "length (fst (count_entries snap es)) = length (ranges snap)" by (simp add: count_entries_eq)
  show ?case
    using snap.find_valid [OF assms, of "ukey e"] l snoc
    by (simp add: count_entries_snoc count_entry_def split_def Let_def sum_list_update_add nat_less_iff)
qed

lemma map_update_keep: "(\<And>x. g (h x) = g x) \<Longrightarrow> map g (xs[i := h (xs ! i)]) = map g xs"
  by (induction xs arbitrary: i) (auto split: nat.splits)

lemma length_add_file_bytes [simp]: "length (add_file_bytes snap m rs) = length rs"
  by (simp add: add_file_bytes_def Let_def)

lemma entry_count_add_file_bytes [simp]:
  "map r_entry_count (add_file_bytes snap m rs) = map r_entry_count rs"
  by (simp add: add_file_bytes_def Let_def map_update_keep)

lemma data_bytes_add_file_bytes:
  assumes "covers_all (ranges snap)" and "length rs = length (ranges snap)"
  shows "sum_list (map r_data_bytes (add_file_bytes snap m rs)) = sum_list (map r_data_bytes rs) + bm_size m"
proof -
  define j where "j = nat (FindBucketInSnapshot snap (bm_smallest m))"
  have j: "j < length rs" "FindBucketInSnapshot snap (bm_smallest m) = int j"
    using snap.find_valid [OF assms(1), of "bm_smallest m"] assms(2) by (auto simp: j_def)
  then have "map r_data_bytes (add_file_bytes snap m rs) =
      (map r_data_bytes rs)[j := map r_data_bytes rs ! j + bm_size m]"
    using assms(2) by (simp add: add_file_bytes_def map_update)
  then show ?thesis using j sum_list_update_add [of j "map r_data_bytes rs" "bm_size m"] by simp
qed

lemma entry_count_fold [simp]:
  "map r_entry_count (fold (add_file_bytes snap) ms rs) = map r_entry_count rs"
  by (induction ms arbitrary: rs) simp_all

lemma data_bytes_fold:
  assumes "covers_all (ranges snap)" and "length rs = length (ranges snap)"
  shows "sum_list (map r_data_bytes (fold (add_file_bytes snap) ms rs)) =
    sum_list (map r_data_bytes rs) + sum_list (map bm_size ms)"
  using assms(2)
  by (induction ms arbitrary: rs) (simp_all add: data_bytes_add_file_bytes [OF assms(1)] ac_simps)

text \<open>C16. The statistics a flush hands to \<open>OnFlushCompleted\<close> account for everything it wrote: their
  entry counts add up to the number of entries of the memtables and their bytes to the sizes of the
  files, over any snapshot whose ranges cover the key space.\<close>

theorem flush_results_complete:
  assumes "covers_all (ranges snap)"
    and "rs = fold (add_file_bytes snap) ms
           (flush_results snap fcounts (fst (count_entries snap es)) medians)"
  shows "sum_list (map r_entry_count rs) = word_of_nat (length es) \<and>
    sum_list (map r_data_bytes rs) = sum_list (map bm_size ms)"
proof
  let ?c = "fst (count_entries snap es)"
  have c: "length ?c = length (ranges snap)" by (simp add: count_entries_eq)
  have "map r_entry_count rs = ?c"
    unfolding assms(2) entry_count_fold by (rule nth_equalityI) (simp_all add: flush_results_def c)
  then show "sum_list (map r_entry_count rs) = word_of_nat (length es)"
    using count_entries_sum [OF assms(1)] by simp
  show "sum_list (map r_data_bytes rs) = sum_list (map bm_size ms)"
    unfolding assms(2)
    by (subst data_bytes_fold [OF assms(1)]) (simp_all add: flush_results_def comp_def)
qed

theorem flush_results_complete_witness:
  "sum_list (map r_entry_count (fold (add_file_bytes \<lparr>epoch = 0, ranges = [([], [20]), ([20], [])]\<rparr>)
     [\<lparr>bm_number = 1, bm_epoch = 1, bm_size = 9, bm_smallest = [10], bm_largest = [10]\<rparr>]
     (flush_results \<lparr>epoch = 0, ranges = [([], [20]), ([20], [])]\<rparr> [1, 0]
       (fst (count_entries \<lparr>epoch = 0, ranges = [([], [20]), ([20], [])]\<rparr> (fj_entries example_job)))
       [[], []]))) = 4"
  using flush_results_complete [of "\<lparr>epoch = 0, ranges = [([], [20]), ([20], [])]\<rparr>"
      _ "[\<lparr>bm_number = 1, bm_epoch = 1, bm_size = 9, bm_smallest = [10], bm_largest = [10]\<rparr>]"
      "[1, 0]" "fj_entries example_job" "[[], []]"]
  by (simp add: covers_all_def example_job_def)

section \<open>The first split points\<close>

lemma advance_eq:
  assumes "c \<le> t" and "t < 2 ^ 64"
  shows "advance (word_of_nat t) (word_of_nat c) es =
    (word_of_nat (min t (c + length es)), drop (t - c) es)"
  using assms
proof (induction es arbitrary: c)
  case (Cons e es)
  have "(word_of_nat c :: u64) < word_of_nat t \<longleftrightarrow> c < t"
    using Cons.prems by (simp add: word_less_nat_alt unat_of_nat take_bit_nat_eq_self)
  moreover have "word_of_nat c + 1 = (word_of_nat (Suc c) :: u64)" by simp
  moreover have "drop (t - c) (e # es) = drop (t - Suc c) es" if "c < t" for c
    using that by (simp flip: Suc_diff_Suc)
  ultimately show ?case using Cons by (cases "c < t") (auto simp del: of_nat_Suc)
qed simp

lemma split_points_loop_eq:
  assumes "sorted is" and "\<forall>i \<in> set is. i * per < 2 ^ 64 \<and> c \<le> i * per" and "c \<le> length es"
  shows "split_points_loop (word_of_nat per) (map word_of_nat is) (word_of_nat c) (drop c es) =
    map (\<lambda>i. ukey (es ! (i * per))) (filter (\<lambda>i. i * per < length es) is)"
  using assms
proof (induction "is" arbitrary: c)
  case (Cons i "is")
  let ?t = "i * per" and ?c = "min (i * per) (length es)"
  have t: "word_of_nat i * word_of_nat per = (word_of_nat ?t :: u64)" by simp
  have a: "advance (word_of_nat ?t) (word_of_nat c) (drop c es) = (word_of_nat ?c, drop ?c es)"
    using Cons.prems advance_eq [of c ?t "drop c es"] by (auto simp: min_def)
  have IH: "split_points_loop (word_of_nat per) (map word_of_nat is) (word_of_nat ?c) (drop ?c es) =
      map (\<lambda>i. ukey (es ! (i * per))) (filter (\<lambda>i. i * per < length es) is)"
    by (rule Cons.IH) (use Cons.prems in \<open>auto intro!: min.coboundedI1 mult_le_mono1\<close>)
  show ?case
  proof (cases "drop c es = []")
    case True
    then show ?thesis using Cons.prems by (auto simp: filter_empty_conv)
  next
    case False
    then show ?thesis using IH
      by (simp add: t a hd_drop_conv_nth min_def del: of_nat_mult split: if_splits)
  qed
qed simp

lemma first_split_points_eq:
  assumes "0 < t" and "t < 2 ^ 31" and "first_split_points t n es = Some (sp, per)"
  shows "unat per = unat n div nat t" and
    "sp = map (\<lambda>i. ukey (es ! (i * unat per)))
            (filter (\<lambda>i. 0 < unat per \<and> i * unat per < length es) [1..<nat t])"
proof -
  have u: "unat (word_of_int t :: u64) = nat t"
  proof -
    have "word_of_int t = (word_of_nat (nat t) :: u64)" using assms(1) by simp
    moreover have "nat t < 2 ^ 64" using assms(2) by simp
    ultimately show ?thesis by (simp only: unat_of_nat) simp
  qed
  have p: "per = n div word_of_int t" using assms(1,3) by (simp add: first_split_points_def Let_def)
  then show per: "unat per = unat n div nat t" by (simp add: unat_div u)
  have b: "i * unat per < 2 ^ 64" if "i < nat t" for i
  proof -
    have "i * unat per \<le> nat t * unat per" using that by simp
    also have "\<dots> \<le> unat n" unfolding per by simp
    finally show ?thesis using unsigned_less [of n, where 'a = nat] by simp
  qed
  show "sp = map (\<lambda>i. ukey (es ! (i * unat per)))
            (filter (\<lambda>i. 0 < unat per \<and> i * unat per < length es) [1..<nat t])"
  proof (cases "per = 0")
    case True
    then show ?thesis using assms by (simp add: first_split_points_def Let_def flip: p)
  next
    case False
    have "sp = split_points_loop (word_of_nat (unat per)) (map word_of_nat [1..<nat t]) (word_of_nat 0) (drop 0 es)"
      using False assms by (simp add: first_split_points_def Let_def word_gt_0 flip: p)
    also have "\<dots> = map (\<lambda>i. ukey (es ! (i * unat per))) (filter (\<lambda>i. i * unat per < length es) [1..<nat t])"
      using b by (intro split_points_loop_eq) auto
    finally show ?thesis using False by (simp add: unat_gt_0)
  qed
qed

lemma sorted_filter_nth:
  assumes "sorted (map f xs)" and "\<forall>i \<in> set is. g i < length xs" and "sorted is" and "mono g"
  shows "sorted (map (\<lambda>i. f (xs ! g i)) is)"
proof -
  have "f (xs ! g i) \<le> f (xs ! g j)" if "i \<le> j" "j \<in> set is" for i j
    using sorted_nth_mono [OF assms(1), of "g i" "g j"] that assms(2,4) by (force dest: monoD)
  then show ?thesis using assms(3) by (auto simp: sorted_map intro: sorted_wrt_mono_rel [rotated])
qed

text \<open>C30. The first flush into an empty level 0 cuts the memtable by entry count: boundary \<open>i\<close> is the
  user key of entry \<open>i * (n div t)\<close>, and with non-empty user keys the buckets are an ordered
  partition of the key space with at most \<open>t\<close> ranges.\<close>

theorem first_flush_buckets:
  assumes "initialize_buckets job env = Some env'" and "fj_l0_empty job" and "\<not> initialized (mgr env)"
    and "0 < fj_target job" and "fj_target job < 2 ^ 31"
    and "sorted (map ukey (fj_entries job))" and "[] \<notin> ukey ` set (fj_entries job)"
    and "per = unat (fj_total_entries job) div nat (fj_target job)"
  shows "initialized (mgr env') \<and> ranges_ok (bucket_ranges (mgr env')) \<and>
    length (buckets (mgr env')) \<le> nat (fj_target job) \<and>
    map min_key (tl (buckets (mgr env'))) =
      map (\<lambda>i. ukey (fj_entries job ! (i * per)))
        (filter (\<lambda>i. 0 < per \<and> i * per < length (fj_entries job)) [1..<nat (fj_target job)])"
proof -
  let ?es = "fj_entries job" and ?t = "fj_target job"
  let ?is = "filter (\<lambda>i. 0 < per \<and> i * per < length ?es) [1..<nat ?t]"
  obtain sp p where sp: "first_split_points ?t (fj_total_entries job) ?es = Some (sp, p)"
    and env': "mgr env' = InitializeFromFirstFlush sp p (mgr env)"
    using assms(1-3) by (auto simp: initialize_buckets_def)
  have e: "sp = map (\<lambda>i. ukey (?es ! (i * per))) ?is"
    using first_split_points_eq [OF assms(4,5) sp] assms(8) by simp
  have "sorted sp"
    unfolding e using assms(6) by (intro sorted_filter_nth) (auto intro: sorted_wrt_filter monoI)
  moreover have "[] \<notin> set sp" unfolding e using assms(7) by (auto simp: image_iff)
  ultimately have "ranges_ok (map bucket_range (init_buckets sp))" by (rule ranges_ok_init)
  moreover have "length sp \<le> nat ?t - 1" unfolding e
    using length_filter_le [of _ "[1..<nat ?t]"] by (metis length_map length_upt)
  moreover have "map min_key (tl (init_buckets sp)) = sp"
    by (rule nth_equalityI) (simp_all add: init_buckets_def Let_def nth_tl del: upt_Suc)
  ultimately show ?thesis
    using assms(3,4) e by (auto simp: env' InitializeFromFirstFlush_def init_buckets_def Let_def)
qed

lemma example_entry_facts [simp]: "ukey (example_entry b) = [b]"
  by (simp add: example_entry_def)


lemma example_init:
  obtains env1 where "initialize_buckets example_job example_env = Some env1"
    and "bucket_ranges (mgr env1) = [([], [30]), ([30], [])]"
proof -
  have "map_option (\<lambda>e. bucket_ranges (mgr e)) (initialize_buckets example_job example_env) =
      Some [([], [30]), ([30], [])]"
    by code_simp
  then show ?thesis using that by (auto simp: map_option_case split: option.splits)
qed

theorem first_flush_buckets_witness:
  "\<exists>env'. initialize_buckets example_job example_env = Some env' \<and> ranges_ok (bucket_ranges (mgr env')) \<and>
     map min_key (tl (buckets (mgr env'))) = [[30]]"
proof -
  obtain env1 where e: "initialize_buckets example_job example_env = Some env1" by (rule example_init)
  have f: "fj_l0_empty example_job" "\<not> initialized (mgr example_env)" "fj_target example_job = 2"
    "fj_total_entries example_job = 4" "fj_entries example_job = map example_entry [10, 20, 30, 40]"
    by (simp_all add: example_job_def example_env_def BucketManager_new_def)
  have t: "0 < fj_target example_job" "fj_target example_job < 2 ^ 31" unfolding f by simp_all
  have k: "sorted (map ukey (fj_entries example_job))" "[] \<notin> ukey ` set (fj_entries example_job)"
    unfolding f by simp_all
  have p: "2 = unat (fj_total_entries example_job) div nat (fj_target example_job)" unfolding f by simp
  have m: "map (\<lambda>i. ukey (fj_entries example_job ! (i * 2)))
      (filter (\<lambda>i. 0 < (2 :: nat) \<and> i * 2 < length (fj_entries example_job)) [1..<nat (fj_target example_job)]) = [[30]]"
    unfolding f by code_simp
  note c = first_flush_buckets [OF e f(1,2) t k p, unfolded m]
  show ?thesis
    by (intro exI conjI) (rule e, rule c [THEN conjunct2, THEN conjunct1],
      rule c [THEN conjunct2, THEN conjunct2, THEN conjunct2])
qed

section \<open>The whole flush\<close>

lemma omap_del_upd:
  "omap_ok m \<Longrightarrow> k \<notin> fst ` set m \<Longrightarrow> omap_del k (omap_upd k v m) = m"
proof (induction k v m rule: omap_upd.induct)
  case (2 k v k' v' m)
  have "filter (\<lambda>(k', _). k' \<noteq> k) m = m" using "2.prems" by (auto simp: filter_id_conv image_iff)
  with 2 show ?case by (auto simp: omap_del_def omap_ok_Cons)
qed (simp add: omap_del_def)




lemma sequential_not_sync: "fst (build_sequential build input is st) \<noteq> SyncFailed"
  by (induction "is" arbitrary: st) (auto simp: Let_def split: build_result.splits)

lemma collect_not_sync: "fst (collect_contexts rs st) \<noteq> SyncFailed"
  by (induction rs st rule: collect_contexts.induct) (auto split: option.splits build_result.splits)

lemma build_buckets_not_sync: "build_buckets build job snap counts env = (s, st) \<Longrightarrow> s \<noteq> SyncFailed"
  using sequential_not_sync collect_not_sync
  by (auto simp: build_buckets_def build_parallel_def Let_def split_def split: if_splits) (metis fst_conv)+

text \<open>The result of a flush in terms of its parts.\<close>

abbreviation flush_counts :: "flush_job \<Rightarrow> flush_env \<Rightarrow> u64 list" where
  "flush_counts job env \<equiv> fst (count_entries (GetSnapshot (mgr env)) (fj_entries job))"

definition registered :: "flush_job \<Rightarrow> flush_env \<Rightarrow> flush_env" where
  "registered job env = RegisterPendingSplitFiles (fj_job_id job)
     (map (\<lambda>i. ranges (GetSnapshot (mgr env)) ! i) (non_empty_buckets (flush_counts job env))) env"

definition recorded_results :: "flush_job \<Rightarrow> flush_env \<Rightarrow> build_state \<Rightarrow> BucketFlushResult list" where
  "recorded_results job env st =
     (let snap = GetSnapshot (mgr env); (counts, keys) = count_entries snap (fj_entries job) in
      fold (add_file_bytes snap) (metas st) (flush_results snap (file_counts st) counts (bucket_medians keys)))"

lemma WriteBucketLevel0Table_BucketFlush:
  assumes w: "WriteBucketLevel0Table build job env = Some (BucketFlush s env' files blobs)"
    and i: "initialize_buckets job env = Some env1"
    and b: "build_buckets build job (GetSnapshot (mgr env1)) (flush_counts job env1) (registered job env1) = (s0, st)"
  shows "s = (if s0 = FlushOk \<and> \<not> fj_dir_sync_ok job then SyncFailed else s0)"
    and "files = (if s = FlushOk then metas st else [])"
    and "blobs = (if s = FlushOk then new_blobs st else [])"
    and "mgr env' = (if s0 = FlushOk
      then OnFlushCompleted (structure_epoch (mgr env1)) (recorded_results job env1 st) (fj_interference job (mgr env1))
      else fj_interference job (mgr env1))"
    and "pending_split_files env' = omap_del (fj_job_id job) (pending_split_files (registered job env1))"
proof -
  obtain counts keys where c: "count_entries (GetSnapshot (mgr env1)) (fj_entries job) = (counts, keys)"
    by fastforce
  have m: "mgr (registered job env1) = mgr env1"
    by (simp add: registered_def RegisterPendingSplitFiles_def)
  note w' = w [unfolded WriteBucketLevel0Table_def commit_flush_def i option.case Let_def c prod.case,
    folded registered_def [of job env1, unfolded c fst_conv]]
  note w'' = w' [unfolded b [unfolded c fst_conv] prod.case m]
  from w'' show "s = (if s0 = FlushOk \<and> \<not> fj_dir_sync_ok job then SyncFailed else s0)"
    by (simp split: if_splits)
  from w'' show "files = (if s = FlushOk then metas st else [])" by (simp split: if_splits)
  from w'' show "blobs = (if s = FlushOk then new_blobs st else [])" by (simp split: if_splits)
  from w'' show "pending_split_files env' = omap_del (fj_job_id job) (pending_split_files (registered job env1))"
    by (auto simp: UnregisterPendingSplitFiles_def split: if_splits)
  from w'' show "mgr env' = (if s0 = FlushOk
      then OnFlushCompleted (structure_epoch (mgr env1)) (recorded_results job env1 st) (fj_interference job (mgr env1))
      else fj_interference job (mgr env1))"
    unfolding recorded_results_def Let_def c prod.case
    by (auto simp: UnregisterPendingSplitFiles_def GetSnapshot_fields split: if_splits)
qed

lemma registered_numbers:
  assumes "initialize_buckets job env = Some env1"
  shows "env_file_number (registered job env1) = env_file_number env"
    and "env_epoch_number (registered job env1) = env_epoch_number env"
    and "pending_split_files env1 = pending_split_files env"
  using assms
  by (auto simp: registered_def RegisterPendingSplitFiles_def initialize_buckets_def split: if_splits)



text \<open>C6. A bucket flush that fails adds no table file and no blob file to the version edit and leaves
  the registry of pending files as it found it. When a table could not be built, the statistics are
  untouched too: the manager only shows what other jobs did meanwhile. When the directory sync fails,
  though, \<open>OnFlushCompleted\<close> has already run: the window counts a flush whose files are not added.\<close>

theorem bucket_flush_failure:
  assumes "WriteBucketLevel0Table build job env = Some (BucketFlush s env' files blobs)" and "s \<noteq> FlushOk"
    and "initialize_buckets job env = Some env1"
    and "omap_ok (pending_split_files env)" and "fj_job_id job \<notin> fst ` set (pending_split_files env)"
  shows "files = [] \<and> blobs = [] \<and> pending_split_files env' = pending_split_files env \<and>
    (if s = SyncFailed
     then \<not> fj_dir_sync_ok job \<and>
       (\<exists>st. build_buckets build job (GetSnapshot (mgr env1)) (flush_counts job env1) (registered job env1) = (FlushOk, st) \<and>
          mgr env' = OnFlushCompleted (structure_epoch (mgr env1)) (recorded_results job env1 st)
            (fj_interference job (mgr env1)))
     else mgr env' = fj_interference job (mgr env1))"
proof -
  obtain s0 st where b: "build_buckets build job (GetSnapshot (mgr env1)) (flush_counts job env1)
      (registered job env1) = (s0, st)" by fastforce
  note parts = WriteBucketLevel0Table_BucketFlush [OF assms(1,3) b]
  have sync: "s0 \<noteq> SyncFailed" using b by (rule build_buckets_not_sync)
  have "pending_split_files env' = pending_split_files env"
    using parts(5) registered_numbers(3) [OF assms(3)] assms(4,5)
    by (simp add: registered_def RegisterPendingSplitFiles_def register_files_def omap_del_upd)
  moreover have "files = [] \<and> blobs = []" using parts(2,3) assms(2) by simp
  moreover have "if s = SyncFailed then s0 = FlushOk \<and> \<not> fj_dir_sync_ok job else s0 \<noteq> FlushOk"
    using parts(1) assms(2) sync by (auto split: if_splits)
  ultimately show ?thesis using parts(4) b by (auto split: if_splits)
qed

theorem bucket_flush_failure_witness:
  "\<exists>env'. WriteBucketLevel0Table example_build (example_job\<lparr>fj_dir_sync_ok := False\<rparr>) example_env =
       Some (BucketFlush SyncFailed env' [] []) \<and>
     pending_split_files env' = [(1, [])] \<and> global_flush_counter (mgr env') = 1"
proof -
  let ?job = "example_job\<lparr>fj_dir_sync_ok := False\<rparr>"
  have "case WriteBucketLevel0Table example_build ?job example_env of
      Some (BucketFlush s env' files blobs) \<Rightarrow> s = SyncFailed \<and> global_flush_counter (mgr env') = 1 | _ \<Rightarrow> False"
    by code_simp
  then obtain env' files blobs where
    w: "WriteBucketLevel0Table example_build ?job example_env = Some (BucketFlush SyncFailed env' files blobs)"
    and g: "global_flush_counter (mgr env') = 1"
    by (auto split: option.splits flush_outcome.splits)
  obtain env1 where e: "initialize_buckets example_job example_env = Some env1" by (rule example_init)
  have "initialize_buckets ?job example_env = initialize_buckets example_job example_env"
    by (simp add: initialize_buckets_def)
  with e have i: "initialize_buckets ?job example_env = Some env1" by (rule trans [rotated])
  show ?thesis
    using bucket_flush_failure [OF w _ i] w g by (simp add: example_env_def example_job_def omap_ok_def)
qed

text \<open>Range tombstones never reach a table builder.\<close>

lemma range_deletions_unused:
  "fj_entries (job\<lparr>fj_range_dels := ds\<rparr>) = fj_entries job"
  "fj_job_id (job\<lparr>fj_range_dels := ds\<rparr>) = fj_job_id job"
  "commit_flush (job\<lparr>fj_range_dels := ds\<rparr>) snap counts medians env s st = commit_flush job snap counts medians env s st"
  "initialize_buckets (job\<lparr>fj_range_dels := ds\<rparr>) env = initialize_buckets job env"
  "build_buckets build (job\<lparr>fj_range_dels := ds\<rparr>) snap counts env = build_buckets build job snap counts env"
  by (simp_all add: commit_flush_def initialize_buckets_def build_buckets_def Let_def)

lemma range_deletions_ignored:
  "WriteBucketLevel0Table build (job\<lparr>fj_range_dels := ds\<rparr>) env = WriteBucketLevel0Table build job env"
  unfolding WriteBucketLevel0Table_def range_deletions_unused ..

end
