(* ===== verification/Union_Find.thy ===== *)
theory Union_Find
  imports "HOL-Library.Monad_Syntax" Prelude
begin

text \<open>
  The two union-find structures the level-0 code builds in local variables: union by rank
  (\<open>VersionStorageInfo::FindL0OverlappingGroups\<close> and \<open>GetLargestOverlappingGroup\<close> of
  \<open>db/version_set.cc\<close>) and the plain one of \<open>LevelCompactionBuilder::DetectL0GroupBoundaries\<close>
  (\<open>db/compaction/compaction_picker_level.cc\<close>). Both share the recursive \<open>find\<close> with path
  compression.

  The locale \<open>disjoint_sets\<close> states what a client may rely on; its lemmas show that uniting a list
  of pairs yields the connected components of those pairs. Both structures interpret it.
\<close>

section \<open>Operations\<close>

text \<open>\<open>find\<close> recurses along parents, so it is total only on forests; \<open>None\<close> is an infinite recursion.\<close>

partial_function (option) uf_find :: "nat \<Rightarrow> nat list \<Rightarrow> (nat \<times> nat list) option" where
  "uf_find x parent =
     (if parent ! x \<noteq> x then
        do {
          (r, parent') \<leftarrow> uf_find (parent ! x) parent;
          Some (r, parent'[x := r])
        }
      else Some (x, parent))"

declare uf_find.simps [code]

type_synonym ranked = "nat list \<times> nat list"

definition rank_find :: "nat \<Rightarrow> ranked \<Rightarrow> (nat \<times> ranked) option" where
  "rank_find x u =
     do {
       (r, parent) \<leftarrow> uf_find x (fst u);
       Some (r, (parent, snd u))
     }"

definition unite :: "nat \<Rightarrow> nat \<Rightarrow> ranked \<Rightarrow> ranked option" where
  "unite x y u =
     do {
       (px, u1) \<leftarrow> rank_find x u;
       (py, (parent, rank)) \<leftarrow> rank_find y u1;
       Some (if px = py then (parent, rank)
             else if rank ! px < rank ! py then (parent[px := py], rank)
             else if rank ! px > rank ! py then (parent[py := px], rank)
             else (parent[py := px], rank[px := rank ! px + 1]))
     }"

definition union_sets :: "nat \<Rightarrow> nat \<Rightarrow> nat list \<Rightarrow> nat list option" where
  "union_sets x y parent =
     do {
       (px, parent1) \<leftarrow> uf_find x parent;
       (py, parent2) \<leftarrow> uf_find y parent1;
       Some (if px \<noteq> py then parent2[px := py] else parent2)
     }"

section \<open>Forests\<close>

inductive root :: "nat list \<Rightarrow> nat \<Rightarrow> nat \<Rightarrow> bool" for p where
  root_refl: "p ! x = x \<Longrightarrow> root p x x"
| root_step: "p ! x \<noteq> x \<Longrightarrow> root p (p ! x) r \<Longrightarrow> root p x r"

inductive_cases root_cases: "root p x r"

definition forest :: "nat list \<Rightarrow> bool" where
  "forest p \<longleftrightarrow> (\<forall>x < length p. p ! x < length p) \<and>
     (\<exists>rk :: nat \<Rightarrow> nat. \<forall>x < length p. p ! x \<noteq> x \<longrightarrow> rk x < rk (p ! x))"

lemma root_is_root: "root p x r \<Longrightarrow> p ! r = r"
  by (induction rule: root.induct) auto

lemma root_self: "p ! x = x \<Longrightarrow> root p x r \<longleftrightarrow> r = x"
  by (auto elim: root_cases intro: root_refl)

lemma root_parent: "p ! x \<noteq> x \<Longrightarrow> root p x r \<longleftrightarrow> root p (p ! x) r"
  by (auto elim: root_cases intro: root_step)

lemma root_unique: "root p x r \<Longrightarrow> root p x s \<Longrightarrow> r = s"
  by (induction arbitrary: s rule: root.induct) (auto simp: root_self root_parent)

lemma root_exists:
  assumes "forest p" and "x < length p"
  shows "\<exists>r < length p. root p x r"
proof -
  obtain rk :: "nat \<Rightarrow> nat" where rk: "\<And>x. x < length p \<Longrightarrow> p ! x \<noteq> x \<Longrightarrow> rk x < rk (p ! x)"
    and b: "\<And>x. x < length p \<Longrightarrow> p ! x < length p"
    using assms(1) by (auto simp: forest_def)
  define M where "M = Max (rk ` {..<length p})"
  have M: "rk y \<le> M" if "y < length p" for y unfolding M_def using that by (intro Max_ge) auto
  show ?thesis using assms(2)
  proof (induction "M - rk x" arbitrary: x rule: less_induct)
    case less
    show ?case
    proof (cases "p ! x = x")
      case True
      then show ?thesis using less.prems by (blast intro: root_refl)
    next
      case False
      have "M - rk (p ! x) < M - rk x" using rk [OF less.prems False] M [OF b [OF less.prems]] by linarith
      from less.hyps [OF this b [OF less.prems]] show ?thesis using False by (blast intro: root_step)
    qed
  qed
qed

lemma root_rank:
  assumes "\<And>x. x < length p \<Longrightarrow> p ! x \<noteq> x \<Longrightarrow> (rk x :: nat) < rk (p ! x)"
    and "\<And>x. x < length p \<Longrightarrow> p ! x < length p"
  shows "root p x r \<Longrightarrow> x < length p \<Longrightarrow> x \<noteq> r \<Longrightarrow> rk x < rk r"
proof (induction rule: root.induct)
  case (root_step x r)
  have "rk x < rk (p ! x)" using assms(1) root_step by simp
  moreover have "rk (p ! x) < rk r" if "p ! x \<noteq> r" using root_step.IH assms(2) root_step.prems(1) that by simp
  ultimately show ?case by (cases "p ! x = r") auto
qed simp

text \<open>
  Redirecting a node: to its root keeps all roots (path compression), and redirecting a root to
  another root moves exactly its class.
\<close>

lemma forest_update:
  assumes "\<And>z. z < length p \<Longrightarrow> p ! z \<noteq> z \<Longrightarrow> (rk z :: nat) < rk (p ! z)"
    and "\<And>z. z < length p \<Longrightarrow> p ! z < length p"
    and "x < length p" and "y < length p" and "rk x < rk y"
  shows "forest (p[x := y])"
  unfolding forest_def using assms
  by (auto simp: nth_list_update intro!: exI [of _ rk])

lemma forest_redirect:
  assumes "forest p" and "x < length p" and "root p x r" and "x \<noteq> r" and "r < length p"
  shows "forest (p[x := r])"
proof -
  obtain rk :: "nat \<Rightarrow> nat" where rk: "\<And>x. x < length p \<Longrightarrow> p ! x \<noteq> x \<Longrightarrow> rk x < rk (p ! x)"
    and b: "\<And>x. x < length p \<Longrightarrow> p ! x < length p"
    using assms(1) by (auto simp: forest_def)
  have "rk x < rk r" using assms(3,2,4) by (rule root_rank [where rk = rk, rotated 2]) (simp_all add: rk b)
  then show ?thesis using assms(2,5) by (intro forest_update [where rk = rk] rk b)
qed

lemma root_redirect:
  assumes "forest p" and "x < length p" and "root p x r" and "x \<noteq> r" and "r < length p" and "y < length p"
  shows "root (p[x := r]) y s \<longleftrightarrow> root p y s"
proof -
  have r: "p ! r = r" using assms(3) by (rule root_is_root)
  have x: "p ! x \<noteq> x" using assms(3,4) by (metis root_self)
  have fwd: "root (p[x := r]) y s" if "root p y s" for y s
    using that
  proof (induction rule: root.induct)
    case (root_refl z)
    then have "z \<noteq> x" using x by auto
    then show ?case using root_refl by (simp add: root.root_refl)
  next
    case (root_step z s)
    show ?case
    proof (cases "z = x")
      case True
      have "root p x s" using root_step True by (auto intro: root.root_step)
      then have "s = r" using assms(3) root_unique by blast
      then have "root (p[x := r]) r s" using r assms(4) by (auto intro: root.root_refl)
      then show ?thesis using True assms(2,4) by (simp add: root.root_step)
    next
      case False
      then show ?thesis using root_step by (simp add: root.root_step)
    qed
  qed
  obtain t where "root p y t" using root_exists [OF assms(1,6)] by blast
  then show ?thesis using fwd root_unique by metis
qed

lemma forest_link:
  assumes "forest p" and "x < length p" and "y < length p" and "p ! x = x" and "p ! y = y" and "x \<noteq> y"
  shows "forest (p[x := y])"
proof -
  obtain rk :: "nat \<Rightarrow> nat" where rk: "\<And>x. x < length p \<Longrightarrow> p ! x \<noteq> x \<Longrightarrow> rk x < rk (p ! x)"
    and b: "\<And>x. x < length p \<Longrightarrow> p ! x < length p"
    using assms(1) by (auto simp: forest_def)
  have "(rk(y := rk x + rk y + 1)) z < (rk(y := rk x + rk y + 1)) (p ! z)" if "z < length p" "p ! z \<noteq> z" for z
    using rk [OF that] that assms(5) by auto
  then show ?thesis
    by (rule forest_update) (use assms b in auto)
qed

lemma root_link:
  assumes "forest p" and "x < length p" and "p ! x = x" and "p ! y = y" and "x \<noteq> y"
  shows "root p z s \<Longrightarrow> root (p[x := y]) z (if s = x then y else s)"
proof (induction rule: root.induct)
  case (root_refl z)
  have "root (p[x := y]) y y" using assms by (simp add: root.root_refl)
  then show ?case using root_refl assms by (auto simp: root.root_refl intro: root.root_step)
next
  case (root_step z s)
  then have "z \<noteq> x" using assms(3) by auto
  then show ?case using root_step by (simp add: root.root_step)
qed

section \<open>Representatives\<close>

definition rep :: "nat list \<Rightarrow> nat \<Rightarrow> nat" where
  "rep p x = (THE r. root p x r)"

lemma rep_eq: "root p x r \<Longrightarrow> rep p x = r"
  unfolding rep_def by (rule the_equality) (auto dest: root_unique)

lemma root_rep: "forest p \<Longrightarrow> x < length p \<Longrightarrow> root p x (rep p x) \<and> rep p x < length p"
  using root_exists rep_eq by blast

lemma rep_root: "forest p \<Longrightarrow> x < length p \<Longrightarrow> p ! rep p x = rep p x"
  using root_rep root_is_root by blast

lemma uf_find_correct:
  assumes "root p x r" and "forest p" and "x < length p"
  shows "\<exists>p'. uf_find x p = Some (r, p') \<and> forest p' \<and> length p' = length p \<and>
    (\<forall>y < length p. \<forall>s. root p' y s \<longleftrightarrow> root p y s)"
  using assms
proof (induction rule: root.induct)
  case (root_refl x)
  then show ?case by (simp add: uf_find.simps [of x p])
next
  case (root_step x r)
  have px: "p ! x < length p" using root_step.prems by (simp add: forest_def)
  obtain p' where p': "uf_find (p ! x) p = Some (r, p')" "forest p'" "length p' = length p"
    and same: "\<And>y s. y < length p \<Longrightarrow> root p' y s \<longleftrightarrow> root p y s"
    using root_step.IH [OF root_step.prems(1) px] by blast
  have rx: "root p x r" using root_step.hyps by (rule root.root_step)
  then have "root p' x r" using same root_step.prems(2) by simp
  moreover have "x \<noteq> r" using rx root_step.hyps(1) root_is_root by metis
  moreover have "r < length p" using rep_eq [OF rx] root_rep [OF root_step.prems] by simp
  ultimately have "forest (p'[x := r])" "\<And>y s. y < length p \<Longrightarrow> root (p'[x := r]) y s \<longleftrightarrow> root p y s"
    using forest_redirect [of p' x r] root_redirect [of p' x r] p' same root_step.prems(2) by simp_all
  moreover have "uf_find x p = Some (r, p'[x := r])"
    using root_step.hyps(1) p'(1) by (simp add: uf_find.simps [of x p])
  ultimately show ?case using p'(3) by auto
qed

lemma uf_find_rep:
  assumes "forest p" and "x < length p"
  obtains p' where "uf_find x p = Some (rep p x, p')" "forest p'" "length p' = length p"
    "\<And>y. y < length p \<Longrightarrow> rep p' y = rep p y"
proof -
  obtain p' where p': "uf_find x p = Some (rep p x, p')" "forest p'" "length p' = length p"
    and same: "\<forall>y < length p. \<forall>s. root p' y s \<longleftrightarrow> root p y s"
    using uf_find_correct [of p x "rep p x"] root_rep [OF assms] assms by blast
  have "rep p' y = rep p y" if "y < length p" for y
    using same that root_rep [OF assms(1) that] by (intro rep_eq) blast
  with p' show ?thesis using that by blast
qed

lemma rep_link:
  assumes "forest p" and "x < length p" and "p ! x = x" and "p ! y = y" and "x \<noteq> y" and "z < length p"
  shows "rep (p[x := y]) z = (if rep p z = x then y else rep p z)"
  by (rule rep_eq, rule root_link [OF assms(1-5)]) (use root_rep [OF assms(1,6)] in blast)

text \<open>
  \<open>merged u u' x y\<close>: the classes of \<open>u'\<close> are those of \<open>u\<close> with the classes of \<open>x\<close> and \<open>y\<close> made one.
\<close>

definition merged :: "nat \<Rightarrow> (nat \<Rightarrow> nat) \<Rightarrow> (nat \<Rightarrow> nat) \<Rightarrow> nat \<Rightarrow> nat \<Rightarrow> bool" where
  "merged n f g x y \<longleftrightarrow>
     (\<forall>a < n. \<forall>b < n. g a = g b \<longleftrightarrow> f a = f b \<or> f a = f x \<and> f b = f y \<or> f a = f y \<and> f b = f x)"

lemma two_finds:
  assumes "forest p" and "length p = n" and "x < n" and "y < n"
  obtains p1 p2 where "uf_find x p = Some (rep p x, p1)" "uf_find y p1 = Some (rep p y, p2)"
    "forest p2" "length p2 = n" "\<And>z. z < n \<Longrightarrow> rep p2 z = rep p z"
    "rep p x < n" "rep p y < n" "p2 ! rep p x = rep p x" "p2 ! rep p y = rep p y"
proof -
  obtain p1 where p1: "uf_find x p = Some (rep p x, p1)" "forest p1" "length p1 = n"
    "\<And>z. z < n \<Longrightarrow> rep p1 z = rep p z" using uf_find_rep [of p x] assms by metis
  obtain p2 where p2: "uf_find y p1 = Some (rep p y, p2)" "forest p2" "length p2 = n"
    "\<And>z. z < n \<Longrightarrow> rep p2 z = rep p z" using uf_find_rep [of p1 y] p1 assms by metis
  have "rep p x < n" "rep p y < n" "p2 ! rep p x = rep p x" "p2 ! rep p y = rep p y"
    using root_rep [of p] rep_root [of p2] p2 assms by metis+
  with p1 p2 show ?thesis using that by blast
qed

lemma link_merged:
  assumes "forest q" and "length q = n" and "\<And>z. z < n \<Longrightarrow> rep q z = rep p z"
    and "px < n" and "py < n" and "q ! px = px" and "q ! py = py" and "px \<noteq> py"
    and "{px, py} = {rep p x, rep p y}"
  shows "forest (q[px := py]) \<and> length (q[px := py]) = n \<and> merged n (rep p) (rep (q[px := py])) x y"
proof -
  have "rep (q[px := py]) z = (if rep p z = px then py else rep p z)" if "z < n" for z
    using rep_link [OF assms(1) _ assms(6-8), of z] assms(2-4) that by simp
  then have "merged n (rep p) (rep (q[px := py])) x y"
    using assms(8,9) by (auto simp: merged_def doubleton_eq_iff)
  then show ?thesis using forest_link assms by simp
qed

section \<open>The interface of disjoint sets\<close>

text \<open>
  A structure over \<open>n\<close> elements with an abstraction to representatives: \<open>find\<close> returns the
  representative and changes none; \<open>join\<close> merges exactly two classes. Both always return.
\<close>

fun join_all :: "(nat \<Rightarrow> nat \<Rightarrow> 'u \<Rightarrow> 'u option) \<Rightarrow> (nat \<times> nat) list \<Rightarrow> 'u \<Rightarrow> 'u option" where
  "join_all join [] u = Some u"
| "join_all join ((x, y) # ps) u = join x y u \<bind> join_all join ps"

fun find_all :: "(nat \<Rightarrow> 'u \<Rightarrow> (nat \<times> 'u) option) \<Rightarrow> nat list \<Rightarrow> 'u \<Rightarrow> (nat \<times> nat) list option" where
  "find_all f [] u = Some []"
| "find_all f (i # is) u =
     do {
       (r, u') \<leftarrow> f i u;
       rest \<leftarrow> find_all f is u';
       Some ((r, i) # rest)
     }"

abbreviation linked :: "(nat \<times> nat) list \<Rightarrow> (nat \<times> nat) set" where
  "linked ps \<equiv> (set ps \<union> (set ps)\<inverse>)\<^sup>*"

locale disjoint_sets =
  fixes invar :: "nat \<Rightarrow> 'u \<Rightarrow> bool"
    and repr :: "'u \<Rightarrow> nat \<Rightarrow> nat"
    and find :: "nat \<Rightarrow> 'u \<Rightarrow> (nat \<times> 'u) option"
    and join :: "nat \<Rightarrow> nat \<Rightarrow> 'u \<Rightarrow> 'u option"
  assumes find_law: "invar n u \<Longrightarrow> x < n \<Longrightarrow>
      \<exists>u'. find x u = Some (repr u x, u') \<and> invar n u' \<and> (\<forall>y < n. repr u' y = repr u y)"
    and join_law: "invar n u \<Longrightarrow> x < n \<Longrightarrow> y < n \<Longrightarrow>
      \<exists>u'. join x y u = Some u' \<and> invar n u' \<and> merged n (repr u) (repr u') x y"
begin

text \<open>Joining keeps equal representatives equal, and stays within any equivalence with the pairs.\<close>

lemma join_all_keeps:
  assumes "invar n u" and "\<forall>(a, b) \<in> set ps. a < n \<and> b < n"
  shows "\<exists>u'. join_all join ps u = Some u' \<and> invar n u' \<and>
    (\<forall>a < n. \<forall>b < n. repr u a = repr u b \<longrightarrow> repr u' a = repr u' b) \<and>
    (\<forall>(a, b) \<in> set ps. repr u' a = repr u' b)"
  using assms
proof (induction ps arbitrary: u)
  case (Cons q ps)
  obtain x y where q: "q = (x, y)" and xy: "x < n" "y < n" using Cons.prems(2) by (cases q) auto
  obtain u1 where u1: "join x y u = Some u1" "invar n u1" "merged n (repr u) (repr u1) x y"
    using join_law [OF Cons.prems(1) xy] by blast
  obtain u' where u': "join_all join ps u1 = Some u'" "invar n u'"
      "\<forall>a < n. \<forall>b < n. repr u1 a = repr u1 b \<longrightarrow> repr u' a = repr u' b" "\<forall>(a, b) \<in> set ps. repr u' a = repr u' b"
    using Cons.IH [OF u1(2)] Cons.prems(2) by auto
  have "repr u1 x = repr u1 y" and "\<forall>a < n. \<forall>b < n. repr u a = repr u b \<longrightarrow> repr u1 a = repr u1 b"
    using u1(3) xy unfolding merged_def by blast+
  moreover have "join_all join (q # ps) u = Some u'" using u1(1) u'(1) q by simp
  moreover have "repr u' x = repr u' y" using u'(3) xy \<open>repr u1 x = repr u1 y\<close> by blast
  then have "\<forall>(a, b) \<in> set (q # ps). repr u' a = repr u' b" using u'(4) unfolding q by simp
  ultimately show ?case using u'(2,3) by (intro exI [of _ u'] conjI) blast+
qed simp

lemma join_all_within:
  assumes "invar n u" and "\<forall>(a, b) \<in> set ps. a < n \<and> b < n" and "join_all join ps u = Some u'"
    and "sym C" and "trans C" and "set ps \<subseteq> C"
    and "\<forall>a < n. \<forall>b < n. repr u a = repr u b \<longrightarrow> (a, b) \<in> C"
  shows "\<forall>a < n. \<forall>b < n. repr u' a = repr u' b \<longrightarrow> (a, b) \<in> C"
  using assms(1-3,6,7)
proof (induction ps arbitrary: u)
  case (Cons q ps)
  obtain x y where q: "q = (x, y)" and xy: "x < n" "y < n" using Cons.prems(2) by (cases q) auto
  obtain u1 where u1: "join x y u = Some u1" "invar n u1" "merged n (repr u) (repr u1) x y"
    using join_law [OF Cons.prems(1) xy] by blast
  have C: "(x, y) \<in> C" "(y, x) \<in> C" using Cons.prems(4) q assms(4) by (auto dest: symD)
  have "(a, b) \<in> C" if "a < n" "b < n" "repr u1 a = repr u1 b" for a b
  proof -
    from that u1(3) have "repr u a = repr u b \<or> repr u a = repr u x \<and> repr u b = repr u y \<or>
        repr u a = repr u y \<and> repr u b = repr u x"
      unfolding merged_def by blast
    then show ?thesis using Cons.prems(5) C xy that(1,2) assms(4,5) by (metis transD)
  qed
  then show ?case using Cons.IH [OF u1(2)] Cons.prems q u1(1) by simp
qed simp

theorem join_all_components:
  assumes "invar n u" and "\<forall>a < n. repr u a = a" and "\<forall>(a, b) \<in> set ps. a < n \<and> b < n"
  shows "\<exists>u'. join_all join ps u = Some u' \<and> invar n u' \<and>
    (\<forall>a < n. \<forall>b < n. repr u' a = repr u' b \<longleftrightarrow> (a, b) \<in> linked ps)"
proof -
  obtain u' where u': "join_all join ps u = Some u'" "invar n u'" "\<forall>(a, b) \<in> set ps. repr u' a = repr u' b"
    using join_all_keeps [OF assms(1,3)] by blast
  have "(a, b) \<in> linked ps" if "a < n" "b < n" "repr u' a = repr u' b" for a b
    using join_all_within [OF assms(1,3) u'(1), of "linked ps"] that assms(2)
    by (auto simp: sym_rtrancl sym_Un_converse trans_rtrancl)
  moreover have "repr u' a = repr u' b" if "(a, b) \<in> linked ps" for a b
    using that by (induction rule: rtrancl_induct) (use u'(3) in auto)
  ultimately show ?thesis using u' by blast
qed

lemma find_all_repr:
  assumes "invar n u" and "\<forall>i \<in> set is. i < n"
  shows "find_all find is u = Some (map (\<lambda>i. (repr u i, i)) is)"
  using assms
proof (induction "is" arbitrary: u)
  case (Cons i "is")
  obtain u' where u': "find i u = Some (repr u i, u')" "invar n u'" "\<forall>y < n. repr u' y = repr u y"
    using find_law [OF Cons.prems(1), of i] Cons.prems(2) by force
  have "map (\<lambda>i. (repr u' i, i)) is = map (\<lambda>i. (repr u i, i)) is"
    using u'(3) Cons.prems(2) by (intro map_cong refl) force
  moreover have "find_all find is u' = Some (map (\<lambda>i. (repr u' i, i)) is)"
    using Cons.prems(2) by (intro Cons.IH u'(2)) simp
  ultimately show ?case by (simp only: find_all.simps u'(1) bind.bind_lunit prod.case list.map)
qed simp

end

section \<open>Both structures provide it\<close>

interpretation plain: disjoint_sets "\<lambda>n p. forest p \<and> length p = n" rep uf_find union_sets
proof
  fix n p x assume "forest p \<and> length p = n" "x < n"
  then show "\<exists>u'. uf_find x p = Some (rep p x, u') \<and> (forest u' \<and> length u' = n) \<and> (\<forall>y < n. rep u' y = rep p y)"
    by (metis uf_find_rep)
next
  fix n p x y assume "forest p \<and> length p = n" "x < n" "y < n"
  then obtain p1 p2 where f: "uf_find x p = Some (rep p x, p1)" "uf_find y p1 = Some (rep p y, p2)"
    and p2: "forest p2" "length p2 = n" "\<And>z. z < n \<Longrightarrow> rep p2 z = rep p z"
      "rep p x < n" "rep p y < n" "p2 ! rep p x = rep p x" "p2 ! rep p y = rep p y"
    by (metis two_finds)
  show "\<exists>u'. union_sets x y p = Some u' \<and> (forest u' \<and> length u' = n) \<and> merged n (rep p) (rep u') x y"
  proof (cases "rep p x = rep p y")
    case True
    then show ?thesis using f p2 by (auto simp: union_sets_def merged_def)
  next
    case False
    then show ?thesis using f link_merged [OF p2] by (auto simp: union_sets_def)
  qed
qed

interpretation ranked: disjoint_sets "\<lambda>n (u :: ranked). forest (fst u) \<and> length (fst u) = n" "\<lambda>u. rep (fst u)" rank_find unite
proof
  fix n x and u :: ranked
  assume "forest (fst u) \<and> length (fst u) = n" "x < n"
  then show "\<exists>u'. rank_find x u = Some (rep (fst u) x, u') \<and> (forest (fst u') \<and> length (fst u') = n) \<and>
      (\<forall>y < n. rep (fst u') y = rep (fst u) y)"
    by (auto simp: rank_find_def elim: uf_find_rep [of "fst u" x])
next
  fix n x y and u :: ranked
  assume "forest (fst u) \<and> length (fst u) = n" "x < n" "y < n"
  then obtain p1 p2 where f: "uf_find x (fst u) = Some (rep (fst u) x, p1)" "uf_find y p1 = Some (rep (fst u) y, p2)"
    and p2: "forest p2" "length p2 = n" "\<And>z. z < n \<Longrightarrow> rep p2 z = rep (fst u) z"
      "rep (fst u) x < n" "rep (fst u) y < n"
      "p2 ! rep (fst u) x = rep (fst u) x" "p2 ! rep (fst u) y = rep (fst u) y"
    by (metis two_finds)
  have e: "unite x y u =
      (let px = rep (fst u) x; py = rep (fst u) y; rank = snd u in
       Some (if px = py then (p2, rank)
             else if rank ! px < rank ! py then (p2[px := py], rank)
             else if rank ! px > rank ! py then (p2[py := px], rank)
             else (p2[py := px], rank[px := rank ! px + 1])))"
    using f by (simp add: unite_def rank_find_def Let_def)
  show "\<exists>u'. unite x y u = Some u' \<and> (forest (fst u') \<and> length (fst u') = n) \<and>
      merged n (rep (fst u)) (rep (fst u')) x y"
  proof (cases "rep (fst u) x = rep (fst u) y")
    case True
    then show ?thesis using p2 by (auto simp: e merged_def)
  next
    case False
    note l = link_merged [OF p2 False, of x y] link_merged [OF p2(1-3,5,4,7,6) False [symmetric], of x y]
    show ?thesis using l False by (auto simp: e Let_def insert_commute)
  qed
qed

end
