(* ===== verification/Std_Sort.thy ===== *)
theory Std_Sort
  imports "HOL-Library.Multiset"
begin

text \<open>
  \<open>std::sort\<close> with a comparison object: a stable sort by an arbitrary \<open>lt\<close>. The result of the
  C++ function is one of the orders this sort gives for some permutation of its input, so a property
  proved for every permutation of the input holds of the C++ function.

  The laws of the comparison are those of a strict weak order, in the form a sorted result needs
  (\<open>weak_order\<close>).
\<close>

fun insert_by :: "('a \<Rightarrow> 'a \<Rightarrow> bool) \<Rightarrow> 'a \<Rightarrow> 'a list \<Rightarrow> 'a list" where
  "insert_by lt x [] = [x]"
| "insert_by lt x (y # ys) = (if lt y x then y # insert_by lt x ys else x # y # ys)"

definition sort_by :: "('a \<Rightarrow> 'a \<Rightarrow> bool) \<Rightarrow> 'a list \<Rightarrow> 'a list" where
  "sort_by lt xs = foldr (insert_by lt) xs []"

definition weak_order :: "'a set \<Rightarrow> ('a \<Rightarrow> 'a \<Rightarrow> bool) \<Rightarrow> bool" where
  "weak_order A lt \<longleftrightarrow>
     (\<forall>x \<in> A. \<forall>y \<in> A. lt x y \<longrightarrow> \<not> lt y x) \<and>
     (\<forall>x \<in> A. \<forall>y \<in> A. \<forall>z \<in> A. \<not> lt y x \<longrightarrow> \<not> lt z y \<longrightarrow> \<not> lt z x)"

lemma mset_insert_by [simp]: "mset (insert_by lt x xs) = add_mset x (mset xs)"
  by (induction xs) auto

lemma mset_sort_by [simp]: "mset (sort_by lt xs) = mset xs"
  unfolding sort_by_def by (induction xs) auto

lemma set_insert_by [simp]: "set (insert_by lt x xs) = insert x (set xs)"
  by (metis mset_insert_by set_mset_add_mset_insert set_mset_mset)

lemma set_sort_by [simp]: "set (sort_by lt xs) = set xs"
  by (metis mset_sort_by set_mset_mset)

lemma length_sort_by [simp]: "length (sort_by lt xs) = length xs"
  by (metis mset_sort_by size_mset)

lemma sorted_insert_by:
  assumes "weak_order A lt" and "insert x (set xs) \<subseteq> A" and "sorted_wrt (\<lambda>a b. \<not> lt b a) xs"
  shows "sorted_wrt (\<lambda>a b. \<not> lt b a) (insert_by lt x xs)"
  using assms(2,3)
proof (induction xs)
  case (Cons y ys)
  show ?case
  proof (cases "lt y x")
    case True
    then have "\<not> lt x y" using assms(1) Cons.prems(1) by (auto simp: weak_order_def)
    with True Cons show ?thesis by simp
  next
    case False
    moreover have "\<not> lt z x" if "z \<in> set ys" for z
      using assms(1) Cons.prems False that unfolding weak_order_def
      by (metis insert_subset list.set_intros(2) list.simps(15) sorted_wrt.simps(2) subsetD)
    ultimately show ?thesis using Cons.prems(2) by simp
  qed
qed simp

lemma sorted_sort_by:
  assumes "weak_order A lt" and "set xs \<subseteq> A"
  shows "sorted_wrt (\<lambda>a b. \<not> lt b a) (sort_by lt xs)"
  using assms(2)
proof (induction xs)
  case (Cons x xs)
  then have "sorted_wrt (\<lambda>a b. \<not> lt b a) (insert_by lt x (sort_by lt xs))"
    by (intro sorted_insert_by [OF assms(1)]) auto
  then show ?case by (simp add: sort_by_def)
qed (simp add: sort_by_def)

lemma sort_by_Cons: "sort_by lt (x # xs) = insert_by lt x (sort_by lt xs)"
  by (simp add: sort_by_def)

lemma weak_order_subset: "weak_order A lt \<Longrightarrow> B \<subseteq> A \<Longrightarrow> weak_order B lt"
  unfolding weak_order_def by blast

lemma weak_order_key: "weak_order A (\<lambda>x y. (f x :: 'k :: linorder) < f y)"
  by (auto simp: weak_order_def)

lemma insert_by_map: "insert_by lt (f x) (map f xs) = map f (insert_by (\<lambda>a b. lt (f a) (f b)) x xs)"
  by (induction xs) auto

lemma sort_by_map: "sort_by lt (map f xs) = map f (sort_by (\<lambda>a b. lt (f a) (f b)) xs)"
  by (induction xs) (simp_all add: sort_by_def insert_by_map)

end
