(* ===== verification/L0_Groups.thy ===== *)
theory L0_Groups
  imports Union_Find File_Meta Std_Sort Float64
begin

text \<open>
  The groups of overlapping level-0 files: \<open>FindL0OverlappingGroups\<close>, \<open>GetLargestOverlappingGroup\<close>,
  \<open>CalculateMaxOverlappingGroupSize\<close> and \<open>EstimateL0CompactionBytesNeededByGroups\<close> of
  \<open>db/version_set.cc\<close>, \<open>DetectL0GroupBoundaries\<close> of \<open>db/compaction/compaction_picker_level.cc\<close> and
  \<open>GetMaxL0GroupFileCount\<close> of \<open>db/l0_group_helper.cc\<close>.

  The iteration order of a \<open>std::unordered_map\<close> is unspecified: it is the parameter \<open>order\<close>, of
  which the theorems only use that it permutes. \<open>icmp\<close> is the internal comparator, \<open>ucmp\<close> the user
  comparator.
\<close>

section \<open>Grouping\<close>

definition files_overlap :: "(key \<Rightarrow> key \<Rightarrow> int) \<Rightarrow> FileMetaData \<Rightarrow> FileMetaData \<Rightarrow> bool" where
  "files_overlap icmp a b \<longleftrightarrow> icmp (largest a) (smallest b) \<ge> 0 \<and> icmp (largest b) (smallest a) \<ge> 0"

text \<open>The pairs the two nested loops unite, in order; \<open>skip\<close> tells which indices they pass over.\<close>

definition overlap_pairs :: "nat \<Rightarrow> (nat \<Rightarrow> bool) \<Rightarrow> (nat \<Rightarrow> nat \<Rightarrow> bool) \<Rightarrow> (nat \<times> nat) list" where
  "overlap_pairs n skip ov =
     concat (map (\<lambda>i. if skip i then [] else map (Pair i) (filter (\<lambda>j. \<not> skip j \<and> ov i j) [i + 1..<n]))
       [0..<n])"

definition push_group :: "nat \<times> nat \<Rightarrow> (nat, nat list) omap \<Rightarrow> (nat, nat list) omap" where
  "push_group p m = (case p of (r, i) \<Rightarrow>
     omap_upd r ((case map_of m r of None \<Rightarrow> [] | Some members \<Rightarrow> members) @ [i]) m)"

definition group_map :: "(nat \<times> nat) list \<Rightarrow> (nat, nat list) omap" where
  "group_map pairs = fold push_group pairs []"

definition uf_init :: "nat \<Rightarrow> ranked" where
  "uf_init n = ([0..<n], replicate n 0)"

type_synonym hash_order = "(nat, nat list) omap \<Rightarrow> (nat \<times> nat list) list"

record L0OverlappingGroup =
  og_files :: "FileMetaData list"
  og_smallest :: key
  og_largest :: key

definition expand_bounds :: "(key \<Rightarrow> key \<Rightarrow> int) \<Rightarrow> FileMetaData \<Rightarrow> key \<times> key \<Rightarrow> key \<times> key" where
  "expand_bounds icmp f b =
     (if icmp (smallest f) (fst b) < 0 then smallest f else fst b,
      if icmp (largest f) (snd b) > 0 then largest f else snd b)"

definition group_bounds :: "(key \<Rightarrow> key \<Rightarrow> int) \<Rightarrow> FileMetaData list \<Rightarrow> key \<times> key" where
  "group_bounds icmp fs = fold (expand_bounds icmp) fs (smallest (hd fs), largest (hd fs))"

definition make_group :: "(key \<Rightarrow> key \<Rightarrow> int) \<Rightarrow> FileMetaData list \<Rightarrow> nat list \<Rightarrow> L0OverlappingGroup" where
  "make_group icmp files idxs =
     (let fs = map (\<lambda>i. files ! i) idxs; (lo, hi) = group_bounds icmp fs
      in \<lparr>og_files = fs, og_smallest = lo, og_largest = hi\<rparr>)"

definition total_size :: "FileMetaData list \<Rightarrow> u64" where
  "total_size fs = sum_list (map GetFileSize fs)"

definition FindL0OverlappingGroups ::
  "(key \<Rightarrow> key \<Rightarrow> int) \<Rightarrow> hash_order \<Rightarrow> FileMetaData list \<Rightarrow> L0OverlappingGroup list option" where
  "FindL0OverlappingGroups icmp order files =
     (let n = length files; skip = (\<lambda>i. being_compacted (files ! i))
      in if n = 0 then Some []
         else
           do {
             u \<leftarrow> join_all unite
                    (overlap_pairs n skip (\<lambda>i j. files_overlap icmp (files ! i) (files ! j))) (uf_init n);
             roots \<leftarrow> find_all rank_find (filter (\<lambda>i. \<not> skip i) [0..<n]) u;
             Some (sort_by (\<lambda>a b. total_size (og_files a) > total_size (og_files b))
               (map (\<lambda>(r, idxs). make_group icmp files idxs)
                 (filter (\<lambda>(r, idxs). idxs \<noteq> []) (order (group_map roots)))))
           })"

definition largest_members :: "(nat \<times> nat list) list \<Rightarrow> nat list" where
  "largest_members entries =
     fold (\<lambda>(r, members) best. if length members > length best then members else best) entries []"

definition GetLargestOverlappingGroup ::
  "(key \<Rightarrow> key \<Rightarrow> int) \<Rightarrow> hash_order \<Rightarrow> FileMetaData list \<Rightarrow> FileMetaData list option" where
  "GetLargestOverlappingGroup icmp order files =
     (let n = length files
      in if n = 0 then Some []
         else if n = 1 then Some [files ! 0]
         else
           do {
             u \<leftarrow> join_all unite
                    (overlap_pairs n (\<lambda>i. False) (\<lambda>i j. files_overlap icmp (files ! i) (files ! j))) (uf_init n);
             roots \<leftarrow> find_all rank_find [0..<n] u;
             Some (map (\<lambda>i. files ! i) (largest_members (order (group_map roots))))
           })"

section \<open>Group boundaries\<close>

definition user_keys_overlap :: "(key \<Rightarrow> key \<Rightarrow> int) \<Rightarrow> FileMetaData \<Rightarrow> FileMetaData \<Rightarrow> bool" where
  "user_keys_overlap ucmp a b \<longleftrightarrow>
     \<not> (ucmp (largest_user_key a) (smallest_user_key b) < 0 \<or> ucmp (largest_user_key b) (smallest_user_key a) < 0)"

definition detect_bounds :: "(key \<Rightarrow> key \<Rightarrow> int) \<Rightarrow> FileMetaData list \<Rightarrow> key \<times> key" where
  "detect_bounds icmp fs = fold (expand_bounds icmp) (tl fs) (smallest (hd fs), largest (hd fs))"

definition DetectL0GroupBoundaries ::
  "(key \<Rightarrow> key \<Rightarrow> int) \<Rightarrow> (key \<Rightarrow> key \<Rightarrow> int) \<Rightarrow> FileMetaData list \<Rightarrow> (key \<times> key) list option" where
  "DetectL0GroupBoundaries icmp ucmp files =
     (let n = length files; skip = (\<lambda>i. being_compacted (files ! i));
          active = filter (\<lambda>i. \<not> skip i) [0..<n]
      in if n = 0 \<or> length active \<le> 1 then Some []
         else
           do {
             u \<leftarrow> join_all union_sets
                    (overlap_pairs n skip (\<lambda>i j. user_keys_overlap ucmp (files ! i) (files ! j))) [0..<n];
             roots \<leftarrow> find_all uf_find active u;
             Some (map (\<lambda>(lo, hi). (ExtractUserKey lo, ExtractUserKey hi))
               (sort_by (\<lambda>a b. icmp (fst a) (fst b) < 0)
                 (map (\<lambda>(r, idxs). detect_bounds icmp (map (\<lambda>i. files ! i) idxs)) (group_map roots))))
           })"

section \<open>Overlap depth\<close>

text \<open>An event: its key and whether it is the end of a file.\<close>

definition file_events :: "FileMetaData \<Rightarrow> (key \<times> bool) list" where
  "file_events f = [(smallest_user_key f, False), (largest_user_key f, True)]"

definition event_less :: "(key \<Rightarrow> key \<Rightarrow> int) \<Rightarrow> key \<times> bool \<Rightarrow> key \<times> bool \<Rightarrow> bool" where
  "event_less ucmp a b =
     (let c = ucmp (fst a) (fst b) in if c \<noteq> 0 then c < 0 else \<not> snd a \<and> snd b)"

fun sweep :: "int \<Rightarrow> int \<Rightarrow> (key \<times> bool) list \<Rightarrow> int" where
  "sweep current_depth max_depth [] = max_depth"
| "sweep current_depth max_depth ((k, is_end) # es) =
     (if \<not> is_end then sweep (current_depth + 1) (max max_depth (current_depth + 1)) es
      else sweep (current_depth - 1) max_depth es)"

definition CalculateMaxOverlappingGroupSize :: "(key \<Rightarrow> key \<Rightarrow> int) \<Rightarrow> FileMetaData list \<Rightarrow> int" where
  "CalculateMaxOverlappingGroupSize ucmp files =
     (case files of
        [] \<Rightarrow> 0
      | [f] \<Rightarrow> if being_compacted f then 0 else 1
      | _ \<Rightarrow>
          let active = filter (\<lambda>f. \<not> being_compacted f) files
          in if active = [] then 0
             else sweep 0 0 (sort_by (event_less ucmp) (concat (map file_events active))))"

section \<open>Greedy groups\<close>

definition touches :: "(key \<Rightarrow> key \<Rightarrow> int) \<Rightarrow> key \<Rightarrow> key \<Rightarrow> key \<times> key \<Rightarrow> bool" where
  "touches ucmp lo hi g \<longleftrightarrow> ucmp lo (snd g) \<le> 0 \<and> ucmp hi (fst g) \<ge> 0"

fun add_to_groups :: "(key \<Rightarrow> key \<Rightarrow> int) \<Rightarrow> key \<Rightarrow> key \<Rightarrow> (key \<times> key) list \<Rightarrow> (key \<times> key) list" where
  "add_to_groups ucmp lo hi [] = [(lo, hi)]"
| "add_to_groups ucmp lo hi (g # gs) =
     (if touches ucmp lo hi g
      then (if ucmp lo (fst g) < 0 then lo else fst g, if ucmp hi (snd g) > 0 then hi else snd g) # gs
      else g # add_to_groups ucmp lo hi gs)"

definition greedy_groups :: "(key \<Rightarrow> key \<Rightarrow> int) \<Rightarrow> FileMetaData list \<Rightarrow> (key \<times> key) list" where
  "greedy_groups ucmp files =
     fold (\<lambda>f. add_to_groups ucmp (smallest_user_key f) (largest_user_key f)) files []"

definition count_touching :: "(key \<Rightarrow> key \<Rightarrow> int) \<Rightarrow> FileMetaData list \<Rightarrow> key \<times> key \<Rightarrow> int" where
  "count_touching ucmp files g =
     int (length (filter (\<lambda>f. touches ucmp (smallest_user_key f) (largest_user_key f) g) files))"

definition GetMaxL0GroupFileCount :: "(key \<Rightarrow> key \<Rightarrow> int) \<Rightarrow> FileMetaData list \<Rightarrow> int" where
  "GetMaxL0GroupFileCount ucmp files =
     fold (\<lambda>g m. max m (count_touching ucmp files g)) (greedy_groups ucmp files) 0"

section \<open>Pending bytes\<close>

definition kMinFilesPerGroup :: nat where "kMinFilesPerGroup = 4"

text \<open>\<open>files\<close>: the files per level; the conversion of a \<open>double\<close> to \<open>uint64_t\<close> truncates.\<close>

definition to_uint64 :: "rat \<Rightarrow> u64" where
  "to_uint64 q = word_of_int \<lfloor>q\<rfloor>"

definition effective_l0_size :: "L0OverlappingGroup list \<Rightarrow> FileMetaData list \<Rightarrow> u64" where
  "effective_l0_size groups l0 =
     (let urgent = sum_list (map (\<lambda>g. total_size (og_files g))
            (filter (\<lambda>g. length (og_files g) \<ge> kMinFilesPerGroup) groups))
      in if urgent = 0 then total_size l0 else urgent)"

definition EstimateL0CompactionBytesNeededByGroups ::
  "(key \<Rightarrow> key \<Rightarrow> int) \<Rightarrow> hash_order \<Rightarrow> nat \<Rightarrow> FileMetaData list list \<Rightarrow> u64 option" where
  "EstimateL0CompactionBytesNeededByGroups icmp order base_level files =
     map_option (\<lambda>groups.
       if groups = [] then total_size (files ! 0)
       else
         let effective = effective_l0_size groups (files ! 0);
             l1_size = (if base_level < length files then total_size (files ! base_level) else 0);
             total_l0_size = total_size (files ! 0);
             l1_ratio = (if total_l0_size > 0 \<and> l1_size > 0 then ddiv (dbl l1_size) (dbl total_l0_size) else 0)
         in to_uint64 (dmul (dbl effective) (dadd 1 l1_ratio)))
       (FindL0OverlappingGroups icmp order (files ! 0))"

end
