(* ===== verification/L0_Group_Properties.thy ===== *)
theory L0_Group_Properties
  imports L0_Groups
begin

text \<open>
  What the groups of level-0 files are: the connected components of the overlap relation on the
  files that are not being compacted, with pairwise disjoint key ranges; and what the depth
  computed by the sweep is: the largest number of files that share a key.
\<close>

section \<open>Collecting members by root\<close>

lemma group_map_snoc: "group_map (ps @ [p]) = push_group p (group_map ps)"
  by (simp add: group_map_def)

lemma group_map_ok: "omap_ok (group_map ps)"
  by (induction ps rule: rev_induct) (auto simp: group_map_snoc push_group_def group_map_def split: prod.splits)

lemma map_of_group_map:
  "map_of (group_map ps) r =
     (if r \<in> fst ` set ps then Some (map snd (filter (\<lambda>p. fst p = r) ps)) else None)"
proof (induction ps rule: rev_induct)
  case Nil
  then show ?case by (simp add: group_map_def)
next
  case (snoc p ps)
  obtain q i where p: "p = (q, i)" by fastforce
  have "filter (\<lambda>p. fst p = q) ps = []" if "q \<notin> fst ` set ps"
    using that by (auto simp: filter_empty_conv)
  with snoc show ?case by (auto simp: group_map_snoc push_group_def p group_map_ok)
qed

lemma set_group_map:
  "set (group_map (map (\<lambda>i. (f i, i)) is)) = (\<lambda>r. (r, filter (\<lambda>i. f i = r) is)) ` f ` set is"
proof -
  let ?m = "group_map (map (\<lambda>i. (f i, i)) is)"
  have "(r, ms) \<in> set ?m \<longleftrightarrow> map_of ?m r = Some ms" for r ms
    using map_of_eq_Some_iff [OF omap_ok_distinct [OF group_map_ok]] by simp
  moreover have "map snd (filter (\<lambda>p. fst p = r) (map (\<lambda>i. (f i, i)) is)) = filter (\<lambda>i. f i = r) is" for r
    by (simp add: filter_map comp_def)
  ultimately show ?thesis by (auto simp: map_of_group_map image_iff split: if_splits)
qed

lemma distinct_group_map: "distinct (group_map ps)"
  using omap_ok_distinct [OF group_map_ok] by (simp add: distinct_map)

lemma mset_push_group:
  "omap_ok m \<Longrightarrow> mset (concat (map snd (push_group (r, i) m))) = add_mset i (mset (concat (map snd m)))"
proof (induction m)
  case (Cons e m)
  obtain k v where e: "e = (k, v)" by fastforce
  have m: "omap_ok m" and k: "\<forall>k' \<in> fst ` set m. k < k'" using Cons.prems by (auto simp: e omap_ok_Cons)
  have "map_of m r = None" if "r < k" using k that by (auto simp: map_of_eq_None_iff)
  then show ?case using Cons.IH [OF m] by (auto simp: e push_group_def)
qed (simp add: push_group_def)

lemma mset_group_map: "mset (concat (map snd (group_map ps))) = mset (map snd ps)"
proof (induction ps rule: rev_induct)
  case (snoc p ps)
  then show ?case using mset_push_group [OF group_map_ok [of ps], of "fst p" "snd p"] by (simp add: group_map_snoc)
qed (simp add: group_map_def)

section \<open>The pairs that are united\<close>

lemma set_overlap_pairs:
  "set (overlap_pairs n skip ov) = {(i, j). i < j \<and> j < n \<and> \<not> skip i \<and> \<not> skip j \<and> ov i j}"
proof -
  have "(a, b) \<in> set (overlap_pairs n skip ov) \<longleftrightarrow>
      (\<exists>i \<in> {0..<n}. (a, b) \<in> set (if skip i then [] else map (Pair i) (filter (\<lambda>j. \<not> skip j \<and> ov i j) [i + 1..<n])))" for a b
    by (simp only: overlap_pairs_def set_concat set_map image_image UN_iff set_upt)
  moreover have "(a, b) \<in> set (if skip i then [] else map (Pair i) (filter (\<lambda>j. \<not> skip j \<and> ov i j) [i + 1..<n])) \<longleftrightarrow>
      a = i \<and> \<not> skip i \<and> i < b \<and> b < n \<and> \<not> skip b \<and> ov i b" for a b i
    by auto
  ultimately show ?thesis by auto
qed

lemma uf_init_ok: "forest [0..<n]" and rep_init: "x < n \<Longrightarrow> rep [0..<n] x = x"
proof -
  show "forest [0..<n]" by (auto simp: forest_def)
  show "x < n \<Longrightarrow> rep [0..<n] x = x" by (intro rep_eq root_refl) simp
qed

text \<open>The overlap relation on the files, and that chains of united indices are chains of files.\<close>

definition overlap_rel :: "('f \<Rightarrow> 'f \<Rightarrow> bool) \<Rightarrow> 'f set \<Rightarrow> ('f \<times> 'f) set" where
  "overlap_rel ov A = {(x, y). x \<in> A \<and> y \<in> A \<and> ov x y}"

lemma linked_files:
  assumes "distinct fs" and "\<And>x y. ov x y \<Longrightarrow> ov y x"
    and "i < length fs" and "j < length fs" and "\<not> skip (fs ! i)" and "\<not> skip (fs ! j)"
  shows "(i, j) \<in> linked (overlap_pairs (length fs) (\<lambda>i. skip (fs ! i)) (\<lambda>i j. ov (fs ! i) (fs ! j))) \<longleftrightarrow>
    (fs ! i, fs ! j) \<in> (overlap_rel ov {x \<in> set fs. \<not> skip x})\<^sup>*"
proof
  let ?ps = "overlap_pairs (length fs) (\<lambda>i. skip (fs ! i)) (\<lambda>i j. ov (fs ! i) (fs ! j))"
  let ?F = "overlap_rel ov {x \<in> set fs. \<not> skip x}"
  assume "(i, j) \<in> linked ?ps"
  then show "(fs ! i, fs ! j) \<in> ?F\<^sup>*"
  proof (induction rule: rtrancl_induct)
    case (step j k)
    then have "(fs ! j, fs ! k) \<in> ?F" using assms(2) by (auto simp: set_overlap_pairs overlap_rel_def)
    with step.IH show ?case by (rule rtrancl_into_rtrancl)
  qed simp
next
  let ?ps = "overlap_pairs (length fs) (\<lambda>i. skip (fs ! i)) (\<lambda>i j. ov (fs ! i) (fs ! j))"
  let ?F = "overlap_rel ov {x \<in> set fs. \<not> skip x}"
  assume "(fs ! i, fs ! j) \<in> ?F\<^sup>*"
  then have "\<exists>k < length fs. fs ! k = fs ! j \<and> \<not> skip (fs ! k) \<and> (i, k) \<in> linked ?ps"
  proof (induction rule: rtrancl_induct)
    case base
    then show ?case using assms(3,5) by auto
  next
    case (step y z)
    then obtain k where k: "k < length fs" "fs ! k = y" "(i, k) \<in> linked ?ps" by auto
    obtain l where l: "l < length fs" "fs ! l = z" "\<not> skip z" "\<not> skip y" "ov y z"
      using step.hyps(2) by (auto simp: overlap_rel_def in_set_conv_nth)
    show ?case
    proof (cases "k = l")
      case False
      then have "(k, l) \<in> set ?ps \<union> (set ?ps)\<inverse>"
        using k l assms(2) by (auto simp: set_overlap_pairs)
      with k(3) have "(i, l) \<in> linked ?ps" by (rule rtrancl_into_rtrancl)
      with l show ?thesis by auto
    qed (use k l in auto)
  qed
  then show "(i, j) \<in> linked ?ps" using assms(1,4) nth_eq_iff_index_eq by metis
qed

section \<open>The groups are the components\<close>

abbreviation active :: "FileMetaData list \<Rightarrow> FileMetaData list" where
  "active files \<equiv> filter (\<lambda>f. \<not> being_compacted f) files"

definition permutes_map :: "('a list \<Rightarrow> 'a list) \<Rightarrow> bool" where
  "permutes_map order \<longleftrightarrow> (\<forall>m. mset (order m) = mset m)"

lemma files_overlap_sym: "files_overlap icmp a b \<Longrightarrow> files_overlap icmp b a"
  by (auto simp: files_overlap_def)

lemma og_files_make_group [simp]: "og_files (make_group icmp files idxs) = map (\<lambda>i. files ! i) idxs"
  by (simp add: make_group_def Let_def split: prod.splits)

text \<open>The result of the computation, with the representatives it found.\<close>

lemma FindL0OverlappingGroups_eq:
  assumes "files \<noteq> []"
  obtains f where
    "FindL0OverlappingGroups icmp order files =
       Some (sort_by (\<lambda>a b. total_size (og_files a) > total_size (og_files b))
         (map (\<lambda>(r, idxs). make_group icmp files idxs) (filter (\<lambda>(r, idxs). idxs \<noteq> [])
           (order (group_map (map (\<lambda>i. (f i, i)) (filter (\<lambda>i. \<not> being_compacted (files ! i)) [0..<length files])))))))"
    "\<And>a b. a < length files \<Longrightarrow> b < length files \<Longrightarrow>
       f a = f b \<longleftrightarrow> (a, b) \<in> linked (overlap_pairs (length files) (\<lambda>i. being_compacted (files ! i))
         (\<lambda>i j. files_overlap icmp (files ! i) (files ! j)))"
proof -
  let ?n = "length files"
  let ?ps = "overlap_pairs ?n (\<lambda>i. being_compacted (files ! i)) (\<lambda>i j. files_overlap icmp (files ! i) (files ! j))"
  have "\<exists>u. join_all unite ?ps (uf_init ?n) = Some u \<and> (forest (fst u) \<and> length (fst u) = ?n) \<and>
      (\<forall>a < ?n. \<forall>b < ?n. rep (fst u) a = rep (fst u) b \<longleftrightarrow> (a, b) \<in> linked ?ps)"
    by (rule ranked.join_all_components) (auto simp: uf_init_def uf_init_ok rep_init set_overlap_pairs)
  then obtain u where u: "join_all unite ?ps (uf_init ?n) = Some u" "forest (fst u)" "length (fst u) = ?n"
    "\<forall>a < ?n. \<forall>b < ?n. rep (fst u) a = rep (fst u) b \<longleftrightarrow> (a, b) \<in> linked ?ps" by blast
  have "find_all rank_find (filter (\<lambda>i. \<not> being_compacted (files ! i)) [0..<?n]) u =
      Some (map (\<lambda>i. (rep (fst u) i, i)) (filter (\<lambda>i. \<not> being_compacted (files ! i)) [0..<?n]))"
    using u(2,3) by (intro ranked.find_all_repr [where n = ?n]) auto
  then show ?thesis
    using that [of "rep (fst u)"] u(1,4) assms by (simp add: FindL0OverlappingGroups_def)
qed

lemma active_files: "map (\<lambda>i. files ! i) (filter (\<lambda>i. \<not> being_compacted (files ! i)) [0..<length files]) = active files"
  using filter_map [of "\<lambda>f. \<not> being_compacted f" "\<lambda>i. files ! i" "[0..<length files]"]
  by (simp add: map_nth comp_def)

lemma mset_concat_cong: "mset xss = mset yss \<Longrightarrow> mset (concat xss) = mset (concat yss)"
  by (metis mset_concat mset_map sum_mset_sum_list)

text \<open>
  The abstract specification of a grouping: it splits the files that are not being compacted, and
  two of them share a group exactly when a chain of overlapping ones joins them.
\<close>

definition is_grouping :: "(FileMetaData \<Rightarrow> FileMetaData \<Rightarrow> bool) \<Rightarrow> FileMetaData list \<Rightarrow> FileMetaData list list \<Rightarrow> bool" where
  "is_grouping ov files gs \<longleftrightarrow>
     mset (concat gs) = mset (active files) \<and> [] \<notin> set gs \<and>
     (\<forall>x \<in> set (active files). \<forall>y \<in> set (active files).
        (\<exists>g \<in> set gs. x \<in> set g \<and> y \<in> set g) \<longleftrightarrow> (x, y) \<in> (overlap_rel ov (set (active files)))\<^sup>*)"

lemma components_grouping:
  assumes "distinct files" and sym: "\<And>x y. ov x y \<Longrightarrow> ov y x"
    and f: "\<And>a b. a < length files \<Longrightarrow> b < length files \<Longrightarrow>
       f a = f b \<longleftrightarrow> (a, b) \<in> linked (overlap_pairs (length files) (\<lambda>i. being_compacted (files ! i)) (\<lambda>i j. ov (files ! i) (files ! j)))"
    and "is = filter (\<lambda>i. \<not> being_compacted (files ! i)) [0..<length files]"
    and "mset ms = mset (map snd (group_map (map (\<lambda>i. (f i, i)) is)))"
  shows "is_grouping ov files (map (map (\<lambda>i. files ! i)) ms)"
  unfolding is_grouping_def
proof (intro conjI ballI)
  have set_ms: "set ms = (\<lambda>r. filter (\<lambda>i. f i = r) is) ` f ` set is"
    using mset_eq_setD [OF assms(5)] by (simp add: set_group_map image_image)
  have "mset (concat ms) = mset is"
    using mset_concat_cong [OF assms(5)] mset_group_map [of "map (\<lambda>i. (f i, i)) is"] by (simp add: comp_def)
  then have "image_mset (\<lambda>i. files ! i) (mset (concat ms)) = mset (active files)"
    using arg_cong [OF active_files [of files], of mset] assms(4) by simp
  then show "mset (concat (map (map (\<lambda>i. files ! i)) ms)) = mset (active files)"
    unfolding map_concat [symmetric] by simp
  show "[] \<notin> set (map (map (\<lambda>i. files ! i)) ms)" by (auto simp: set_ms) (metis (mono_tags) filter_empty_conv)
  fix x y assume "x \<in> set (active files)" "y \<in> set (active files)"
  then obtain i j where ij: "i \<in> set is" "x = files ! i" "j \<in> set is" "y = files ! j"
    using assms(4) by (auto simp: in_set_conv_nth)
  have b: "\<And>k. k \<in> set is \<Longrightarrow> k < length files \<and> \<not> being_compacted (files ! k)" using assms(4) by auto
  have inj: "\<And>k l. k \<in> set is \<Longrightarrow> l \<in> set is \<Longrightarrow> files ! k = files ! l \<Longrightarrow> k = l"
    using b assms(1) nth_eq_iff_index_eq by metis
  have "(\<exists>g \<in> set (map (map (\<lambda>i. files ! i)) ms). x \<in> set g \<and> y \<in> set g) \<longleftrightarrow> f i = f j"
  proof
    assume "\<exists>g \<in> set (map (map (\<lambda>i. files ! i)) ms). x \<in> set g \<and> y \<in> set g"
    then obtain k l where "k \<in> set is" "l \<in> set is" "f k = f l" "files ! k = x" "files ! l = y"
      by (auto simp: set_ms)
    then show "f i = f j" using inj ij by metis
  next
    assume e: "f i = f j"
    let ?g = "map (\<lambda>i. files ! i) (filter (\<lambda>k. f k = f i) is)"
    have "?g \<in> set (map (map (\<lambda>i. files ! i)) ms)" using ij(1) unfolding set_map set_ms by blast
    moreover have "x \<in> set ?g" "y \<in> set ?g" using ij e by auto
    ultimately show "\<exists>g \<in> set (map (map (\<lambda>i. files ! i)) ms). x \<in> set g \<and> y \<in> set g" by blast
  qed
  also have "\<dots> \<longleftrightarrow> (x, y) \<in> (overlap_rel ov {x \<in> set files. \<not> being_compacted x})\<^sup>*"
    using f linked_files [where skip = being_compacted and ov = ov, OF assms(1) sym] b ij by simp
  finally show "(\<exists>g \<in> set (map (map (\<lambda>i. files ! i)) ms). x \<in> set g \<and> y \<in> set g) \<longleftrightarrow>
      (x, y) \<in> (overlap_rel ov (set (active files)))\<^sup>*" by simp
qed

lemma group_map_nonempty:
  "filter (\<lambda>(r, idxs). idxs \<noteq> []) (group_map (map (\<lambda>i. (f i, i)) is)) = group_map (map (\<lambda>i. (f i, i)) is)"
proof (rule filter_True, rule ballI)
  fix e assume "e \<in> set (group_map (map (\<lambda>i. (f i, i)) is))"
  then show "case e of (r, idxs) \<Rightarrow> idxs \<noteq> []"
    by (auto simp: set_group_map) (metis (mono_tags) filter_empty_conv)
qed

text \<open>The result as lists of indices, in the order of the result.\<close>

lemma FindL0OverlappingGroups_groups:
  assumes "distinct files" and "permutes_map order"
  obtains ms where "FindL0OverlappingGroups icmp order files = Some (map (make_group icmp files) ms)"
    and "is_grouping (files_overlap icmp) files (map (map (\<lambda>i. files ! i)) ms)"
    and "sorted_wrt (\<lambda>a b. total_size (og_files b) \<le> total_size (og_files a)) (map (make_group icmp files) ms)"
proof (cases "files = []")
  case True
  then show ?thesis using that [of "[]"]
    by (simp add: FindL0OverlappingGroups_def is_grouping_def)
next
  case False
  let ?is = "filter (\<lambda>i. \<not> being_compacted (files ! i)) [0..<length files]"
  let ?gt = "\<lambda>a b. total_size (og_files a) > total_size (og_files b)"
  let ?mk = "make_group icmp files"
  obtain f where r: "FindL0OverlappingGroups icmp order files =
       Some (sort_by ?gt (map (\<lambda>(r, idxs). ?mk idxs) (filter (\<lambda>(r, idxs). idxs \<noteq> [])
           (order (group_map (map (\<lambda>i. (f i, i)) ?is))))))"
    and f: "\<And>a b. a < length files \<Longrightarrow> b < length files \<Longrightarrow>
       f a = f b \<longleftrightarrow> (a, b) \<in> linked (overlap_pairs (length files) (\<lambda>i. being_compacted (files ! i))
         (\<lambda>i j. files_overlap icmp (files ! i) (files ! j)))"
    using FindL0OverlappingGroups_eq [OF False, of icmp order] by blast
  define es where "es = filter (\<lambda>(r, idxs). idxs \<noteq> []) (order (group_map (map (\<lambda>i. (f i, i)) ?is)))"
  define ms where "ms = sort_by (\<lambda>a b. ?gt (?mk a) (?mk b)) (map snd es)"
  have e: "sort_by ?gt (map (\<lambda>(r, idxs). ?mk idxs) es) = map ?mk ms"
  proof -
    have "map (\<lambda>(r, idxs). ?mk idxs) es = map ?mk (map snd es)" by (simp add: comp_def split_def)
    then show ?thesis unfolding ms_def by (simp only: sort_by_map)
  qed
  have "mset es = mset (group_map (map (\<lambda>i. (f i, i)) ?is))"
    unfolding es_def mset_filter assms(2) [unfolded permutes_map_def, rule_format]
    by (rule arg_cong [OF group_map_nonempty, of mset, unfolded mset_filter])
  then have "mset ms = mset (map snd (group_map (map (\<lambda>i. (f i, i)) ?is)))" by (simp add: ms_def)
  then have g: "is_grouping (files_overlap icmp) files (map (map (\<lambda>i. files ! i)) ms)"
    using components_grouping [OF assms(1) files_overlap_sym f refl] by simp
  have w: "weak_order UNIV ?gt" by (auto simp: weak_order_def)
  show ?thesis
    using that [OF _ g] r [folded es_def] e sorted_sort_by [OF w, of "map (\<lambda>(r, idxs). ?mk idxs) es"]
    by (simp add: not_less)
qed

lemma distinct_concat_disjoint:
  "distinct (concat xss) \<Longrightarrow> i < j \<Longrightarrow> j < length xss \<Longrightarrow> set (xss ! i) \<inter> set (xss ! j) = {}"
proof (induction xss arbitrary: i j)
  case (Cons xs xss)
  obtain j' where j: "j = Suc j'" using Cons.prems(2) by (cases j) auto
  show ?case
  proof (cases i)
    case 0
    have "set (xss ! j') \<subseteq> set (concat xss)" using Cons.prems(3) j nth_mem by fastforce
    then show ?thesis using Cons.prems(1) 0 j by auto
  next
    case (Suc i')
    then show ?thesis using Cons j by auto
  qed
qed simp

lemma grouping_active:
  assumes "is_grouping ov files gs" and "g \<in> set gs" and "x \<in> set g"
  shows "x \<in> set (active files)"
proof -
  have "set (concat gs) = set (active files)" using assms(1) unfolding is_grouping_def by (metis mset_eq_setD)
  moreover have "x \<in> set (concat gs)" using assms(2,3) by auto
  ultimately show ?thesis by simp
qed

lemma grouping_connected:
  assumes "is_grouping ov files gs" and "g \<in> set gs" and "x \<in> set g" and "y \<in> set g"
  shows "(x, y) \<in> (overlap_rel ov (set (active files)))\<^sup>*"
proof -
  have "\<exists>g \<in> set gs. x \<in> set g \<and> y \<in> set g" using assms(2-4) by blast
  then show ?thesis
    using assms(1) grouping_active [OF assms(1,2,3)] grouping_active [OF assms(1,2,4)]
    unfolding is_grouping_def by simp
qed

lemma grouping_separate:
  assumes "is_grouping ov files gs" and "distinct files" and "i < length gs" and "j < length gs" and "i \<noteq> j"
    and "x \<in> set (gs ! i)" and "y \<in> set (gs ! j)"
  shows "(x, y) \<notin> (overlap_rel ov (set (active files)))\<^sup>*"
proof
  assume l: "(x, y) \<in> (overlap_rel ov (set (active files)))\<^sup>*"
  have m: "mset (concat gs) = mset (active files)" using assms(1) by (simp add: is_grouping_def)
  then have d: "distinct (concat gs)" using assms(2) by (metis distinct_filter mset_eq_imp_distinct_iff)
  have "x \<in> set (active files)" "y \<in> set (active files)"
    using mset_eq_setD [OF m] assms(3-7) by (auto simp del: set_filter)
  then obtain g where "g \<in> set gs" "x \<in> set g" "y \<in> set g" using assms(1) l unfolding is_grouping_def by blast
  then obtain k where k: "k < length gs" "x \<in> set (gs ! k)" "y \<in> set (gs ! k)" by (auto simp: in_set_conv_nth)
  have "a = b" if "a < length gs" "b < length gs" "z \<in> set (gs ! a)" "z \<in> set (gs ! b)" for a b z
    using distinct_concat_disjoint [OF d, of a b] distinct_concat_disjoint [OF d, of b a] that
    by (cases a b rule: linorder_cases) auto
  then show False using k assms(3-7) by metis
qed

section \<open>Disjoint ranges\<close>

text \<open>
  Files under a comparator: \<open>lo\<close> and \<open>hi\<close> give the ends of a file, which are ordered. The keys a
  connected set of files spans are all covered by one of its files, so the spans of two components
  cannot meet.
\<close>

context comparator
begin

definition span_ok :: "('f \<Rightarrow> key) \<Rightarrow> ('f \<Rightarrow> key) \<Rightarrow> 'f set \<Rightarrow> bool" where
  "span_ok lo hi A \<longleftrightarrow> (\<forall>f \<in> A. ok (lo f) \<and> ok (hi f) \<and> cmp (lo f) (hi f) \<le> 0)"

definition meet :: "('f \<Rightarrow> key) \<Rightarrow> ('f \<Rightarrow> key) \<Rightarrow> 'f \<Rightarrow> 'f \<Rightarrow> bool" where
  "meet lo hi x y \<longleftrightarrow> cmp (lo y) (hi x) \<le> 0 \<and> cmp (lo x) (hi y) \<le> 0"

lemma connected_cover:
  assumes "span_ok lo hi A" and "(a, b) \<in> (overlap_rel (meet lo hi) A)\<^sup>*" and "a \<in> A"
    and "ok p" and "cmp (lo a) p \<le> 0" and "cmp p (hi b) \<le> 0"
  shows "\<exists>c \<in> A. (a, c) \<in> (overlap_rel (meet lo hi) A)\<^sup>* \<and> cmp (lo c) p \<le> 0 \<and> cmp p (hi c) \<le> 0"
proof -
  have "(\<exists>c \<in> A. (a, c) \<in> (overlap_rel (meet lo hi) A)\<^sup>* \<and> cmp (lo c) p \<le> 0 \<and> cmp p (hi c) \<le> 0) \<or>
      (b \<in> A \<and> cmp (lo b) p \<le> 0 \<and> cmp (hi b) p < 0)"
    using assms(2)
  proof (induction rule: rtrancl_induct)
    case base
    have "ok (hi a)" using assms(1,3) by (auto simp: span_ok_def)
    then show ?case using assms(3-5) cmp_le_swap [of p "hi a"] by (meson not_le rtrancl.rtrancl_refl)
  next
    case (step x y)
    show ?case
    proof (cases "\<exists>c \<in> A. (a, c) \<in> (overlap_rel (meet lo hi) A)\<^sup>* \<and> cmp (lo c) p \<le> 0 \<and> cmp p (hi c) \<le> 0")
      case False
      then have x: "x \<in> A" "cmp (hi x) p < 0" using step.IH by blast+
      have y: "y \<in> A" "cmp (lo y) (hi x) \<le> 0" using step.hyps(2) by (auto simp: overlap_rel_def meet_def)
      have o: "ok (hi x)" "ok (lo y)" "ok (hi y)" using assms(1) x y by (auto simp: span_ok_def)
      have l: "cmp (lo y) p \<le> 0" using cmp_le_less_trans [OF o(2,1) assms(4) y(2) x(2)] by simp
      have "(a, y) \<in> (overlap_rel (meet lo hi) A)\<^sup>*" using step.hyps by (rule rtrancl_into_rtrancl)
      then have "\<not> cmp p (hi y) \<le> 0" using False y(1) l by blast
      then have "cmp (hi y) p < 0" using cmp_swap [OF o(3) assms(4)] by simp
      with y l show ?thesis by blast
    qed simp
  qed
  moreover have "\<not> cmp (hi b) p < 0" if "b \<in> A"
    using assms(1,4,6) that cmp_swap [of "hi b" p] by (auto simp: span_ok_def)
  ultimately show ?thesis by blast
qed

text \<open>Two elements whose spans meet somewhere between two components are in one component.\<close>

lemma components_apart:
  assumes "span_ok lo hi A" and "a \<in> A" and "b \<in> A" and "c \<in> A"
    and "(a, b) \<in> (overlap_rel (meet lo hi) A)\<^sup>*"
    and "cmp (lo a) (lo c) \<le> 0" and "cmp (lo c) (hi b) \<le> 0"
  shows "(a, c) \<in> (overlap_rel (meet lo hi) A)\<^sup>*"
proof -
  have c: "ok (lo c)" "ok (hi c)" "cmp (lo c) (hi c) \<le> 0" using assms(1,4) by (auto simp: span_ok_def)
  obtain d where d: "d \<in> A" "(a, d) \<in> (overlap_rel (meet lo hi) A)\<^sup>*" "cmp (lo d) (lo c) \<le> 0" "cmp (lo c) (hi d) \<le> 0"
    using connected_cover [OF assms(1,5,2) c(1) assms(6,7)] by blast
  have "ok (lo d)" using assms(1) d(1) by (simp add: span_ok_def)
  then have "cmp (lo d) (hi c) \<le> 0" using cmp_trans [OF _ c(1,2) d(3) c(3)] by simp
  then have "(d, c) \<in> overlap_rel (meet lo hi) A" using d assms(4) by (simp add: overlap_rel_def meet_def)
  with d(2) show ?thesis by (rule rtrancl_into_rtrancl)
qed

text \<open>The bounds of a group are its least and its greatest ends.\<close>

lemma expand_bounds_fold:
  assumes "ok l" and "ok h" and "\<forall>f \<in> set fs. ok (smallest f) \<and> ok (largest f)"
    and "fold (expand_bounds cmp) fs (l, h) = (l', h')"
  shows "l' \<in> insert l (smallest ` set fs) \<and> h' \<in> insert h (largest ` set fs) \<and> cmp l' l \<le> 0 \<and> cmp h h' \<le> 0 \<and>
    (\<forall>f \<in> set fs. cmp l' (smallest f) \<le> 0 \<and> cmp (largest f) h' \<le> 0)"
  using assms
proof (induction fs arbitrary: l h)
  case Nil
  then show ?case by (auto simp: cmp_refl)
next
  case (Cons f fs)
  obtain l1 h1 where e: "expand_bounds cmp f (l, h) = (l1, h1)" by fastforce
  have o: "ok (smallest f)" "ok (largest f)" using Cons.prems(3) by auto
  have 1: "l1 \<in> {l, smallest f}" "h1 \<in> {h, largest f}" "cmp l1 l \<le> 0" "cmp h h1 \<le> 0"
    "cmp l1 (smallest f) \<le> 0" "cmp (largest f) h1 \<le> 0" "ok l1" "ok h1"
    using e o Cons.prems(1,2) cmp_le_swap cmp_swap
    by (auto simp: expand_bounds_def cmp_refl not_less split: if_splits)
  have 2: "l' \<in> insert l1 (smallest ` set fs) \<and> h' \<in> insert h1 (largest ` set fs) \<and> cmp l' l1 \<le> 0 \<and> cmp h1 h' \<le> 0 \<and>
      (\<forall>f \<in> set fs. cmp l' (smallest f) \<le> 0 \<and> cmp (largest f) h' \<le> 0)"
    using Cons.prems(3,4) e 1(7,8) by (intro Cons.IH) auto
  then have "ok l'" "ok h'" using 1(7,8) Cons.prems(3) by auto
  then have "cmp l' l \<le> 0" "cmp h h' \<le> 0" "cmp l' (smallest f) \<le> 0" "cmp (largest f) h' \<le> 0"
    using cmp_trans 1 2 o Cons.prems(1,2) by blast+
  with 1 2 show ?case by auto
qed

lemma group_bounds_hull:
  assumes "fs \<noteq> []" and "\<forall>f \<in> set fs. ok (smallest f) \<and> ok (largest f)"
    and "group_bounds cmp fs = (l, h)"
  shows "l \<in> smallest ` set fs \<and> h \<in> largest ` set fs \<and>
    (\<forall>f \<in> set fs. cmp l (smallest f) \<le> 0 \<and> cmp (largest f) h \<le> 0)"
proof -
  have "hd fs \<in> set fs" using assms(1) by simp
  then show ?thesis
    using expand_bounds_fold [of "smallest (hd fs)" "largest (hd fs)" fs l h] assms
    by (auto simp: group_bounds_def)
qed

lemma files_overlap_meet:
  assumes "span_ok smallest largest A"
  shows "overlap_rel (files_overlap cmp) A = overlap_rel (meet smallest largest) A"
  using assms cmp_le_swap by (auto simp: overlap_rel_def files_overlap_def meet_def span_ok_def)

lemma hulls_apart:
  assumes "span_ok lo hi A" and "a \<in> A" and "b \<in> A" and "c \<in> A" and "d \<in> A"
    and "(a, b) \<in> (overlap_rel (meet lo hi) A)\<^sup>*" and "(c, d) \<in> (overlap_rel (meet lo hi) A)\<^sup>*"
    and "(a, c) \<notin> (overlap_rel (meet lo hi) A)\<^sup>*" and "(c, a) \<notin> (overlap_rel (meet lo hi) A)\<^sup>*"
  shows "cmp (hi b) (lo c) < 0 \<or> cmp (hi d) (lo a) < 0"
proof (rule ccontr)
  assume "\<not> (cmp (hi b) (lo c) < 0 \<or> cmp (hi d) (lo a) < 0)"
  then have m: "cmp (lo c) (hi b) \<le> 0" "cmp (lo a) (hi d) \<le> 0"
    using assms(1-5) cmp_le_swap by (auto simp: span_ok_def not_less)
  have "cmp (lo a) (lo c) \<le> 0 \<or> cmp (lo c) (lo a) \<le> 0"
    using assms(1,2,4) cmp_total by (auto simp: span_ok_def)
  then show False
    using components_apart [OF assms(1-4,6) _ m(1)] components_apart [OF assms(1,4,5,2,7) _ m(2)] assms(8,9) by blast
qed

lemma groups_apart:
  assumes "span_ok smallest largest (set files)" and "distinct files"
    and g: "is_grouping (files_overlap cmp) files (map (map (\<lambda>i. files ! i)) ms)"
    and "i < length ms" and "j < length ms" and "i \<noteq> j"
  shows "cmp (og_largest (make_group cmp files (ms ! i))) (og_smallest (make_group cmp files (ms ! j))) < 0 \<or>
    cmp (og_largest (make_group cmp files (ms ! j))) (og_smallest (make_group cmp files (ms ! i))) < 0"
proof -
  let ?gs = "map (map (\<lambda>i. files ! i)) ms" and ?A = "set (active files)"
  have A: "span_ok smallest largest ?A" using assms(1) by (auto simp: span_ok_def)
  note R = files_overlap_meet [OF A]
  have ne: "[] \<notin> set ?gs" using g by (simp add: is_grouping_def)
  have k: "?gs ! k \<in> set ?gs" if "k < length ms" for k using that by simp
  have sub: "set (?gs ! k) \<subseteq> ?A" if "k < length ms" for k
    using grouping_active [OF g k [OF that]] by blast
  have hull: "\<exists>x \<in> set (?gs ! k). \<exists>y \<in> set (?gs ! k). og_smallest (make_group cmp files (ms ! k)) = smallest x \<and>
      og_largest (make_group cmp files (ms ! k)) = largest y" if k: "k < length ms" for k
  proof -
    obtain l h where lh: "group_bounds cmp (?gs ! k) = (l, h)" by fastforce
    have "?gs ! k \<noteq> []" using ne k by (metis length_map nth_mem)
    then have "l \<in> smallest ` set (?gs ! k) \<and> h \<in> largest ` set (?gs ! k)"
      using group_bounds_hull [OF _ _ lh] sub [OF k] A by (fastforce simp: span_ok_def)
    then show ?thesis using lh k by (auto simp: make_group_def)
  qed
  have conn: "(x, y) \<in> (overlap_rel (meet smallest largest) ?A)\<^sup>*" if "x \<in> set (?gs ! k)" "y \<in> set (?gs ! k)" "k < length ms" for x y k
    using grouping_connected [OF g k [OF that(3)] that(1,2)] unfolding R .
  obtain a b where ab: "a \<in> set (?gs ! i)" "b \<in> set (?gs ! i)"
    "og_smallest (make_group cmp files (ms ! i)) = smallest a" "og_largest (make_group cmp files (ms ! i)) = largest b"
    using hull [OF assms(4)] by blast
  obtain c d where cd: "c \<in> set (?gs ! j)" "d \<in> set (?gs ! j)"
    "og_smallest (make_group cmp files (ms ! j)) = smallest c" "og_largest (make_group cmp files (ms ! j)) = largest d"
    using hull [OF assms(5)] by blast
  have "(a, c) \<notin> (overlap_rel (meet smallest largest) ?A)\<^sup>*" "(c, a) \<notin> (overlap_rel (meet smallest largest) ?A)\<^sup>*"
    using grouping_separate [OF g assms(2), of i j a c] grouping_separate [OF g assms(2), of j i c a]
      ab(1) cd(1) assms(4-6) unfolding R by simp_all
  then show ?thesis
    using hulls_apart [OF A, of a b c d] conn [OF ab(1,2) assms(4)] conn [OF cd(1,2) assms(5)]
      subsetD [OF sub [OF assms(4)] ab(1)] subsetD [OF sub [OF assms(4)] ab(2)]
      subsetD [OF sub [OF assms(5)] cd(1)] subsetD [OF sub [OF assms(5)] cd(2)] ab(3,4) cd(3,4) by simp
qed

end

section \<open>Properties\<close>

text \<open>C8. \<open>FindL0OverlappingGroups\<close> always returns, and its result refines the abstract notion of a
  grouping: the groups split the files that are not being compacted, two files share a group
  exactly when a chain of overlapping files joins them, and larger groups come first. This holds
  for every iteration order of the hash map.\<close>

theorem L0_groups_components:
  assumes "distinct files" and "permutes_map order"
  shows "\<exists>gs. FindL0OverlappingGroups icmp order files = Some gs \<and>
    is_grouping (files_overlap icmp) files (map og_files gs) \<and>
    sorted_wrt (\<lambda>a b. total_size (og_files b) \<le> total_size (og_files a)) gs"
proof -
  obtain ms where ms: "FindL0OverlappingGroups icmp order files = Some (map (make_group icmp files) ms)"
    "is_grouping (files_overlap icmp) files (map (map (\<lambda>i. files ! i)) ms)"
    "sorted_wrt (\<lambda>a b. total_size (og_files b) \<le> total_size (og_files a)) (map (make_group icmp files) ms)"
    using FindL0OverlappingGroups_groups [OF assms] by blast
  have "map og_files (map (make_group icmp files) ms) = map (map (\<lambda>i. files ! i)) ms" by simp
  with ms show ?thesis by metis
qed

text \<open>C22. The key ranges of two different groups never meet: one group ends before the other begins.\<close>

theorem L0_groups_disjoint:
  assumes "comparator icmp ok"
    and "\<forall>f \<in> set files. ok (smallest f) \<and> ok (largest f) \<and> icmp (smallest f) (largest f) \<le> 0"
    and "distinct files" and "permutes_map order"
    and "FindL0OverlappingGroups icmp order files = Some gs"
    and "i < length gs" and "j < length gs" and "i \<noteq> j"
  shows "icmp (og_largest (gs ! i)) (og_smallest (gs ! j)) < 0 \<or>
    icmp (og_largest (gs ! j)) (og_smallest (gs ! i)) < 0"
proof -
  obtain ms where ms: "FindL0OverlappingGroups icmp order files = Some (map (make_group icmp files) ms)"
    "is_grouping (files_overlap icmp) files (map (map (\<lambda>i. files ! i)) ms)"
    using FindL0OverlappingGroups_groups [OF assms(3,4), of icmp] by blast
  have "comparator.span_ok icmp ok smallest largest (set files)"
    using assms(2) by (simp add: comparator.span_ok_def [OF assms(1)])
  then show ?thesis
    using comparator.groups_apart [OF assms(1) _ assms(3) ms(2), of i j] ms(1) assms(5-) by auto
qed

section \<open>Witnesses\<close>

definition sample_file :: "byte \<Rightarrow> byte \<Rightarrow> bool \<Rightarrow> FileMetaData" where
  "sample_file lo hi compacting = FileMetaData_default\<lparr>
     smallest := [lo, 1, 5, 0, 0, 0, 0, 0, 0], largest := [hi, 1, 5, 0, 0, 0, 0, 0, 0], being_compacted := compacting\<rparr>"

abbreviation sample_files :: "FileMetaData list" where
  "sample_files \<equiv> [sample_file 1 4 False, sample_file 3 6 False, sample_file 5 8 False, sample_file 20 30 False, sample_file 2 9 True]"

lemma permutes_map_id: "permutes_map id"
  by (simp add: permutes_map_def)

lemma sample_distinct: "distinct sample_files"
  by code_simp

theorem L0_groups_components_witness:
  "\<exists>gs. FindL0OverlappingGroups (ikc_Compare bytewise_Compare) id sample_files = Some gs \<and>
     is_grouping (files_overlap (ikc_Compare bytewise_Compare)) sample_files (map og_files gs) \<and>
     sorted_wrt (\<lambda>a b. total_size (og_files b) \<le> total_size (og_files a)) gs"
  by (rule L0_groups_components [OF sample_distinct permutes_map_id])

lemma sample_groups:
  "FindL0OverlappingGroups (ikc_Compare bytewise_Compare) id sample_files =
     Some [make_group (ikc_Compare bytewise_Compare) sample_files [0, 1, 2],
           make_group (ikc_Compare bytewise_Compare) sample_files [3]]"
  by code_simp

lemma sample_spans:
  "\<forall>f \<in> set sample_files. kNumInternalBytes \<le> length (smallest f) \<and> kNumInternalBytes \<le> length (largest f) \<and>
     ikc_Compare bytewise_Compare (smallest f) (largest f) \<le> 0"
  by code_simp

theorem L0_groups_disjoint_witness:
  "\<exists>gs. FindL0OverlappingGroups (ikc_Compare bytewise_Compare) id sample_files = Some gs \<and>
     (ikc_Compare bytewise_Compare (og_largest (gs ! 0)) (og_smallest (gs ! 1)) < 0 \<or>
      ikc_Compare bytewise_Compare (og_largest (gs ! 1)) (og_smallest (gs ! 0)) < 0)"
  using L0_groups_disjoint [OF ikc.comparator_axioms sample_spans sample_distinct permutes_map_id sample_groups, of 0 1]
  by (simp add: sample_groups)

end
