(* ===== verification/L0_Depth.thy ===== *)
theory L0_Depth
  imports L0_Group_Properties
begin

text \<open>
  The overlap depth of level 0: the sweep of \<open>CalculateMaxOverlappingGroupSize\<close> finds the largest
  number of files that share a user key, and \<open>GetMaxL0GroupFileCount\<close> is never below it.
\<close>

lemma length_filter_le_filter: "(\<And>x. x \<in> set xs \<Longrightarrow> P x \<Longrightarrow> Q x) \<Longrightarrow> length (filter P xs) \<le> length (filter Q xs)"
  by (induction xs) (auto simp: le_SucI)

section \<open>The sweep\<close>

definition weight :: "key \<times> bool \<Rightarrow> int" where
  "weight e = (if snd e then -1 else 1)"

lemma weight_simps [simp]: "weight (k, True) = -1" "weight (k, False) = 1"
  by (simp_all add: weight_def)

abbreviation net :: "(key \<times> bool) list \<Rightarrow> int" where
  "net es \<equiv> sum_list (map weight es)"

lemma net_mset: "mset es = mset es' \<Longrightarrow> net es = net es'"
  by (metis mset_map sum_mset_sum_list)

lemma sweep_ge_max: "mx \<le> sweep cur mx es"
  by (induction cur mx es rule: sweep.induct) (auto simp: le_max_iff_disj dest: order.trans)

lemma sweep_ge: "cur \<le> mx \<Longrightarrow> cur + net a \<le> sweep cur mx (a @ b)"
proof (induction cur mx a rule: sweep.induct)
  case (1 cur mx)
  then show ?case using sweep_ge_max [of mx cur b] by simp
next
  case (2 cur mx k is_end a)
  then show ?case by (cases is_end) (simp_all add: weight_def)
qed

lemma sweep_le:
  assumes "mx \<le> M" and "\<And>a e b. es = a @ e # b \<Longrightarrow> \<not> snd e \<Longrightarrow> cur + net (a @ [e]) \<le> M"
  shows "sweep cur mx es \<le> M"
  using assms
proof (induction cur mx es rule: sweep.induct)
  case (2 cur mx k is_end es)
  have step: "weight (k, is_end) + (cur + net (a @ [e])) \<le> M" if "es = a @ e # b" "\<not> snd e" for a e b
    using "2.prems"(2) [of "(k, is_end) # a" e b] that by simp
  show ?case
  proof (cases is_end)
    case True
    have "sweep (cur - 1) mx es \<le> M"
      using "2.IH"(2) [OF _ "2.prems"(1)] True step by (fastforce simp: weight_def)
    then show ?thesis using True by simp
  next
    case False
    have "cur + 1 \<le> M" using "2.prems"(2) [of "[]" "(k, is_end)" es] False by (simp add: weight_def)
    then have "sweep (cur + 1) (max mx (cur + 1)) es \<le> M"
      using "2.IH"(1) "2.prems"(1) False step by (fastforce simp: weight_def)
    then show ?thesis using False by simp
  qed
qed simp

definition depth_at :: "(key \<Rightarrow> key \<Rightarrow> int) \<Rightarrow> FileMetaData list \<Rightarrow> key \<Rightarrow> int" where
  "depth_at ucmp fs k =
     int (length (filter (\<lambda>f. ucmp (smallest_user_key f) k \<le> 0 \<and> ucmp k (largest_user_key f) \<le> 0) fs))"

lemma takeWhile_sorted:
  assumes "sorted_wrt R es" and "\<And>x y. x \<in> set es \<Longrightarrow> y \<in> set es \<Longrightarrow> R x y \<Longrightarrow> Q y \<Longrightarrow> Q x"
  shows "filter Q es = takeWhile Q es"
  using assms
proof (induction es)
  case (Cons e es)
  show ?case
  proof (cases "Q e")
    case True
    have "filter Q es = takeWhile Q es" using Cons.prems by (intro Cons.IH) auto
    then show ?thesis using True by simp
  next
    case False
    then have "\<forall>y \<in> set es. \<not> Q y" using Cons.prems by auto
    then show ?thesis using False by (simp add: filter_empty_conv)
  qed
qed simp

context comparator
begin

abbreviation event_le :: "key \<times> bool \<Rightarrow> key \<times> bool \<Rightarrow> bool" where
  "event_le a b \<equiv> \<not> event_less cmp b a"

lemma event_le_iff:
  assumes "ok (fst a)" and "ok (fst b)"
  shows "event_le a b \<longleftrightarrow> cmp (fst a) (fst b) < 0 \<or> cmp (fst a) (fst b) = 0 \<and> (snd a \<longrightarrow> snd b)"
  using assms cmp_swap [of "fst a" "fst b"] cmp_swap [of "fst b" "fst a"]
  by (auto simp: event_less_def Let_def)

lemma event_le_trans:
  assumes "ok (fst a)" "ok (fst b)" "ok (fst c)" "event_le a b" "event_le b c"
  shows "event_le a c"
proof -
  have "cmp (fst a) (fst c) < 0 \<or> cmp (fst a) (fst c) = 0 \<and> cmp (fst a) (fst b) = 0 \<and> cmp (fst b) (fst c) = 0"
    using assms cmp_less_le_trans [of "fst a" "fst b" "fst c"] cmp_le_less_trans [of "fst a" "fst b" "fst c"]
      cmp_zero_cong [of "fst a" "fst b" "fst c"] by (auto simp: event_le_iff)
  then show ?thesis using assms by (auto simp: event_le_iff)
qed

lemma event_weak_order: "weak_order {e. ok (fst e)} (event_less cmp)"
  unfolding weak_order_def
proof (intro conjI ballI impI)
  fix x y assume "x \<in> {e. ok (fst e)}" "y \<in> {e. ok (fst e)}" "event_less cmp x y"
  then show "\<not> event_less cmp y x"
    using cmp_swap [of "fst x" "fst y"] cmp_swap [of "fst y" "fst x"] by (auto simp: event_less_def Let_def split: if_splits)
next
  fix x y z assume "x \<in> {e. ok (fst e)}" "y \<in> {e. ok (fst e)}" "z \<in> {e. ok (fst e)}"
    "\<not> event_less cmp y x" "\<not> event_less cmp z y"
  then show "\<not> event_less cmp z x" using event_le_trans [of x y z] by simp
qed

lemma net_up_to:
  assumes "ok k" and "\<forall>f \<in> set fs. ok (smallest_user_key f) \<and> ok (largest_user_key f) \<and>
      cmp (smallest_user_key f) (largest_user_key f) \<le> 0"
  shows "net (filter (\<lambda>e. event_le e (k, False)) (concat (map file_events fs))) = depth_at cmp fs k"
  using assms(2)
proof (induction fs)
  case (Cons f fs)
  let ?lo = "smallest_user_key f" and ?hi = "largest_user_key f"
  have o: "ok ?lo" "ok ?hi" "cmp ?lo ?hi \<le> 0" using Cons.prems by auto
  have "event_le (?lo, False) (k, False) \<longleftrightarrow> cmp ?lo k \<le> 0" "event_le (?hi, True) (k, False) \<longleftrightarrow> cmp ?hi k < 0"
    using o assms(1) by (auto simp: event_le_iff)
  moreover have "cmp ?hi k < 0 \<longleftrightarrow> \<not> cmp k ?hi \<le> 0" using cmp_swap [OF o(2) assms(1)] by auto
  moreover have "cmp ?lo k \<le> 0" if "cmp ?hi k < 0"
    using cmp_le_less_trans [OF o(1,2) assms(1) o(3) that] by simp
  moreover have "net (filter (\<lambda>e. event_le e (k, False)) (concat (map file_events fs))) = depth_at cmp fs k"
    using Cons by simp
  ultimately show ?case by (auto simp: file_events_def [of f] depth_at_def)
qed (simp add: depth_at_def)

lemma sweep_depth:
  assumes "\<forall>f \<in> set fs. ok (smallest_user_key f) \<and> ok (largest_user_key f) \<and>
      cmp (smallest_user_key f) (largest_user_key f) \<le> 0"
    and "es = sort_by (event_less cmp) (concat (map file_events fs))"
  shows "ok k \<Longrightarrow> depth_at cmp fs k \<le> sweep 0 0 es"
    and "(\<And>f. f \<in> set fs \<Longrightarrow> depth_at cmp fs (smallest_user_key f) \<le> M) \<Longrightarrow> 0 \<le> M \<Longrightarrow> sweep 0 0 es \<le> M"
proof -
  have E: "set es \<subseteq> {e. ok (fst e)}" using assms by (auto simp: file_events_def)
  have sorted: "sorted_wrt event_le es"
    unfolding assms(2) using E assms(2) by (intro sorted_sort_by [OF event_weak_order]) auto
  have net_eq: "net (filter (\<lambda>e. event_le e (k, False)) es) = depth_at cmp fs k" if "ok k" for k
    using net_up_to [OF that assms(1)] net_mset [of "filter (\<lambda>e. event_le e (k, False)) es"
        "filter (\<lambda>e. event_le e (k, False)) (concat (map file_events fs))"]
    by (simp add: assms(2))
  show "depth_at cmp fs k \<le> sweep 0 0 es" if "ok k"
  proof -
    let ?Q = "\<lambda>e. event_le e (k, False)"
    have "filter ?Q es = takeWhile ?Q es"
    proof (rule takeWhile_sorted [OF sorted])
      fix x y assume "x \<in> set es" "y \<in> set es" "event_le x y" "?Q y"
      then show "?Q x" using event_le_trans [of x y "(k, False)"] E that by auto
    qed
    then show ?thesis using sweep_ge [of 0 0 "takeWhile ?Q es" "dropWhile ?Q es"] net_eq [OF that] by simp
  qed
  show "sweep 0 0 es \<le> M" if M: "\<And>f. f \<in> set fs \<Longrightarrow> depth_at cmp fs (smallest_user_key f) \<le> M" "0 \<le> M"
  proof (rule sweep_le [OF M(2)])
    fix a e b assume es: "es = a @ e # b" and e: "\<not> snd e"
    have "e \<in> set (concat (map file_events fs))" using es assms(2) by (metis in_set_conv_decomp set_sort_by)
    then obtain f where f: "f \<in> set fs" "e = (smallest_user_key f, False)" using e by (auto simp: file_events_def)
    let ?Q = "\<lambda>x. event_le x e"
    have "filter ?Q (a @ [e]) = a @ [e]"
      using sorted es E by (auto simp: sorted_wrt_append event_le_iff cmp_refl filter_id_conv)
    moreover have "0 \<le> net (filter ?Q b)"
    proof (rule sum_list_nonneg)
      fix w assume "w \<in> set (map weight (filter ?Q b))"
      then obtain y where y: "y \<in> set b" "?Q y" "w = weight y" by auto
      have "event_le e y" using sorted es y(1) by (auto simp: sorted_wrt_append)
      moreover have "ok (fst e)" "ok (fst y)" using E y(1) by (auto simp: es)
      ultimately have "\<not> snd y" using y(2) e cmp_swap [of "fst e" "fst y"] cmp_swap [of "fst y" "fst e"] by (auto simp: event_le_iff)
      then show "0 \<le> w" using y(3) by (simp add: weight_def)
    qed
    moreover have "filter ?Q es = filter ?Q (a @ [e]) @ filter ?Q b" by (simp add: es)
    ultimately have "net (a @ [e]) \<le> net (filter ?Q es)" by (simp only: map_append sum_list_append le_add_same_cancel1)
    also have "\<dots> \<le> M" using net_eq [of "smallest_user_key f"] M(1) [OF f(1)] f(2) assms(1) f(1) by simp
    finally show "0 + net (a @ [e]) \<le> M" by simp
  qed
qed

section \<open>Greedy groups\<close>

definition covered :: "key \<Rightarrow> key \<Rightarrow> (key \<times> key) list \<Rightarrow> bool" where
  "covered lo hi gs \<longleftrightarrow> (\<exists>g \<in> set gs. cmp (fst g) lo \<le> 0 \<and> cmp hi (snd g) \<le> 0)"

definition groups_ok :: "(key \<times> key) list \<Rightarrow> bool" where
  "groups_ok gs \<longleftrightarrow> (\<forall>g \<in> set gs. ok (fst g) \<and> ok (snd g))"

lemma groups_ok_simps [simp]:
  "groups_ok []" "groups_ok (g # gs) \<longleftrightarrow> ok (fst g) \<and> ok (snd g) \<and> groups_ok gs"
  by (simp_all add: groups_ok_def)

lemma covered_simps [simp]:
  "\<not> covered lo hi []"
  "covered lo hi (g # gs) \<longleftrightarrow> cmp (fst g) lo \<le> 0 \<and> cmp hi (snd g) \<le> 0 \<or> covered lo hi gs"
  by (simp_all add: covered_def)

lemma add_to_groups_ok: "groups_ok gs \<Longrightarrow> ok lo \<Longrightarrow> ok hi \<Longrightarrow> groups_ok (add_to_groups cmp lo hi gs)"
  by (induction gs) simp_all

lemma add_to_groups_self: "groups_ok gs \<Longrightarrow> ok lo \<Longrightarrow> ok hi \<Longrightarrow> covered lo hi (add_to_groups cmp lo hi gs)"
proof (induction gs)
  case (Cons g gs)
  then show ?case
    using cmp_swap [of lo "fst g"] cmp_swap [of "fst g" lo] cmp_swap [of hi "snd g"] cmp_swap [of "snd g" hi]
    by (simp add: cmp_refl not_less split: if_splits)
qed (simp add: cmp_refl)

lemma add_to_groups_mono:
  "groups_ok gs \<Longrightarrow> ok lo \<Longrightarrow> ok hi \<Longrightarrow> ok l \<Longrightarrow> ok h \<Longrightarrow> covered l h gs \<Longrightarrow> covered l h (add_to_groups cmp lo hi gs)"
proof (induction gs)
  case (Cons g gs)
  have o: "ok (fst g)" "ok (snd g)" "groups_ok gs" using Cons.prems(1) by simp_all
  have "cmp lo l \<le> 0" if "cmp lo (fst g) < 0" "cmp (fst g) l \<le> 0"
    using cmp_trans [of lo "fst g" l] that o Cons.prems by simp
  moreover have "cmp h hi \<le> 0" if "cmp hi (snd g) > 0" "cmp h (snd g) \<le> 0"
    using cmp_trans [of h "snd g" hi] that o Cons.prems cmp_swap [of "snd g" hi] by simp
  ultimately show ?case using Cons o by (simp split: if_splits) argo
qed simp

lemma greedy_groups_cover:
  assumes "\<forall>f \<in> set fs. ok (smallest_user_key f) \<and> ok (largest_user_key f)"
  shows "groups_ok (greedy_groups cmp fs) \<and>
    (\<forall>f \<in> set fs. covered (smallest_user_key f) (largest_user_key f) (greedy_groups cmp fs))"
  using assms
proof (induction fs rule: rev_induct)
  case Nil
  then show ?case by (simp add: greedy_groups_def groups_ok_def)
next
  case (snoc f fs)
  have "greedy_groups cmp (fs @ [f]) = add_to_groups cmp (smallest_user_key f) (largest_user_key f) (greedy_groups cmp fs)"
    by (simp add: greedy_groups_def)
  moreover have g: "groups_ok (greedy_groups cmp fs)"
    and c: "\<And>h. h \<in> set fs \<Longrightarrow> covered (smallest_user_key h) (largest_user_key h) (greedy_groups cmp fs)"
    using snoc by auto
  moreover have o: "ok (smallest_user_key f)" "ok (largest_user_key f)" using snoc.prems by auto
  moreover have "covered (smallest_user_key h) (largest_user_key h)
      (add_to_groups cmp (smallest_user_key f) (largest_user_key f) (greedy_groups cmp fs))" if "h \<in> set fs" for h
    using snoc.prems that by (intro add_to_groups_mono g o c) auto
  ultimately show ?case using add_to_groups_ok [OF g o] add_to_groups_self [OF g o] by simp
qed

lemma depth_le_count:
  assumes "\<forall>f \<in> set fs. ok (smallest_user_key f) \<and> ok (largest_user_key f)" and "ok k"
    and "0 < depth_at cmp fs k"
  shows "\<exists>g \<in> set (greedy_groups cmp fs). depth_at cmp fs k \<le> count_touching cmp fs g"
proof -
  obtain f where f: "f \<in> set fs" "cmp (smallest_user_key f) k \<le> 0" "cmp k (largest_user_key f) \<le> 0"
    using assms(3) by (auto simp: depth_at_def filter_empty_conv)
  obtain g where g: "g \<in> set (greedy_groups cmp fs)" "cmp (fst g) (smallest_user_key f) \<le> 0"
      "cmp (largest_user_key f) (snd g) \<le> 0" and o: "ok (fst g)" "ok (snd g)"
    using greedy_groups_cover [OF assms(1)] f(1) by (auto simp: covered_def groups_ok_def)
  have "ok (smallest_user_key f)" "ok (largest_user_key f)" using assms(1) f(1) by auto
  then have k: "cmp (fst g) k \<le> 0" "cmp k (snd g) \<le> 0"
    using cmp_trans [of "fst g" "smallest_user_key f" k] cmp_trans [of k "largest_user_key f" "snd g"] g f o assms(2)
    by simp_all
  have "touches cmp (smallest_user_key h) (largest_user_key h) g"
    if "h \<in> set fs" "cmp (smallest_user_key h) k \<le> 0" "cmp k (largest_user_key h) \<le> 0" for h
  proof -
    have "ok (smallest_user_key h)" "ok (largest_user_key h)" using assms(1) that(1) by auto
    then show ?thesis unfolding touches_def
      using cmp_trans [of "smallest_user_key h" k "snd g"] cmp_trans [of "fst g" k "largest_user_key h"]
        cmp_le_swap [of "fst g" "largest_user_key h"] that(2,3) k o assms(2) by auto
  qed
  then have "length (filter (\<lambda>f. cmp (smallest_user_key f) k \<le> 0 \<and> cmp k (largest_user_key f) \<le> 0) fs) \<le>
      length (filter (\<lambda>f. touches cmp (smallest_user_key f) (largest_user_key f) g) fs)"
    by (intro length_filter_le_filter) blast
  then show ?thesis using g(1) by (auto simp: depth_at_def count_touching_def)
qed

end

section \<open>Properties\<close>

text \<open>Files whose user key ranges are well formed.\<close>

definition user_ranges_ok :: "(key \<Rightarrow> key \<Rightarrow> int) \<Rightarrow> (key \<Rightarrow> bool) \<Rightarrow> FileMetaData list \<Rightarrow> bool" where
  "user_ranges_ok ucmp ok files \<longleftrightarrow>
     (\<forall>f \<in> set files. ok (smallest_user_key f) \<and> ok (largest_user_key f) \<and>
        ucmp (smallest_user_key f) (largest_user_key f) \<le> 0)"

lemma user_ranges_active: "user_ranges_ok ucmp ok files \<Longrightarrow> user_ranges_ok ucmp ok (active files)"
  by (simp add: user_ranges_ok_def)

lemma range_sweep:
  assumes "comparator ucmp ok" and "user_ranges_ok ucmp ok files"
  shows "ok k \<Longrightarrow> depth_at ucmp files k \<le> sweep 0 0 (sort_by (event_less ucmp) (concat (map file_events files)))"
    and "(\<And>f. f \<in> set files \<Longrightarrow> depth_at ucmp files (smallest_user_key f) \<le> M) \<Longrightarrow> 0 \<le> M \<Longrightarrow>
      sweep 0 0 (sort_by (event_less ucmp) (concat (map file_events files))) \<le> M"
  by (rule comparator.sweep_depth [OF assms(1) assms(2) [unfolded user_ranges_ok_def] refl]; assumption)+

lemma calculate_sweep:
  assumes c: "comparator ucmp ok" and r: "user_ranges_ok ucmp ok files"
  shows "CalculateMaxOverlappingGroupSize ucmp files =
    sweep 0 0 (sort_by (event_less ucmp) (concat (map file_events (active files))))"
proof (cases "\<exists>f. files = [f] \<and> \<not> being_compacted f")
  case True
  then obtain f where f: "files = [f]" "\<not> being_compacted f" by auto
  have o: "ok (smallest_user_key f)" "ucmp (smallest_user_key f) (smallest_user_key f) = 0"
      "ucmp (smallest_user_key f) (largest_user_key f) \<le> 0"
    using r comparator.cmp_refl [OF c] by (auto simp: f user_ranges_ok_def)
  then have "depth_at ucmp [f] (smallest_user_key f) = 1" by (simp add: depth_at_def)
  then show ?thesis
    using range_sweep(1) [OF c r o(1)] range_sweep(2) [OF c r, of 1] f by (simp add: CalculateMaxOverlappingGroupSize_def)
next
  case False
  then show ?thesis
    by (auto simp: CalculateMaxOverlappingGroupSize_def Let_def sort_by_def split: list.split)
qed

text \<open>C21. The sweep computes the overlap depth of the level-0 files that are not being compacted: no user
  key is covered by more of them than \<open>CalculateMaxOverlappingGroupSize\<close> returns, and the smallest key
  of one of them is covered by exactly that many. Without such files it returns 0. Files that are
  being compacted do not count, though a read has to look into them as well.\<close>

theorem overlap_depth:
  assumes c: "comparator ucmp ok" and r: "user_ranges_ok ucmp ok files"
  shows "(\<forall>k. ok k \<longrightarrow> depth_at ucmp (active files) k \<le> CalculateMaxOverlappingGroupSize ucmp files) \<and>
    (if active files = [] then CalculateMaxOverlappingGroupSize ucmp files = 0
     else \<exists>f \<in> set (active files).
       CalculateMaxOverlappingGroupSize ucmp files = depth_at ucmp (active files) (smallest_user_key f))"
proof -
  let ?d = "\<lambda>f. depth_at ucmp (active files) (smallest_user_key f)" and ?A = "set (active files)"
  note ra = user_ranges_active [OF r]
  have up: "depth_at ucmp (active files) k \<le> CalculateMaxOverlappingGroupSize ucmp files" if "ok k" for k
    using range_sweep(1) [OF c ra that] by (simp add: calculate_sweep [OF c r])
  have "\<exists>f \<in> ?A. CalculateMaxOverlappingGroupSize ucmp files = ?d f" if "active files \<noteq> []"
  proof -
    have "Max (?d ` ?A) \<in> ?d ` ?A" using that by (intro Max_in) (simp_all only: finite_imageI finite_set image_is_empty set_empty simp_thms)
    then obtain f where f: "f \<in> ?A" "?d f = Max (?d ` ?A)" by auto
    have "CalculateMaxOverlappingGroupSize ucmp files \<le> ?d f"
      unfolding calculate_sweep [OF c r]
    proof (rule range_sweep(2) [OF c ra])
      show "?d h \<le> ?d f" if "h \<in> ?A" for h using that unfolding f(2) by (intro Max_ge) (simp, blast)
    qed (simp add: depth_at_def)
    moreover have "ok (smallest_user_key f)" using ra f(1) by (simp add: user_ranges_ok_def)
    ultimately show ?thesis using up f(1) by (metis order.antisym)
  qed
  moreover have "CalculateMaxOverlappingGroupSize ucmp files = 0" if "active files = []"
    by (simp add: calculate_sweep [OF c r] that sort_by_def)
  ultimately show ?thesis using up by simp
qed

lemma fold_max_int: "fold (\<lambda>g m. max m (h g)) gs (m :: int) = Max (insert m (h ` set gs))"
proof (induction gs arbitrary: m)
  case (Cons g gs)
  then show ?case by (cases "gs = []") (simp_all add: max.assoc)
qed simp

lemma group_count_le: "GetMaxL0GroupFileCount ucmp files \<le> int (length files)"
  by (auto simp: GetMaxL0GroupFileCount_def fold_max_int count_touching_def)

lemma depth_le_group_count:
  assumes "comparator ucmp ok" and "user_ranges_ok ucmp ok files" and "ok k"
  shows "depth_at ucmp files k \<le> GetMaxL0GroupFileCount ucmp files"
proof (cases "0 < depth_at ucmp files k")
  case True
  then obtain g where "g \<in> set (greedy_groups ucmp files)" "depth_at ucmp files k \<le> count_touching ucmp files g"
    using comparator.depth_le_count [OF assms(1) _ assms(3) True] assms(2) by (auto simp: user_ranges_ok_def)
  then show ?thesis unfolding GetMaxL0GroupFileCount_def fold_max_int by (intro Max_ge_iff [THEN iffD2]) auto
qed (simp add: GetMaxL0GroupFileCount_def fold_max_int Max_ge_iff)

text \<open>C32. The two measures of the level-0 backlog are ordered: the overlap depth never exceeds the file
  count of the largest greedy group, which never exceeds the number of files.\<close>

theorem group_count_bounds:
  assumes c: "comparator ucmp ok" and r: "user_ranges_ok ucmp ok files"
  shows "CalculateMaxOverlappingGroupSize ucmp files \<le> GetMaxL0GroupFileCount ucmp files \<and>
    GetMaxL0GroupFileCount ucmp files \<le> int (length files)"
proof -
  have "depth_at ucmp (active files) (smallest_user_key f) \<le> GetMaxL0GroupFileCount ucmp files" if "f \<in> set (active files)" for f
  proof -
    have "depth_at ucmp (active files) (smallest_user_key f) \<le> depth_at ucmp files (smallest_user_key f)"
      unfolding depth_at_def filter_filter of_nat_le_iff by (rule length_filter_le_filter) blast
    also have "\<dots> \<le> GetMaxL0GroupFileCount ucmp files"
      using that r by (intro depth_le_group_count [OF c r]) (simp add: user_ranges_ok_def)
    finally show ?thesis .
  qed
  moreover have "0 \<le> GetMaxL0GroupFileCount ucmp files"
    by (simp add: GetMaxL0GroupFileCount_def fold_max_int Max_ge_iff)
  ultimately show ?thesis
    unfolding calculate_sweep [OF c r] using range_sweep(2) [OF c user_ranges_active [OF r]] group_count_le by blast
qed

section \<open>Witnesses\<close>

lemma sample_ranges_ok: "user_ranges_ok bytewise_Compare (\<lambda>_. True) sample_files"
  by code_simp

theorem overlap_depth_witness:
  "depth_at bytewise_Compare (active sample_files) [3, 1] \<le> CalculateMaxOverlappingGroupSize bytewise_Compare sample_files \<and>
   CalculateMaxOverlappingGroupSize bytewise_Compare sample_files = 2"
  using overlap_depth [OF bytewise.comparator_axioms sample_ranges_ok, THEN conjunct1, rule_format, of "[3, 1]"]
  by code_simp

theorem group_count_bounds_witness:
  "CalculateMaxOverlappingGroupSize bytewise_Compare sample_files \<le> GetMaxL0GroupFileCount bytewise_Compare sample_files \<and>
   GetMaxL0GroupFileCount bytewise_Compare sample_files \<le> 5 \<and>
   GetMaxL0GroupFileCount bytewise_Compare sample_files = 4"
  using group_count_bounds [OF bytewise.comparator_axioms sample_ranges_ok] by code_simp

end
