(* ===== verification/L0_Tracker.thy ===== *)
theory L0_Tracker
  imports L0_Group_Properties Key_Ranges
begin

text \<open>
  The trackers of level-0 files: \<open>L0GroupTracker\<close> of \<open>db/l0_group_tracker.h\<close> and
  \<open>db/l0_group_tracker.cc\<close>, which keeps groups of files as flushes add and compactions remove them,
  and \<open>L0RangeIndex\<close> of \<open>db/db_l0_range_index.cc\<close>, the sorted snapshot of the files' user key ranges.

  A null file pointer is \<open>None\<close>. \<open>clock\<close> gives the seconds of the steady clock when the group with a
  given id is created. Mutexes make every operation atomic.
\<close>

section \<open>Groups\<close>

record L0Group =
  group_id :: int
  file_numbers :: "u64 list"
  grp_smallest :: key
  grp_largest :: key
  grp_total_size :: u64
  creation_time :: u64

definition L0Group_new :: "int \<Rightarrow> key \<Rightarrow> key \<Rightarrow> L0Group" where
  "L0Group_new ident lo hi =
     \<lparr>group_id = ident, file_numbers = [], grp_smallest = lo, grp_largest = hi, grp_total_size = 0, creation_time = 0\<rparr>"

definition ShouldCompact :: "L0Group \<Rightarrow> bool" where
  "ShouldCompact g \<longleftrightarrow> length (file_numbers g) \<ge> 4"

definition group_Empty :: "L0Group \<Rightarrow> bool" where
  "group_Empty g \<longleftrightarrow> file_numbers g = []"

definition AddFile :: "(key \<Rightarrow> key \<Rightarrow> int) \<Rightarrow> u64 \<Rightarrow> key \<Rightarrow> key \<Rightarrow> u64 \<Rightarrow> L0Group \<Rightarrow> L0Group" where
  "AddFile cmp number file_smallest file_largest sz g =
     (let g1 = g\<lparr>file_numbers := file_numbers g @ [number], grp_total_size := grp_total_size g + sz\<rparr>
      in if length (file_numbers g1) = 1
         then g1\<lparr>grp_smallest := file_smallest, grp_largest := file_largest\<rparr>
         else g1\<lparr>grp_smallest := if cmp file_smallest (grp_smallest g1) < 0 then file_smallest else grp_smallest g1,
                 grp_largest := if cmp file_largest (grp_largest g1) > 0 then file_largest else grp_largest g1\<rparr>)"

section \<open>The tracker\<close>

record L0GroupTracker =
  groups :: "L0Group list"
  next_group_id :: int

definition L0GroupTracker_new :: L0GroupTracker where
  "L0GroupTracker_new = \<lparr>groups = [], next_group_id = 1\<rparr>"

definition CalculateOverlap :: "(key \<Rightarrow> key \<Rightarrow> int) \<Rightarrow> FileMetaData \<Rightarrow> L0Group \<Rightarrow> rat" where
  "CalculateOverlap cmp f g =
     (if group_Empty g then 0
      else if \<not> (cmp (smallest f) (grp_largest g) \<le> 0 \<and> cmp (grp_smallest g) (largest f) \<le> 0) then 0
      else fl (7 / 10))"

definition better_group ::
  "(key \<Rightarrow> key \<Rightarrow> int) \<Rightarrow> FileMetaData \<Rightarrow> nat \<times> L0Group \<Rightarrow> nat option \<times> rat \<Rightarrow> nat option \<times> rat" where
  "better_group cmp f ig best =
     (case ig of (i, g) \<Rightarrow>
        if group_Empty g then best
        else
          let overlap = CalculateOverlap cmp f g
          in if overlap > snd best then (Some i, overlap) else best)"

definition AssignFileToGroup ::
  "(key \<Rightarrow> key \<Rightarrow> int) \<Rightarrow> (int \<Rightarrow> u64) \<Rightarrow> FileMetaData \<Rightarrow> L0GroupTracker \<Rightarrow> nat option \<times> L0GroupTracker" where
  "AssignFileToGroup cmp clock f t =
     (let (best_group, max_overlap) = fold (better_group cmp f) (enumerate 0 (groups t)) (None, 0)
      in if max_overlap > 1 / 2 then (best_group, t)
         else
           (Some (length (groups t)),
            t\<lparr>groups := groups t @
                 [(L0Group_new (next_group_id t) (smallest f) (largest f))\<lparr>creation_time := clock (next_group_id t)\<rparr>],
              next_group_id := next_group_id t + 1\<rparr>))"

definition CleanupEmptyGroups :: "L0GroupTracker \<Rightarrow> L0GroupTracker" where
  "CleanupEmptyGroups t = t\<lparr>groups := filter (\<lambda>g. \<not> group_Empty g) (groups t)\<rparr>"

definition register_file ::
  "(key \<Rightarrow> key \<Rightarrow> int) \<Rightarrow> (int \<Rightarrow> u64) \<Rightarrow> FileMetaData option \<Rightarrow> L0GroupTracker \<Rightarrow> L0GroupTracker" where
  "register_file cmp clock fo t =
     (case fo of
        None \<Rightarrow> t
      | Some f \<Rightarrow>
          (case AssignFileToGroup cmp clock f t of
             (None, t1) \<Rightarrow> t1
           | (Some i, t1) \<Rightarrow>
               t1\<lparr>groups := (groups t1)
                   [i := AddFile cmp (GetNumber (fd f)) (smallest f) (largest f) (GetFileSize f) (groups t1 ! i)]\<rparr>))"

definition RegisterFlushResult ::
  "(key \<Rightarrow> key \<Rightarrow> int) \<Rightarrow> (int \<Rightarrow> u64) \<Rightarrow> FileMetaData option list \<Rightarrow> L0GroupTracker \<Rightarrow> L0GroupTracker" where
  "RegisterFlushResult cmp clock flushed_files t =
     CleanupEmptyGroups (fold (register_file cmp clock) flushed_files t)"

fun remove_number :: "u64 \<Rightarrow> L0Group list \<Rightarrow> L0Group list" where
  "remove_number n [] = []"
| "remove_number n (g # gs) =
     (if n \<in> set (file_numbers g) then g\<lparr>file_numbers := remove1 n (file_numbers g)\<rparr> # gs
      else g # remove_number n gs)"

definition RemoveFiles :: "u64 list \<Rightarrow> L0GroupTracker \<Rightarrow> L0GroupTracker" where
  "RemoveFiles numbers t =
     CleanupEmptyGroups (t\<lparr>groups := fold remove_number numbers (groups t)\<rparr>)"

definition GetGroupForCompaction :: "L0GroupTracker \<Rightarrow> L0Group option" where
  "GetGroupForCompaction t = List.find ShouldCompact (groups t)"

definition tracker_Clear :: "L0GroupTracker \<Rightarrow> L0GroupTracker" where
  "tracker_Clear t = t\<lparr>groups := [], next_group_id := 1\<rparr>"

section \<open>The range index\<close>

record L0FileRange =
  smallest_ukey :: key
  largest_ukey :: key
  range_file_number :: u64

record L0RangeIndex =
  range_map :: "(u64, L0FileRange) omap"
  sorted_cache :: "L0FileRange list"
  cache_dirty :: bool

definition L0RangeIndex_new :: L0RangeIndex where
  "L0RangeIndex_new = \<lparr>range_map = [], sorted_cache = [], cache_dirty = True\<rparr>"

definition file_range :: "FileMetaData \<Rightarrow> L0FileRange" where
  "file_range f =
     \<lparr>smallest_ukey = smallest_user_key f, largest_ukey = largest_user_key f, range_file_number = GetNumber (fd f)\<rparr>"

definition RefreshFrom :: "FileMetaData list \<Rightarrow> L0RangeIndex \<Rightarrow> L0RangeIndex" where
  "RefreshFrom l0_files ix =
     ix\<lparr>range_map := fold (\<lambda>f. omap_upd (GetNumber (fd f)) (file_range f)) l0_files [], cache_dirty := True\<rparr>"

text \<open>\<open>order\<close> is the iteration order of the hash map.\<close>

definition SnapshotRanges ::
  "((u64 \<times> L0FileRange) list \<Rightarrow> (u64 \<times> L0FileRange) list) \<Rightarrow> L0RangeIndex \<Rightarrow> L0FileRange list \<times> L0RangeIndex" where
  "SnapshotRanges order ix =
     (let ix1 = (if cache_dirty ix
                 then ix\<lparr>sorted_cache := sort_by (\<lambda>a b. smallest_ukey a < smallest_ukey b) (map snd (order (range_map ix))),
                         cache_dirty := False\<rparr>
                 else ix)
      in (sorted_cache ix1, ix1))"

section \<open>Invariant of the tracker\<close>

abbreviation tracked :: "L0GroupTracker \<Rightarrow> u64 list" where
  "tracked t \<equiv> concat (map file_numbers (groups t))"

abbreviation file_number_of :: "FileMetaData \<Rightarrow> u64" where
  "file_number_of f \<equiv> GetNumber (fd f)"

text \<open>Bounds of a group hold the files of the group; \<open>meta\<close> gives the file with a number.\<close>

definition group_covers :: "(key \<Rightarrow> key \<Rightarrow> int) \<Rightarrow> (key \<Rightarrow> bool) \<Rightarrow> (u64 \<Rightarrow> FileMetaData) \<Rightarrow> L0Group \<Rightarrow> bool" where
  "group_covers cmp ok meta g \<longleftrightarrow>
     ok (grp_smallest g) \<and> ok (grp_largest g) \<and>
     (\<forall>n \<in> set (file_numbers g). cmp (grp_smallest g) (smallest (meta n)) \<le> 0 \<and> cmp (largest (meta n)) (grp_largest g) \<le> 0)"

definition tracker_inv :: "(key \<Rightarrow> key \<Rightarrow> int) \<Rightarrow> (key \<Rightarrow> bool) \<Rightarrow> (u64 \<Rightarrow> FileMetaData) \<Rightarrow> L0GroupTracker \<Rightarrow> bool" where
  "tracker_inv cmp ok meta t \<longleftrightarrow>
     (\<forall>g \<in> set (groups t). group_covers cmp ok meta g \<and> 1 \<le> group_id g \<and> group_id g < next_group_id t) \<and>
     distinct (map group_id (groups t)) \<and> distinct (tracked t) \<and> 1 \<le> next_group_id t"

text \<open>Histories: \<open>live\<close> is the abstract state, the set of files added and not removed.\<close>

inductive tracker_history ::
  "(key \<Rightarrow> key \<Rightarrow> int) \<Rightarrow> (key \<Rightarrow> bool) \<Rightarrow> (u64 \<Rightarrow> FileMetaData) \<Rightarrow> L0GroupTracker \<Rightarrow> u64 set \<Rightarrow> bool"
  for cmp ok meta where
  start: "tracker_history cmp ok meta L0GroupTracker_new {}"
| register: "tracker_history cmp ok meta t live \<Longrightarrow>
    \<forall>f. Some f \<in> set files \<longrightarrow> f = meta (file_number_of f) \<and> ok (smallest f) \<and> ok (largest f) \<Longrightarrow>
    distinct (map file_number_of (List.map_filter id files)) \<Longrightarrow>
    live \<inter> file_number_of ` set (List.map_filter id files) = {} \<Longrightarrow>
    tracker_history cmp ok meta (RegisterFlushResult cmp clock files t)
      (live \<union> file_number_of ` set (List.map_filter id files))"
| remove: "tracker_history cmp ok meta t live \<Longrightarrow>
    tracker_history cmp ok meta (RemoveFiles numbers t) (live - set numbers)"
| clear: "tracker_history cmp ok meta t live \<Longrightarrow> tracker_history cmp ok meta (tracker_Clear t) {}"

section \<open>First fit\<close>

definition joins_group :: "(key \<Rightarrow> key \<Rightarrow> int) \<Rightarrow> FileMetaData \<Rightarrow> L0Group \<Rightarrow> bool" where
  "joins_group cmp f g \<longleftrightarrow> \<not> group_Empty g \<and> cmp (smallest f) (grp_largest g) \<le> 0 \<and> cmp (grp_smallest g) (largest f) \<le> 0"

lemma fl_seven_tenths: "fl (7 / 10) > 1 / 2" "fl (7 / 10) > 0"
  by code_simp+

lemma better_group_keep: "fold (better_group cmp f) igs (b, fl (7 / 10)) = (b, fl (7 / 10))"
proof (induction igs)
  case (Cons ig igs)
  have "better_group cmp f ig (b, fl (7 / 10)) = (b, fl (7 / 10))"
    using fl_seven_tenths(2) by (auto simp: better_group_def CalculateOverlap_def split: prod.split)
  with Cons show ?case by simp
qed simp

lemma better_group_first:
  "fold (better_group cmp f) (enumerate k gs) (None, 0) =
     (case first_index (joins_group cmp f) gs of Some i \<Rightarrow> (Some (k + i), fl (7 / 10)) | None \<Rightarrow> (None, 0))"
proof (induction gs arbitrary: k)
  case (Cons g gs)
  have "better_group cmp f (k, g) (None, 0) = (if joins_group cmp f g then (Some k, fl (7 / 10)) else (None, 0))"
    using fl_seven_tenths by (auto simp: better_group_def CalculateOverlap_def joins_group_def)
  with Cons [of "Suc k"] show ?case by (auto simp: better_group_keep split: option.splits)
qed simp

lemma AssignFileToGroup_first:
  "AssignFileToGroup cmp clock f t =
     (case first_index (joins_group cmp f) (groups t) of
        Some i \<Rightarrow> (Some i, t)
      | None \<Rightarrow>
          (Some (length (groups t)),
           t\<lparr>groups := groups t @
                [(L0Group_new (next_group_id t) (smallest f) (largest f))\<lparr>creation_time := clock (next_group_id t)\<rparr>],
             next_group_id := next_group_id t + 1\<rparr>))"
  using fl_seven_tenths by (simp add: AssignFileToGroup_def better_group_first split: option.split)

section \<open>Preservation\<close>

lemma AddFile_simps [simp]:
  "file_numbers (AddFile cmp n lo hi sz g) = file_numbers g @ [n]"
  "group_id (AddFile cmp n lo hi sz g) = group_id g"
  "grp_total_size (AddFile cmp n lo hi sz g) = grp_total_size g + sz"
  by (simp_all add: AddFile_def Let_def)

lemma group_covers_AddFile:
  assumes c: "comparator cmp ok" and "file_numbers g = [] \<or> group_covers cmp ok meta g"
    and f: "f = meta n" "ok (smallest f)" "ok (largest f)"
    and m: "\<forall>n \<in> set (file_numbers g). ok (smallest (meta n)) \<and> ok (largest (meta n))"
  shows "group_covers cmp ok meta (AddFile cmp n (smallest f) (largest f) sz g)"
proof (cases "file_numbers g = []")
  case True
  then show ?thesis using f comparator.cmp_refl [OF c] by (simp add: group_covers_def AddFile_def)
next
  case False
  let ?lo = "grp_smallest g" and ?hi = "grp_largest g"
  have g: "ok ?lo" "ok ?hi" using assms(2) False by (auto simp: group_covers_def)
  have "cmp (smallest f) (smallest (meta k)) \<le> 0" if "k \<in> set (file_numbers g)" "cmp (smallest f) ?lo < 0" for k
    using comparator.cmp_trans [OF c, of "smallest f" ?lo "smallest (meta k)"] that m f g assms(2) False
    by (auto simp: group_covers_def)
  moreover have "cmp (largest (meta k)) (largest f) \<le> 0" if "k \<in> set (file_numbers g)" "cmp (largest f) ?hi > 0" for k
    using comparator.cmp_trans [OF c, of "largest (meta k)" ?hi "largest f"] comparator.cmp_swap [OF c, of "largest f" ?hi]
      that m f g assms(2) False by (auto simp: group_covers_def)
  moreover have "cmp ?lo (smallest f) \<le> 0" if "\<not> cmp (smallest f) ?lo < 0"
    using comparator.cmp_swap [OF c, of "smallest f" ?lo] comparator.cmp_swap [OF c, of ?lo "smallest f"] that f g by auto
  ultimately show ?thesis
    using assms(2) False f g comparator.cmp_refl [OF c] by (auto simp: group_covers_def AddFile_def Let_def)
qed

lemma mset_concat_update:
  "i < length xs \<Longrightarrow> mset (concat (xs[i := xs ! i @ [n]])) = add_mset n (mset (concat xs))"
proof (induction xs arbitrary: i)
  case (Cons x xs)
  then show ?case by (cases i) auto
qed simp

lemma distinct_of_add_mset: "mset xs = add_mset n (mset ys) \<Longrightarrow> distinct ys \<Longrightarrow> n \<notin> set ys \<Longrightarrow> distinct xs"
  using mset_eq_imp_distinct_iff [of xs "n # ys"] by simp

text \<open>The files a group may hold have valid bounds.\<close>

abbreviation known :: "(key \<Rightarrow> bool) \<Rightarrow> (u64 \<Rightarrow> FileMetaData) \<Rightarrow> u64 set \<Rightarrow> bool" where
  "known ok meta live \<equiv> \<forall>n \<in> live. ok (smallest (meta n)) \<and> ok (largest (meta n))"

lemma register_at:
  assumes c: "comparator cmp ok" and inv: "tracker_inv cmp ok meta t" and k: "known ok meta (set (tracked t))"
    and f: "f = meta (file_number_of f)" "ok (smallest f)" "ok (largest f)" "file_number_of f \<notin> set (tracked t)"
    and i: "i < length (groups t)"
    and t': "t' = t\<lparr>groups := (groups t)[i := AddFile cmp (file_number_of f) (smallest f) (largest f) sz (groups t ! i)]\<rparr>"
  shows "tracker_inv cmp ok meta t' \<and> set (tracked t') = insert (file_number_of f) (set (tracked t))"
proof -
  let ?g = "AddFile cmp (file_number_of f) (smallest f) (largest f) sz (groups t ! i)"
  have mem: "groups t ! i \<in> set (groups t)" using i by simp
  have "map file_numbers (groups t') = (map file_numbers (groups t))[i := map file_numbers (groups t) ! i @ [file_number_of f]]"
    using i by (simp add: t' map_update)
  then have m: "mset (tracked t') = add_mset (file_number_of f) (mset (tracked t))"
    using mset_concat_update [of i "map file_numbers (groups t)"] i by simp
  have "group_covers cmp ok meta ?g"
    using inv k mem by (intro group_covers_AddFile [OF c] f) (auto simp: tracker_inv_def)
  moreover have "map group_id (groups t') = map group_id (groups t)" using i by (simp add: t' map_update list_update_same_conv)
  moreover have "next_group_id t' = next_group_id t" by (simp add: t')
  moreover have "\<forall>g \<in> set (groups t'). g = ?g \<or> g \<in> set (groups t)" using set_update_subset_insert [of "groups t" i ?g] by (auto simp: t')
  moreover have "group_id ?g = group_id (groups t ! i)" by simp
  ultimately have "tracker_inv cmp ok meta t'"
    using inv mem distinct_of_add_mset [OF m] f(4) unfolding tracker_inv_def by metis
  then show ?thesis using arg_cong [OF m, of set_mset] by simp
qed

lemma tracker_inv_new_group:
  assumes "tracker_inv cmp ok meta t" and "ok lo" and "ok hi"
  shows "tracker_inv cmp ok meta
    (t\<lparr>groups := groups t @ [(L0Group_new (next_group_id t) lo hi)\<lparr>creation_time := now\<rparr>], next_group_id := next_group_id t + 1\<rparr>)"
  using assms by (fastforce simp: tracker_inv_def L0Group_new_def group_covers_def)

lemma register_file_inv:
  assumes c: "comparator cmp ok" and inv: "tracker_inv cmp ok meta t" and k: "known ok meta (set (tracked t))"
    and f: "f = meta (file_number_of f)" "ok (smallest f)" "ok (largest f)" "file_number_of f \<notin> set (tracked t)"
  shows "tracker_inv cmp ok meta (register_file cmp clock (Some f) t) \<and>
    set (tracked (register_file cmp clock (Some f) t)) = insert (file_number_of f) (set (tracked t))"
proof (cases "first_index (joins_group cmp f) (groups t)")
  case None
  let ?t = "t\<lparr>groups := groups t @ [(L0Group_new (next_group_id t) (smallest f) (largest f))
      \<lparr>creation_time := clock (next_group_id t)\<rparr>], next_group_id := next_group_id t + 1\<rparr>"
  have same: "tracked ?t = tracked t" by (simp add: L0Group_new_def)
  show ?thesis
    using register_at [OF c tracker_inv_new_group [OF inv f(2,3)], of "clock (next_group_id t)" f "length (groups t)" _ "GetFileSize f"]
      None k f unfolding same by (simp add: register_file_def AssignFileToGroup_first)
next
  case (Some i)
  then show ?thesis
    using register_at [OF c inv k f _ refl, of i] first_index_SomeD [OF Some]
    by (simp add: register_file_def AssignFileToGroup_first)
qed

lemma register_files_inv:
  assumes "comparator cmp ok" and "tracker_inv cmp ok meta t" and "known ok meta (set (tracked t))"
    and "\<forall>f. Some f \<in> set files \<longrightarrow> f = meta (file_number_of f) \<and> ok (smallest f) \<and> ok (largest f)"
    and "distinct (map file_number_of (List.map_filter id files))"
    and "set (tracked t) \<inter> file_number_of ` set (List.map_filter id files) = {}"
  shows "tracker_inv cmp ok meta (fold (register_file cmp clock) files t) \<and>
    set (tracked (fold (register_file cmp clock) files t)) = set (tracked t) \<union> file_number_of ` set (List.map_filter id files)"
  using assms(2-)
proof (induction files arbitrary: t)
  case (Cons fo files)
  show ?case
  proof (cases fo)
    case None
    then show ?thesis using Cons by (simp add: register_file_def map_filter_simps)
  next
    case (Some f)
    have "f = meta (file_number_of f)" "ok (smallest f)" "ok (largest f)" "file_number_of f \<notin> set (tracked t)"
      using Cons.prems Some by (auto simp: map_filter_simps)
    note r = register_file_inv [OF assms(1) Cons.prems(1,2) this, of clock]
    have "known ok meta (set (tracked (register_file cmp clock (Some f) t)))"
      using r Cons.prems(2,3) Some by (metis insert_iff list.set_intros(1))
    then show ?thesis
      using Cons.IH [of "register_file cmp clock (Some f) t"] r Cons.prems Some by (auto simp: map_filter_simps)
  qed
qed (simp add: map_filter_simps)

lemma tracked_cleanup [simp]: "tracked (CleanupEmptyGroups t) = tracked t"
proof -
  have "concat (map file_numbers (filter (\<lambda>g. \<not> group_Empty g) gs)) = concat (map file_numbers gs)" for gs
    by (induction gs) (auto simp: group_Empty_def)
  then show ?thesis by (simp add: CleanupEmptyGroups_def)
qed

lemma cleanup_inv: "tracker_inv cmp ok meta t \<Longrightarrow> tracker_inv cmp ok meta (CleanupEmptyGroups t)"
  using tracked_cleanup [of t] unfolding tracker_inv_def
  by (simp add: CleanupEmptyGroups_def distinct_map_filter)

lemma remove_number_simps [simp]:
  "map group_id (remove_number n gs) = map group_id gs"
  "map grp_total_size (remove_number n gs) = map grp_total_size gs"
  by (induction gs) auto

lemma add_diff_single:
  assumes "n \<notin># A"
  shows "A + (B - {#n#}) = A + B - {#n#}"
proof (cases "n \<in># B")
  case True
  then show ?thesis by (rule diff_union_single_conv [symmetric])
next
  case False
  with assms have "n \<notin># A + B" by simp
  then show ?thesis using diff_single_trivial [OF False] diff_single_trivial [of n "A + B"] by metis
qed

lemma mset_remove_number:
  "mset (concat (map file_numbers (remove_number n gs))) = mset (concat (map file_numbers gs)) - {#n#}"
proof (induction gs)
  case (Cons g gs)
  show ?case
  proof (cases "n \<in> set (file_numbers g)")
    case True
    then show ?thesis by (simp add: diff_union_single_conv [symmetric])
  next
    case False
    with Cons show ?thesis by (simp add: add_diff_single)
  qed
qed simp

lemma remove_number_covers:
  "\<forall>g \<in> set gs. group_covers cmp ok meta g \<Longrightarrow> \<forall>g \<in> set (remove_number n gs). group_covers cmp ok meta g"
proof (induction gs)
  case (Cons g gs)
  have "group_covers cmp ok meta (g\<lparr>file_numbers := remove1 n (file_numbers g)\<rparr>)"
    using Cons.prems set_remove1_subset [of n "file_numbers g"] by (simp add: group_covers_def subset_iff)
  with Cons show ?case by simp
qed simp

lemma tracker_inv_alt:
  "tracker_inv cmp ok meta t \<longleftrightarrow>
     (\<forall>g \<in> set (groups t). group_covers cmp ok meta g) \<and>
     (\<forall>i \<in> set (map group_id (groups t)). 1 \<le> i \<and> i < next_group_id t) \<and>
     distinct (map group_id (groups t)) \<and> distinct (tracked t) \<and> 1 \<le> next_group_id t"
  by (auto simp: tracker_inv_def)

lemma remove_number_inv:
  assumes "tracker_inv cmp ok meta t"
  shows "tracker_inv cmp ok meta (t\<lparr>groups := remove_number n (groups t)\<rparr>) \<and>
    set (tracked (t\<lparr>groups := remove_number n (groups t)\<rparr>)) = set (tracked t) - {n}"
proof -
  have d: "distinct (tracked t)" using assms by (simp add: tracker_inv_def)
  have m: "mset (tracked (t\<lparr>groups := remove_number n (groups t)\<rparr>)) = mset (remove1 n (tracked t))"
    by (simp add: mset_remove_number)
  then have "distinct (tracked (t\<lparr>groups := remove_number n (groups t)\<rparr>))"
    using distinct_remove1 [OF d, of n] mset_eq_imp_distinct_iff [OF m] by simp
  then show ?thesis
    using assms remove_number_covers [of "groups t"] mset_eq_setD [OF m] d
    by (simp add: tracker_inv_alt)
qed

lemma remove_numbers_inv:
  assumes "tracker_inv cmp ok meta t"
  shows "tracker_inv cmp ok meta (t\<lparr>groups := fold remove_number ns (groups t)\<rparr>) \<and>
    set (tracked (t\<lparr>groups := fold remove_number ns (groups t)\<rparr>)) = set (tracked t) - set ns"
  using assms
proof (induction ns arbitrary: t)
  case (Cons n ns)
  let ?t = "t\<lparr>groups := remove_number n (groups t)\<rparr>"
  have r: "tracker_inv cmp ok meta ?t" "set (tracked ?t) = set (tracked t) - {n}"
    using remove_number_inv [OF Cons.prems, of n] by blast+
  have "set (tracked t) - set (n # ns) = set (tracked ?t) - set ns" unfolding r(2) by auto
  then show ?case using Cons.IH [OF r(1)] by (simp del: set_concat)
qed simp

lemma history_invariant:
  assumes "comparator cmp ok" and "tracker_history cmp ok meta t live"
  shows "tracker_inv cmp ok meta t \<and> set (tracked t) = live \<and> known ok meta live \<and> (\<forall>g \<in> set (groups t). file_numbers g \<noteq> [])"
  using assms(2)
proof (induction rule: tracker_history.induct)
  case start
  show ?case by (simp add: tracker_inv_def L0GroupTracker_new_def)
next
  case (register t live files clock)
  let ?r = "fold (register_file cmp clock) files t"
  have r: "tracker_inv cmp ok meta ?r \<and> set (tracked ?r) = live \<union> file_number_of ` set (List.map_filter id files)"
    using register_files_inv [OF assms(1), of meta t files clock] register by (simp del: set_concat)
  have "known ok meta (live \<union> file_number_of ` set (List.map_filter id files))"
    using register by (auto simp: List.map_filter_def)
  with r show ?case
    using cleanup_inv [of cmp ok meta ?r] tracked_cleanup [of ?r]
    by (simp add: RegisterFlushResult_def) (simp add: CleanupEmptyGroups_def group_Empty_def)
next
  case (remove t live numbers)
  let ?r = "t\<lparr>groups := fold remove_number numbers (groups t)\<rparr>"
  show ?case
    using remove remove_numbers_inv [of cmp ok meta t numbers] cleanup_inv [of cmp ok meta ?r] tracked_cleanup [of ?r]
    by (simp add: RemoveFiles_def) (simp add: CleanupEmptyGroups_def group_Empty_def)
next
  case (clear t live)
  show ?case by (simp add: tracker_Clear_def tracker_inv_def)
qed

lemma mset_omap_upd_fresh: "k \<notin> fst ` set m \<Longrightarrow> mset (omap_upd k v m) = add_mset (k, v) (mset m)"
  by (induction k v m rule: omap_upd.induct) auto

lemma mset_fold_omap_upd:
  "distinct (map k fs) \<Longrightarrow> k ` set fs \<inter> fst ` set m = {} \<Longrightarrow>
     mset (fold (\<lambda>f. omap_upd (k f) (v f)) fs m) = mset (map (\<lambda>f. (k f, v f)) fs) + mset m"
  by (induction fs arbitrary: m) (auto simp: mset_omap_upd_fresh)

section \<open>Properties\<close>

text \<open>C11. The tracker refines the set of live level-0 files. After any history of flushes (of files not
  yet tracked), removals and clears, the tracked file numbers are exactly the live ones, each in one
  group; no group is empty, the ids are unique and the range of a group holds its files.\<close>

theorem tracker_refines_live:
  assumes "comparator cmp ok" and "tracker_history cmp ok meta t live"
  shows "set (tracked t) = live \<and> distinct (tracked t) \<and> distinct (map group_id (groups t)) \<and>
    (\<forall>g \<in> set (groups t). file_numbers g \<noteq> [] \<and>
       (\<forall>n \<in> set (file_numbers g). cmp (grp_smallest g) (smallest (meta n)) \<le> 0 \<and> cmp (largest (meta n)) (grp_largest g) \<le> 0))"
  using history_invariant [OF assms] unfolding tracker_inv_def group_covers_def by blast

text \<open>C31. Compaction work is never missed: if there are more than three live files per group then
  \<open>GetGroupForCompaction\<close> returns a group, and a group it returns has at least four files, all of them live.\<close>

theorem compaction_group_found:
  assumes "comparator cmp ok" and "tracker_history cmp ok meta t live"
  shows "case GetGroupForCompaction t of
      None \<Rightarrow> card live \<le> 3 * length (groups t)
    | Some g \<Rightarrow> g \<in> set (groups t) \<and> 4 \<le> card (set (file_numbers g)) \<and> set (file_numbers g) \<subseteq> live"
proof (cases "GetGroupForCompaction t")
  case None
  then have small: "\<forall>g \<in> set (groups t). length (file_numbers g) \<le> 3"
    by (auto simp: GetGroupForCompaction_def find_None_iff ShouldCompact_def)
  have "length (concat (map file_numbers gs)) \<le> 3 * length gs" if "\<forall>g \<in> set gs. length (file_numbers g) \<le> 3" for gs
    using that by (induction gs) auto
  moreover have "card live \<le> length (tracked t)"
    using history_invariant [OF assms] card_length [of "tracked t"] by simp
  ultimately show ?thesis using None small by fastforce
next
  case (Some g)
  then have g: "g \<in> set (groups t)" "4 \<le> length (file_numbers g)"
    by (auto simp: GetGroupForCompaction_def find_Some_iff ShouldCompact_def)
  have "distinct (file_numbers g)"
    using history_invariant [OF assms] g(1) by (auto simp: tracker_inv_def distinct_concat_iff)
  moreover have "set (file_numbers g) \<subseteq> live" using history_invariant [OF assms] g(1) by auto
  ultimately show ?thesis using Some g by (simp add: distinct_card)
qed

text \<open>C33. A snapshot of the range index after a refresh holds the user key range of every level-0 file
  once, sorted by smallest key, for every iteration order of the hash map; later snapshots return the
  cached result and leave the index as it is.\<close>

theorem snapshot_ranges:
  assumes "permutes_map order" and "distinct (map file_number_of files)"
  shows "case SnapshotRanges order (RefreshFrom files ix) of (out, ix') \<Rightarrow>
    mset out = mset (map file_range files) \<and> sorted (map smallest_ukey out) \<and> SnapshotRanges order' ix' = (out, ix')"
proof -
  let ?m = "fold (\<lambda>f. omap_upd (file_number_of f) (file_range f)) files []"
  have "mset (map snd (order ?m)) = mset (map file_range files)"
    using assms mset_fold_omap_upd [of file_number_of files "[]" file_range]
    by (simp add: permutes_map_def comp_def image_mset.compositionality)
  moreover have "sorted_wrt (\<lambda>a b. \<not> smallest_ukey b < smallest_ukey a)
      (sort_by (\<lambda>a b. smallest_ukey a < smallest_ukey b) (map snd (order ?m)))"
    by (rule sorted_sort_by [OF weak_order_key subset_UNIV])
  ultimately show ?thesis
    by (simp add: SnapshotRanges_def RefreshFrom_def sorted_wrt_map not_less)
qed

section \<open>Witnesses\<close>

text \<open>Removing files does not lower the size of their group.\<close>

lemma stale_total_size:
  "map (\<lambda>g. (file_numbers g, grp_total_size g))
     (groups (RemoveFiles [1] \<lparr>groups = [(L0Group_new 1 [] [])\<lparr>file_numbers := [1, 2], grp_total_size := 30\<rparr>], next_group_id = 2\<rparr>)) =
   [([2], 30)]"
  by code_simp

definition numbered_file :: "u64 \<Rightarrow> byte \<Rightarrow> byte \<Rightarrow> FileMetaData" where
  "numbered_file n lo hi = (sample_file lo hi False)\<lparr>fd := FileDescriptor_new n 0 10 1 1\<rparr>"

definition sample_meta :: "u64 \<Rightarrow> FileMetaData" where
  "sample_meta n = (if n = 5 then numbered_file 5 20 30 else numbered_file n 1 4)"

abbreviation sample_tracker :: L0GroupTracker where
  "sample_tracker \<equiv> RemoveFiles [9] (RegisterFlushResult (ikc_Compare bytewise_Compare) (\<lambda>_. 7)
     [Some (sample_meta 1), Some (sample_meta 2), None, Some (sample_meta 5), Some (sample_meta 3), Some (sample_meta 4),
      Some (sample_meta 9)] L0GroupTracker_new)"

lemma sample_history:
  "tracker_history (ikc_Compare bytewise_Compare) (\<lambda>k. kNumInternalBytes \<le> length k) sample_meta sample_tracker {1, 2, 3, 4, 5}"
proof -
  let ?files = "[Some (sample_meta 1), Some (sample_meta 2), None, Some (sample_meta 5), Some (sample_meta 3), Some (sample_meta 4),
      Some (sample_meta 9)]"
  have n: "file_number_of (sample_meta i) = i" if "i \<in> {1, 2, 3, 4, 5, 9}" for i
    using that by (auto simp: sample_meta_def numbered_file_def FileDescriptor_new_def GetNumber_def
        PackFileNumberAndPathId_def kFileNumberMask_def)
  have ok: "kNumInternalBytes \<le> length (smallest (sample_meta i))" "kNumInternalBytes \<le> length (largest (sample_meta i))" for i
    by (simp_all add: sample_meta_def numbered_file_def sample_file_def kNumInternalBytes_def)
  have "tracker_history (ikc_Compare bytewise_Compare) (\<lambda>k. kNumInternalBytes \<le> length k) sample_meta
      (RegisterFlushResult (ikc_Compare bytewise_Compare) (\<lambda>_. 7) ?files L0GroupTracker_new)
      ({} \<union> file_number_of ` set (List.map_filter id ?files))"
    by (rule tracker_history.register [OF tracker_history.start]) (auto simp: n ok map_filter_simps)
  from tracker_history.remove [OF this, of "[9]"]
  show ?thesis by (simp add: n map_filter_simps) (simp add: insert_Diff_if insert_commute)
qed

theorem tracker_refines_live_witness:
  "set (tracked sample_tracker) = {1, 2, 3, 4, 5} \<and> distinct (tracked sample_tracker)"
  using tracker_refines_live [OF ikc.comparator_axioms sample_history] by blast

theorem compaction_group_found_witness:
  "\<exists>g. GetGroupForCompaction sample_tracker = Some g \<and> file_numbers g = [1, 2, 3, 4] \<and> set (file_numbers g) \<subseteq> {1, 2, 3, 4, 5}"
proof -
  have "map_option file_numbers (GetGroupForCompaction sample_tracker) = Some [1, 2, 3, 4]" by code_simp
  then obtain g where "GetGroupForCompaction sample_tracker = Some g" "file_numbers g = [1, 2, 3, 4]" by auto
  then show ?thesis using compaction_group_found [OF ikc.comparator_axioms sample_history] by simp
qed

theorem snapshot_ranges_witness:
  "case SnapshotRanges id (RefreshFrom [sample_meta 5, sample_meta 1] L0RangeIndex_new) of (out, ix) \<Rightarrow>
     mset out = mset (map file_range [sample_meta 5, sample_meta 1]) \<and> sorted (map smallest_ukey out) \<and>
     SnapshotRanges id ix = (out, ix)"
  by (rule snapshot_ranges [OF permutes_map_id]) code_simp

end
