(* ===== verification/Wal_Set.thy ===== *)
theory Wal_Set
  imports Edit_Parts
begin

text \<open>
  \<open>WalSet\<close> of \<open>db/wal_edit.cc\<close>: the write-ahead logs a database knows of, with the size each was
  last synced to. An operation returns its status and the new state; \<open>None\<close> is the OK status.
\<close>

record WalSet =
  wals :: "(u64, u64) omap"
  min_wal_number_to_keep :: u64

definition WalSet_new :: WalSet where
  "WalSet_new = \<lparr>wals = [], min_wal_number_to_keep = 0\<rparr>"

datatype wal_error =
    CreatedMoreThanOnce u64
  | MissingWal u64
  | FileSizeError u64
  | SizeMismatch u64 u64 u64

definition AddWal :: "WalAddition \<Rightarrow> WalSet \<Rightarrow> wal_error option \<times> WalSet" where
  "AddWal wal s =
     (if wal_number wal < min_wal_number_to_keep s then (None, s)
      else
        (case map_of (wals s) (wal_number wal) of
           None \<Rightarrow> (None, s\<lparr>wals := omap_upd (wal_number wal) (synced_size_bytes wal) (wals s)\<rparr>)
         | Some known_size \<Rightarrow>
             if \<not> HasSyncedSize (synced_size_bytes wal) then (Some (CreatedMoreThanOnce (wal_number wal)), s)
             else if HasSyncedSize known_size \<and> synced_size_bytes wal \<le> known_size then (None, s)
             else (None, s\<lparr>wals := omap_upd (wal_number wal) (synced_size_bytes wal) (wals s)\<rparr>)))"

fun AddWals :: "WalAddition list \<Rightarrow> WalSet \<Rightarrow> wal_error option \<times> WalSet" where
  "AddWals [] s = (None, s)"
| "AddWals (wal # rest) s =
     (case AddWal wal s of
        (None, s1) \<Rightarrow> AddWals rest s1
      | (Some e, s1) \<Rightarrow> (Some e, s1))"

definition DeleteWalsBefore :: "u64 \<Rightarrow> WalSet \<Rightarrow> wal_error option \<times> WalSet" where
  "DeleteWalsBefore wal s =
     (None, if wal > min_wal_number_to_keep s
            then s\<lparr>min_wal_number_to_keep := wal, wals := dropWhile (\<lambda>(n, _). n < wal) (wals s)\<rparr>
            else s)"

definition WalSet_Reset :: "WalSet \<Rightarrow> WalSet" where
  "WalSet_Reset s = s\<lparr>wals := [], min_wal_number_to_keep := 0\<rparr>"

text \<open>\<open>file_size_of\<close> is the file system: the size of the log with a given name, or an error.\<close>

fun check_wals :: "(string \<Rightarrow> u64 option) \<Rightarrow> (u64 \<rightharpoonup> string) \<Rightarrow> (u64, u64) omap \<Rightarrow> wal_error option" where
  "check_wals file_size_of logs_on_disk [] = None"
| "check_wals file_size_of logs_on_disk ((log_number, sz) # rest) =
     (if \<not> HasSyncedSize sz then check_wals file_size_of logs_on_disk rest
      else
        (case logs_on_disk log_number of
           None \<Rightarrow> Some (MissingWal log_number)
         | Some name \<Rightarrow>
             (case file_size_of name of
                None \<Rightarrow> Some (FileSizeError log_number)
              | Some log_file_size \<Rightarrow>
                  if log_file_size < sz then Some (SizeMismatch log_number sz log_file_size)
                  else check_wals file_size_of logs_on_disk rest)))"

definition CheckWals :: "(string \<Rightarrow> u64 option) \<Rightarrow> (u64 \<rightharpoonup> string) \<Rightarrow> WalSet \<Rightarrow> wal_error option" where
  "CheckWals file_size_of logs_on_disk s = check_wals file_size_of logs_on_disk (wals s)"

section \<open>Specification\<close>

datatype wal_op = Add WalAddition | DeleteBefore u64

primrec apply_op :: "wal_op \<Rightarrow> WalSet \<Rightarrow> wal_error option \<times> WalSet" where
  "apply_op (Add w) s = AddWal w s"
| "apply_op (DeleteBefore n) s = DeleteWalsBefore n s"

fun run_ops :: "wal_op list \<Rightarrow> WalSet \<Rightarrow> wal_error option \<times> WalSet" where
  "run_ops [] s = (None, s)"
| "run_ops (x # xs) s = (case apply_op x s of (None, s1) \<Rightarrow> run_ops xs s1 | (Some e, s1) \<Rightarrow> (Some e, s1))"

text \<open>What the operations announced: the deletion points and the sizes of a log.\<close>

fun deletion_points :: "wal_op list \<Rightarrow> u64 list" where
  "deletion_points [] = []"
| "deletion_points (Add w # xs) = deletion_points xs"
| "deletion_points (DeleteBefore n # xs) = n # deletion_points xs"

fun announced :: "u64 \<Rightarrow> wal_op list \<Rightarrow> u64 list" where
  "announced n [] = []"
| "announced n (Add w # xs) = (if wal_number w = n then synced_size_bytes w # announced n xs else announced n xs)"
| "announced n (DeleteBefore k # xs) = announced n xs"

text \<open>The size that remains of a list of announced sizes: the largest known one.\<close>

definition later_size :: "u64 \<Rightarrow> u64 \<Rightarrow> u64" where
  "later_size a b = (if \<not> HasSyncedSize a then b else if \<not> HasSyncedSize b then a else max a b)"

definition final_size :: "u64 list \<Rightarrow> u64" where
  "final_size szs = foldr later_size szs kUnknownWalSize"

definition wal_inv :: "WalSet \<Rightarrow> bool" where
  "wal_inv s \<longleftrightarrow> omap_ok (wals s) \<and> (\<forall>n \<in> fst ` set (wals s). min_wal_number_to_keep s \<le> n)"

section \<open>Lemmas\<close>

lemma later_size_laws:
  "later_size a b = later_size b a" "later_size (later_size a b) c = later_size a (later_size b c)"
  "later_size a kUnknownWalSize = a" "later_size kUnknownWalSize a = a"
  by (auto simp: later_size_def HasSyncedSize_def max_def)

lemma dropWhile_omap:
  "omap_ok m \<Longrightarrow> dropWhile (\<lambda>(n, _). n < k) m = filter (\<lambda>(n, _). k \<le> n) m"
proof (induction m)
  case (Cons nv m)
  obtain n v where nv: "nv = (n, v)" by (cases nv)
  have "filter (\<lambda>(n, _). k \<le> n) m = m" if "\<not> n < k"
    using Cons.prems that by (fastforce simp: nv omap_ok_Cons filter_id_conv)
  with Cons show ?case by (auto simp: nv omap_ok_Cons)
qed simp

lemma map_of_filter_ge: "map_of (filter (\<lambda>(n, _). k \<le> n) m) j = (if k \<le> j then map_of m j else None)"
  by (induction m) auto

lemma wal_inv_upd: "wal_inv s \<Longrightarrow> min_wal_number_to_keep s \<le> n \<Longrightarrow> wal_inv (s\<lparr>wals := omap_upd n v (wals s)\<rparr>)"
  by (simp add: wal_inv_def omap_ok_upd)

lemma AddWal_inv: "wal_inv s \<Longrightarrow> AddWal w s = (r, s') \<Longrightarrow> wal_inv s'"
  by (auto simp: AddWal_def wal_inv_upd split: if_splits option.splits)

lemma AddWal_effect:
  assumes "wal_inv s" and "AddWal w s = (None, s')"
  shows "min_wal_number_to_keep s' = min_wal_number_to_keep s \<and>
    map_of (wals s') = (if wal_number w < min_wal_number_to_keep s then map_of (wals s)
      else (map_of (wals s))(wal_number w \<mapsto>
        (case map_of (wals s) (wal_number w) of None \<Rightarrow> synced_size_bytes w | Some z \<Rightarrow> later_size z (synced_size_bytes w))))"
  using assms
  by (auto simp: AddWal_def wal_inv_def later_size_def max_def fun_upd_idem split: if_splits option.splits)

lemma DeleteWalsBefore_effect:
  assumes "wal_inv s" and "DeleteWalsBefore k s = (r, s')"
  shows "wal_inv s' \<and> r = None \<and> min_wal_number_to_keep s' = max (min_wal_number_to_keep s) k \<and>
    map_of (wals s') = (\<lambda>n. if n < max (min_wal_number_to_keep s) k then None else map_of (wals s) n)"
proof -
  have low: "map_of (wals s) n = None" if "n < min_wal_number_to_keep s" for n
    using assms(1) that by (force simp: wal_inv_def map_of_eq_None_iff)
  show ?thesis
    using assms low
    by (auto simp: DeleteWalsBefore_def wal_inv_def dropWhile_omap map_of_filter_ge max_def fun_eq_iff omap_ok_filter
        split: if_splits)
qed

text \<open>The state after a list of successful operations, from an arbitrary state.\<close>

lemma run_ops_effect:
  assumes "wal_inv s" and "run_ops xs s = (None, s')"
  shows "wal_inv s' \<and> min_wal_number_to_keep s' = foldr max (deletion_points xs) (min_wal_number_to_keep s) \<and>
    (\<forall>n. map_of (wals s') n =
       (if n < min_wal_number_to_keep s' then None
        else case map_of (wals s) n of
          Some z \<Rightarrow> Some (later_size z (final_size (announced n xs)))
        | None \<Rightarrow> if announced n xs = [] then None else Some (final_size (announced n xs))))"
  using assms
proof (induction xs arbitrary: s)
  case Nil
  have "map_of (wals s) n = None" if "n < min_wal_number_to_keep s" for n
    using Nil.prems(1) that by (force simp: wal_inv_def map_of_eq_None_iff)
  with Nil show ?case by (auto simp: final_size_def later_size_laws split: option.split)
next
  case (Cons x xs)
  from Cons.prems(2) obtain s1 where x: "apply_op x s = (None, s1)" and xs: "run_ops xs s1 = (None, s')"
    by (auto split: prod.splits option.splits)
  have fm: "foldr max ks (max a k) = max k (foldr max ks a)" for ks and a k :: u64
    by (induction ks) (simp_all add: max.left_commute max.commute)
  have ge: "a \<le> foldr max ks a" for ks and a :: u64 by (induction ks) (simp_all add: le_max_iff_disj)
  show ?case
  proof (cases x)
    case (Add w)
    note e = AddWal_effect [OF Cons.prems(1)] AddWal_inv [OF Cons.prems(1)]
    have e1: "wal_inv s1" "AddWal w s = (None, s1)" using x Add e(2) by auto
    note ih = Cons.IH [OF e1(1) xs] and f = e(1) [OF e1(2)]
    show ?thesis
      using ih f ge [of "min_wal_number_to_keep s" "deletion_points xs"]
      by (auto simp: Add final_size_def later_size_laws split: option.splits if_splits)
  next
    case (DeleteBefore k)
    have f: "wal_inv s1 \<and> min_wal_number_to_keep s1 = max (min_wal_number_to_keep s) k \<and>
        map_of (wals s1) = (\<lambda>n. if n < max (min_wal_number_to_keep s) k then None else map_of (wals s) n)"
      using DeleteWalsBefore_effect [OF Cons.prems(1)] x DeleteBefore by auto
    note ih = Cons.IH [OF f [THEN conjunct1] xs]
    have "max (min_wal_number_to_keep s) k \<le> min_wal_number_to_keep s'"
      using ih f ge [of "max (min_wal_number_to_keep s) k" "deletion_points xs"] by simp
    then have "map_of (wals s1) n = map_of (wals s) n" if "\<not> n < min_wal_number_to_keep s'" for n
      using f that by (metis leD le_less_linear order_trans)
    then show ?thesis using ih f unfolding DeleteBefore announced.simps deletion_points.simps by (simp add: fm)
  qed
qed

section \<open>Properties\<close>

text \<open>C23. The set of logs is independent of the order in which synced sizes and deletions commit: after
  successful operations it holds exactly the announced logs from the largest deletion point on, each
  with the largest synced size announced for it (or the unknown size).\<close>

theorem wal_set_spec:
  assumes "run_ops xs WalSet_new = (None, s)"
  shows "min_wal_number_to_keep s = foldr max (deletion_points xs) 0 \<and>
    (\<forall>n. map_of (wals s) n =
       (if n < min_wal_number_to_keep s \<or> announced n xs = [] then None else Some (final_size (announced n xs)))) \<and>
    sorted_wrt (<) (map fst (wals s))"
  using run_ops_effect [OF _ assms] by (simp add: wal_inv_def WalSet_new_def omap_ok_def)

theorem wal_set_spec_witness:
  "case run_ops [Add \<lparr>wal_number = 5, synced_size_bytes = kUnknownWalSize\<rparr>, Add \<lparr>wal_number = 5, synced_size_bytes = 20\<rparr>,
      Add \<lparr>wal_number = 3, synced_size_bytes = 7\<rparr>, DeleteBefore 4, Add \<lparr>wal_number = 5, synced_size_bytes = 10\<rparr>] WalSet_new of
     (r, s) \<Rightarrow> r = None \<and> min_wal_number_to_keep s = 4 \<and> map_of (wals s) 5 = Some 20 \<and> map_of (wals s) 3 = None"
proof -
  let ?xs = "[Add \<lparr>wal_number = 5, synced_size_bytes = kUnknownWalSize\<rparr>, Add \<lparr>wal_number = 5, synced_size_bytes = 20\<rparr>,
      Add \<lparr>wal_number = 3, synced_size_bytes = 7\<rparr>, DeleteBefore 4, Add \<lparr>wal_number = 5, synced_size_bytes = 10\<rparr>]"
  have "run_ops ?xs WalSet_new = (None, \<lparr>wals = [(5, 20)], min_wal_number_to_keep = 4\<rparr>)" by code_simp
  with wal_set_spec [OF this] show ?thesis by simp
qed

text \<open>C35. \<open>CheckWals\<close> accepts exactly the disks that hold every synced log with at least its synced size.\<close>

theorem CheckWals_correct:
  "CheckWals file_size_of logs_on_disk s = None \<longleftrightarrow>
     (\<forall>(n, sz) \<in> set (wals s). HasSyncedSize sz \<longrightarrow>
        (\<exists>name log_file_size. logs_on_disk n = Some name \<and> file_size_of name = Some log_file_size \<and> sz \<le> log_file_size))"
proof -
  have "check_wals file_size_of logs_on_disk m = None \<longleftrightarrow>
     (\<forall>(n, sz) \<in> set m. HasSyncedSize sz \<longrightarrow>
        (\<exists>name log_file_size. logs_on_disk n = Some name \<and> file_size_of name = Some log_file_size \<and> sz \<le> log_file_size))" for m
    by (induction file_size_of logs_on_disk m rule: check_wals.induct) (auto split: option.splits simp: not_less)
  then show ?thesis by (simp add: CheckWals_def)
qed

theorem CheckWals_correct_witness:
  "CheckWals (\<lambda>name. if name = ''000005.log'' then Some 30 else None) [5 \<mapsto> ''000005.log'']
     \<lparr>wals = [(5, 20), (6, kUnknownWalSize)], min_wal_number_to_keep = 4\<rparr> = None"
  unfolding CheckWals_correct by (simp add: HasSyncedSize_def)

end
