(* ===== verification/Version_Edit.thy ===== *)
theory Version_Edit
  imports Edit_Parts "HOL-Library.Monad_Syntax" "HOL-Library.Product_Lexorder"
begin

text \<open>
  \<open>VersionEdit\<close> of \<open>db/version_edit.h\<close> and \<open>db/version_edit.cc\<close>: the operations that fill an edit,
  its encoding into a manifest record (\<open>EncodeTo\<close>) and the decoder (\<open>DecodeFrom\<close>).

  A value with its \<open>has_\<close> flag is an option. The set of deleted files is a sorted list. A level is a
  C \<open>int\<close>, read from and written as 32 bits. \<open>None\<close> of \<open>EncodeTo\<close> is the result \<open>false\<close>; an error of
  \<open>DecodeFrom\<close> is the class and the message of the corruption status.
\<close>

section \<open>Tags\<close>

definition kComparator :: u32 where "kComparator = 1"
definition kLogNumber :: u32 where "kLogNumber = 2"
definition kNextFileNumber :: u32 where "kNextFileNumber = 3"
definition kLastSequence :: u32 where "kLastSequence = 4"
definition kCompactCursor :: u32 where "kCompactCursor = 5"
definition kDeletedFile :: u32 where "kDeletedFile = 6"
definition kNewFile :: u32 where "kNewFile = 7"
definition kPrevLogNumber :: u32 where "kPrevLogNumber = 9"
definition kMinLogNumberToKeep :: u32 where "kMinLogNumberToKeep = 10"
definition kNewFile2 :: u32 where "kNewFile2 = 100"
definition kNewFile3 :: u32 where "kNewFile3 = 102"
definition kNewFile4 :: u32 where "kNewFile4 = 103"
definition kColumnFamily :: u32 where "kColumnFamily = 200"
definition kColumnFamilyAdd :: u32 where "kColumnFamilyAdd = 201"
definition kColumnFamilyDrop :: u32 where "kColumnFamilyDrop = 202"
definition kMaxColumnFamily :: u32 where "kMaxColumnFamily = 203"
definition kInAtomicGroup :: u32 where "kInAtomicGroup = 300"
definition kBlobFileAddition :: u32 where "kBlobFileAddition = 400"
definition kBlobFileGarbage :: u32 where "kBlobFileGarbage = 401"
definition kTagSafeIgnoreMask :: u32 where "kTagSafeIgnoreMask = 0x2000"
definition kDbId :: u32 where "kDbId = 0x2001"
definition kBlobFileAddition_DEPRECATED :: u32 where "kBlobFileAddition_DEPRECATED = 0x2002"
definition kBlobFileGarbage_DEPRECATED :: u32 where "kBlobFileGarbage_DEPRECATED = 0x2003"
definition kWalAddition :: u32 where "kWalAddition = 0x2004"
definition kWalDeletion :: u32 where "kWalDeletion = 0x2005"
definition kFullHistoryTsLow :: u32 where "kFullHistoryTsLow = 0x2006"
definition kWalAddition2 :: u32 where "kWalAddition2 = 0x2007"
definition kWalDeletion2 :: u32 where "kWalDeletion2 = 0x2008"
definition kPersistUserDefinedTimestamps :: u32 where "kPersistUserDefinedTimestamps = 0x2009"

lemmas tag_defs = kComparator_def kLogNumber_def kNextFileNumber_def kLastSequence_def kCompactCursor_def
  kDeletedFile_def kNewFile_def kPrevLogNumber_def kMinLogNumberToKeep_def kNewFile2_def kNewFile3_def
  kNewFile4_def kColumnFamily_def kColumnFamilyAdd_def kColumnFamilyDrop_def kMaxColumnFamily_def
  kInAtomicGroup_def kBlobFileAddition_def kBlobFileGarbage_def kTagSafeIgnoreMask_def kDbId_def
  kBlobFileAddition_DEPRECATED_def kBlobFileGarbage_DEPRECATED_def kWalAddition_def kWalDeletion_def
  kFullHistoryTsLow_def kWalAddition2_def kWalDeletion2_def kPersistUserDefinedTimestamps_def

definition kTerminate :: u32 where "kTerminate = 1"
definition kNeedCompaction :: u32 where "kNeedCompaction = 2"
definition kMinLogNumberToKeepHack :: u32 where "kMinLogNumberToKeepHack = 3"
definition kOldestBlobFileNumber :: u32 where "kOldestBlobFileNumber = 4"
definition kOldestAncesterTime :: u32 where "kOldestAncesterTime = 5"
definition kFileCreationTime :: u32 where "kFileCreationTime = 6"
definition kFileChecksum :: u32 where "kFileChecksum = 7"
definition kFileChecksumFuncName :: u32 where "kFileChecksumFuncName = 8"
definition kTemperature :: u32 where "kTemperature = 9"
definition kUniqueId :: u32 where "kUniqueId = 12"
definition kEpochNumber :: u32 where "kEpochNumber = 13"
definition kCompensatedRangeDeletionSize :: u32 where "kCompensatedRangeDeletionSize = 14"
definition kTailSize :: u32 where "kTailSize = 15"
definition kUserDefinedTimestampsPersisted :: u32 where "kUserDefinedTimestampsPersisted = 16"
definition kCustomTagNonSafeIgnoreMask :: u32 where "kCustomTagNonSafeIgnoreMask = 0x40"
definition kPathId :: u32 where "kPathId = 0x41"

lemmas custom_tag_defs = kTerminate_def kNeedCompaction_def kMinLogNumberToKeepHack_def kOldestBlobFileNumber_def
  kOldestAncesterTime_def kFileCreationTime_def kFileChecksum_def kFileChecksumFuncName_def kTemperature_def
  kUniqueId_def kEpochNumber_def kCompensatedRangeDeletionSize_def kTailSize_def
  kUserDefinedTimestampsPersisted_def kCustomTagNonSafeIgnoreMask_def kPathId_def

section \<open>The edit\<close>

record VersionEdit =
  max_level :: int
  db_id :: "key option"
  comparator_name :: "key option"
  log_number :: "u64 option"
  prev_log_number :: "u64 option"
  next_file_number :: "u64 option"
  max_column_family :: "u32 option"
  min_log_number_to_keep :: "u64 option"
  last_sequence :: "u64 option"
  compact_cursors :: "(int \<times> key) list"
  deleted_files :: "(int \<times> u64) list"
  new_files :: "(int \<times> FileMetaData) list"
  blob_file_additions :: "BlobFileAddition list"
  blob_file_garbages :: "BlobFileGarbage list"
  wal_additions :: "WalAddition list"
  wal_deletion :: u64
  column_family :: u32
  is_column_family_drop :: bool
  is_column_family_add :: bool
  column_family_name :: key
  remaining_entries :: u32
  is_in_atomic_group :: bool
  is_no_manifest_write_dummy :: bool
  full_history_ts_low :: key
  persist_user_defined_timestamps :: "bool option"
  files_to_quarantine :: "u64 list"

definition VersionEdit_new :: VersionEdit where
  "VersionEdit_new =
     \<lparr>max_level = 0, db_id = None, comparator_name = None, log_number = None, prev_log_number = None,
      next_file_number = None, max_column_family = None, min_log_number_to_keep = None, last_sequence = None,
      compact_cursors = [], deleted_files = [], new_files = [], blob_file_additions = [], blob_file_garbages = [],
      wal_additions = [], wal_deletion = 0, column_family = 0, is_column_family_drop = False,
      is_column_family_add = False, column_family_name = [], remaining_entries = 0, is_in_atomic_group = False,
      is_no_manifest_write_dummy = False, full_history_ts_low = [], persist_user_defined_timestamps = None,
      files_to_quarantine = []\<rparr>"

definition ve_Clear :: "VersionEdit \<Rightarrow> VersionEdit" where
  "ve_Clear e = VersionEdit_new"

definition SetDBId :: "key \<Rightarrow> VersionEdit \<Rightarrow> VersionEdit" where
  "SetDBId ident e = e\<lparr>db_id := Some ident\<rparr>"

definition SetComparatorName :: "key \<Rightarrow> VersionEdit \<Rightarrow> VersionEdit" where
  "SetComparatorName name e = e\<lparr>comparator_name := Some name\<rparr>"

definition SetPersistUserDefinedTimestamps :: "bool \<Rightarrow> VersionEdit \<Rightarrow> VersionEdit" where
  "SetPersistUserDefinedTimestamps b e = e\<lparr>persist_user_defined_timestamps := Some b\<rparr>"

definition SetLogNumber :: "u64 \<Rightarrow> VersionEdit \<Rightarrow> VersionEdit" where
  "SetLogNumber num e = e\<lparr>log_number := Some num\<rparr>"

definition SetPrevLogNumber :: "u64 \<Rightarrow> VersionEdit \<Rightarrow> VersionEdit" where
  "SetPrevLogNumber num e = e\<lparr>prev_log_number := Some num\<rparr>"

definition SetNextFile :: "u64 \<Rightarrow> VersionEdit \<Rightarrow> VersionEdit" where
  "SetNextFile num e = e\<lparr>next_file_number := Some num\<rparr>"

definition SetMaxColumnFamily :: "u32 \<Rightarrow> VersionEdit \<Rightarrow> VersionEdit" where
  "SetMaxColumnFamily m e = e\<lparr>max_column_family := Some m\<rparr>"

definition SetMinLogNumberToKeep :: "u64 \<Rightarrow> VersionEdit \<Rightarrow> VersionEdit" where
  "SetMinLogNumberToKeep num e = e\<lparr>min_log_number_to_keep := Some num\<rparr>"

definition SetLastSequence :: "u64 \<Rightarrow> VersionEdit \<Rightarrow> VersionEdit" where
  "SetLastSequence seq e = e\<lparr>last_sequence := Some seq\<rparr>"

definition DeleteFile :: "int \<Rightarrow> u64 \<Rightarrow> VersionEdit \<Rightarrow> VersionEdit" where
  "DeleteFile level number e = e\<lparr>deleted_files := insort_insert (level, number) (deleted_files e)\<rparr>"

definition ve_AddFile :: "int \<Rightarrow> FileMetaData \<Rightarrow> VersionEdit \<Rightarrow> VersionEdit" where
  "ve_AddFile level f e =
     (let e1 = e\<lparr>new_files := new_files e @ [(level, f)],
                 files_to_quarantine := files_to_quarantine e @ [GetNumber (fd f)]\<rparr>
      in case last_sequence e1 of
           None \<Rightarrow> SetLastSequence (largest_seqno (fd f)) e1
         | Some seq \<Rightarrow> if largest_seqno (fd f) > seq then SetLastSequence (largest_seqno (fd f)) e1 else e1)"

definition AddCompactCursor :: "int \<Rightarrow> key \<Rightarrow> VersionEdit \<Rightarrow> VersionEdit" where
  "AddCompactCursor level cursor e = e\<lparr>compact_cursors := compact_cursors e @ [(level, cursor)]\<rparr>"

definition SetCompactCursors :: "key list \<Rightarrow> VersionEdit \<Rightarrow> VersionEdit" where
  "SetCompactCursors by_level e =
     e\<lparr>compact_cursors := map (\<lambda>(i, k). (int i, k)) (filter (\<lambda>(i, k). InternalKey_Valid k) (enumerate 0 by_level))\<rparr>"

definition AddBlobFile :: "BlobFileAddition \<Rightarrow> VersionEdit \<Rightarrow> VersionEdit" where
  "AddBlobFile b e =
     e\<lparr>blob_file_additions := blob_file_additions e @ [b],
       files_to_quarantine := files_to_quarantine e @ [add_blob_file_number b]\<rparr>"

definition SetBlobFileAdditions :: "BlobFileAddition list \<Rightarrow> VersionEdit \<Rightarrow> VersionEdit" where
  "SetBlobFileAdditions bs e =
     e\<lparr>blob_file_additions := bs, files_to_quarantine := files_to_quarantine e @ map add_blob_file_number bs\<rparr>"

definition AddBlobFileGarbage :: "BlobFileGarbage \<Rightarrow> VersionEdit \<Rightarrow> VersionEdit" where
  "AddBlobFileGarbage b e = e\<lparr>blob_file_garbages := blob_file_garbages e @ [b]\<rparr>"

definition SetBlobFileGarbages :: "BlobFileGarbage list \<Rightarrow> VersionEdit \<Rightarrow> VersionEdit" where
  "SetBlobFileGarbages bs e = e\<lparr>blob_file_garbages := bs\<rparr>"

definition ve_AddWal :: "u64 \<Rightarrow> u64 \<Rightarrow> VersionEdit \<Rightarrow> VersionEdit" where
  "ve_AddWal number sz e =
     e\<lparr>wal_additions := wal_additions e @ [\<lparr>wal_number = number, synced_size_bytes = sz\<rparr>]\<rparr>"

definition ve_DeleteWalsBefore :: "u64 \<Rightarrow> VersionEdit \<Rightarrow> VersionEdit" where
  "ve_DeleteWalsBefore number e = e\<lparr>wal_deletion := number\<rparr>"

definition NumEntries :: "VersionEdit \<Rightarrow> nat" where
  "NumEntries e = length (new_files e) + length (deleted_files e) + length (blob_file_additions e) +
     length (blob_file_garbages e) + length (wal_additions e) + (if wal_deletion e \<noteq> 0 then 1 else 0)"

definition IsWalManipulation :: "VersionEdit \<Rightarrow> bool" where
  "IsWalManipulation e \<longleftrightarrow>
     (let entries = NumEntries e
      in entries > 0 \<and> (entries = length (wal_additions e) \<or> entries = (if wal_deletion e \<noteq> 0 then 1 else 0)))"

definition SetColumnFamily :: "u32 \<Rightarrow> VersionEdit \<Rightarrow> VersionEdit" where
  "SetColumnFamily ident e = e\<lparr>column_family := ident\<rparr>"

definition AddColumnFamily :: "key \<Rightarrow> VersionEdit \<Rightarrow> VersionEdit" where
  "AddColumnFamily name e = e\<lparr>is_column_family_add := True, column_family_name := name\<rparr>"

definition DropColumnFamily :: "VersionEdit \<Rightarrow> VersionEdit" where
  "DropColumnFamily e = e\<lparr>is_column_family_drop := True\<rparr>"

definition MarkAtomicGroup :: "u32 \<Rightarrow> VersionEdit \<Rightarrow> VersionEdit" where
  "MarkAtomicGroup n e = e\<lparr>is_in_atomic_group := True, remaining_entries := n\<rparr>"

definition SetRemainingEntries :: "u32 \<Rightarrow> VersionEdit \<Rightarrow> VersionEdit" where
  "SetRemainingEntries n e = e\<lparr>remaining_entries := n\<rparr>"

definition MarkNoManifestWriteDummy :: "VersionEdit \<Rightarrow> VersionEdit" where
  "MarkNoManifestWriteDummy e = e\<lparr>is_no_manifest_write_dummy := True\<rparr>"

definition SetFullHistoryTsLow :: "key \<Rightarrow> VersionEdit \<Rightarrow> VersionEdit" where
  "SetFullHistoryTsLow ts e = e\<lparr>full_history_ts_low := ts\<rparr>"

section \<open>Encoding\<close>

text \<open>A record is a tag followed by its payload. \<open>when_some\<close> writes one if its \<open>has_\<close> flag is set.\<close>

definition when_some :: "(key \<Rightarrow> 'a \<Rightarrow> key) \<Rightarrow> 'a option \<Rightarrow> key \<Rightarrow> key" where
  "when_some put x dst = (case x of None \<Rightarrow> dst | Some v \<Rightarrow> put dst v)"

definition int_bits :: "int \<Rightarrow> u32" where
  "int_bits level = word_of_int level"

definition encode_numbers :: "VersionEdit \<Rightarrow> key \<Rightarrow> key" where
  "encode_numbers e dst =
     (let d1 = when_some (\<lambda>d. PutLengthPrefixedSlice (PutVarint32 d kDbId)) (db_id e) dst;
          d2 = when_some (\<lambda>d. PutLengthPrefixedSlice (PutVarint32 d kComparator)) (comparator_name e) d1;
          d3 = when_some (\<lambda>d. PutVarint32Varint64 d kLogNumber) (log_number e) d2;
          d4 = when_some (\<lambda>d. PutVarint32Varint64 d kPrevLogNumber) (prev_log_number e) d3;
          d5 = when_some (\<lambda>d. PutVarint32Varint64 d kNextFileNumber) (next_file_number e) d4;
          d6 = when_some (\<lambda>d. PutVarint32Varint32 d kMaxColumnFamily) (max_column_family e) d5;
          d7 = when_some (\<lambda>d. PutVarint32Varint64 d kMinLogNumberToKeep) (min_log_number_to_keep e) d6
      in when_some (\<lambda>d. PutVarint32Varint64 d kLastSequence) (last_sequence e) d7)"

definition encode_cursor :: "int \<times> key \<Rightarrow> key \<Rightarrow> key" where
  "encode_cursor c dst =
     (if InternalKey_Valid (snd c)
      then PutLengthPrefixedSlice (PutVarint32 (PutVarint32 dst kCompactCursor) (int_bits (fst c))) (snd c)
      else dst)"

definition encode_deleted :: "int \<times> u64 \<Rightarrow> key \<Rightarrow> key" where
  "encode_deleted d dst = PutVarint32Varint32Varint64 dst kDeletedFile (int_bits (fst d)) (snd d)"

definition EncodeFileBoundaries :: "key \<Rightarrow> FileMetaData \<Rightarrow> nat \<Rightarrow> key" where
  "EncodeFileBoundaries dst meta ts_sz =
     (if ts_sz = 0 \<or> user_defined_timestamps_persisted meta
      then PutLengthPrefixedSlice (PutLengthPrefixedSlice dst (smallest meta)) (largest meta)
      else
        let smallest_buf = StripTimestampFromInternalKey [] (smallest meta) ts_sz;
            largest_buf = StripTimestampFromInternalKey [] (largest meta) ts_sz
        in PutLengthPrefixedSlice (PutLengthPrefixedSlice dst smallest_buf) largest_buf)"

text \<open>The customized fields of a file, in the order they are written; \<open>min_log\<close> is the log number that
  the first file of an edit carries.\<close>

definition custom_fields :: "u64 option \<Rightarrow> FileMetaData \<Rightarrow> (u32 \<times> key) list" where
  "custom_fields min_log f =
     [(kOldestAncesterTime, PutVarint64 [] (oldest_ancester_time f)),
      (kFileCreationTime, PutVarint64 [] (file_creation_time f)),
      (kEpochNumber, PutVarint64 [] (epoch_number f))] @
     (if file_checksum_func_name f \<noteq> kUnknownFileChecksumFuncName
      then [(kFileChecksum, file_checksum f), (kFileChecksumFuncName, file_checksum_func_name f)] else []) @
     (if GetPathId (fd f) \<noteq> 0 then [(kPathId, [ucast (GetPathId (fd f))])] else []) @
     (if temperature f \<noteq> kUnknownTemperature then [(kTemperature, [temperature f])] else []) @
     (if marked_for_compaction f then [(kNeedCompaction, [1])] else []) @
     (case min_log of None \<Rightarrow> [] | Some n \<Rightarrow> [(kMinLogNumberToKeepHack, PutFixed64 [] n)]) @
     (if oldest_blob_file_number f \<noteq> kInvalidBlobFileNumber
      then [(kOldestBlobFileNumber, PutVarint64 [] (oldest_blob_file_number f))] else []) @
     (if unique_id f \<noteq> (0, 0) then [(kUniqueId, EncodeUniqueIdBytes (unique_id f) None)] else []) @
     (if compensated_range_deletion_size f \<noteq> 0
      then [(kCompensatedRangeDeletionSize, PutVarint64 [] (compensated_range_deletion_size f))] else []) @
     (if tail_size f \<noteq> 0 then [(kTailSize, PutVarint64 [] (tail_size f))] else []) @
     (if \<not> user_defined_timestamps_persisted f then [(kUserDefinedTimestampsPersisted, [0])] else [])"

definition put_field :: "u32 \<times> key \<Rightarrow> key \<Rightarrow> key" where
  "put_field tf dst = PutLengthPrefixedSlice (PutVarint32 dst (fst tf)) (snd tf)"

definition encode_new_file :: "nat \<Rightarrow> u64 option \<Rightarrow> int \<times> FileMetaData \<Rightarrow> key \<Rightarrow> key" where
  "encode_new_file ts_sz min_log lf dst =
     (let f = snd lf;
          d1 = PutVarint32 dst kNewFile4;
          d2 = PutVarint32Varint64 d1 (int_bits (fst lf)) (GetNumber (fd f));
          d3 = PutVarint64 d2 (GetFileSize f);
          d4 = EncodeFileBoundaries d3 f ts_sz;
          d5 = PutVarint64Varint64 d4 (smallest_seqno (fd f)) (largest_seqno (fd f));
          d6 = fold put_field (custom_fields min_log f) d5
      in PutVarint32 d6 kTerminate)"

definition file_encodable :: "FileMetaData \<Rightarrow> bool" where
  "file_encodable f \<longleftrightarrow>
     \<not> (\<not> InternalKey_Valid (smallest f) \<or> \<not> InternalKey_Valid (largest f) \<or> epoch_number f = kUnknownEpochNumber)"

text \<open>
  \<open>min_log\<close> is dropped after the first file (\<open>min_log_num_written\<close>). \<open>None\<close>: the encoder returns
  false for a file with an invalid bound or no epoch number; or there are new files but no timestamp
  size, where the source asserts and \<open>ts_sz.value()\<close> throws.
\<close>

fun encode_new_files :: "nat option \<Rightarrow> u64 option \<Rightarrow> (int \<times> FileMetaData) list \<Rightarrow> key \<Rightarrow> key option" where
  "encode_new_files ts_sz min_log [] dst = Some dst"
| "encode_new_files ts_sz min_log (lf # lfs) dst =
     (if \<not> file_encodable (snd lf) then None
      else
        (case ts_sz of
           None \<Rightarrow> None
         | Some n \<Rightarrow> encode_new_files ts_sz None lfs (encode_new_file n min_log lf dst)))"

definition encode_wal_addition :: "WalAddition \<Rightarrow> key \<Rightarrow> key" where
  "encode_wal_addition w dst =
     PutLengthPrefixedSlice (PutVarint32 dst kWalAddition2) (WalAddition_EncodeTo [] w)"

definition encode_blobs_and_wals :: "VersionEdit \<Rightarrow> key \<Rightarrow> key" where
  "encode_blobs_and_wals e dst =
     (let d1 = fold (\<lambda>b d. BlobFileAddition_EncodeTo (PutVarint32 d kBlobFileAddition) b) (blob_file_additions e) dst;
          d2 = fold (\<lambda>b d. BlobFileGarbage_EncodeTo (PutVarint32 d kBlobFileGarbage) b) (blob_file_garbages e) d1;
          d3 = fold encode_wal_addition (wal_additions e) d2
      in if wal_deletion e \<noteq> 0
         then PutLengthPrefixedSlice (PutVarint32 d3 kWalDeletion2) (WalDeletion_EncodeTo [] (wal_deletion e)) else d3)"

definition encode_family :: "VersionEdit \<Rightarrow> key \<Rightarrow> key" where
  "encode_family e dst =
     (let d1 = (if column_family e \<noteq> 0 then PutVarint32Varint32 dst kColumnFamily (column_family e) else dst);
          d2 = (if is_column_family_add e
                then PutLengthPrefixedSlice (PutVarint32 d1 kColumnFamilyAdd) (column_family_name e) else d1);
          d3 = (if is_column_family_drop e then PutVarint32 d2 kColumnFamilyDrop else d2);
          d4 = (if is_in_atomic_group e then PutVarint32 (PutVarint32 d3 kInAtomicGroup) (remaining_entries e) else d3);
          d5 = (if full_history_ts_low e \<noteq> []
                then PutLengthPrefixedSlice (PutVarint32 d4 kFullHistoryTsLow) (full_history_ts_low e) else d4)
      in when_some (\<lambda>d b. PutLengthPrefixedSlice (PutVarint32 d kPersistUserDefinedTimestamps) [if b then 1 else 0])
           (persist_user_defined_timestamps e) d5)"

definition EncodeTo :: "key \<Rightarrow> nat option \<Rightarrow> VersionEdit \<Rightarrow> key option" where
  "EncodeTo dst ts_sz e =
     (let d1 = encode_numbers e dst;
          d2 = fold encode_cursor (compact_cursors e) d1;
          d3 = fold encode_deleted (deleted_files e) d2
      in map_option (\<lambda>d4. encode_family e (encode_blobs_and_wals e d4))
           (encode_new_files ts_sz (min_log_number_to_keep e) (new_files e) d3))"

section \<open>Decoding\<close>

definition GetInternalKey :: "key \<Rightarrow> (key \<times> key) option" where
  "GetInternalKey input =
     (case get_slice input of
        None \<Rightarrow> None
      | Some (str, rest) \<Rightarrow> if InternalKey_Valid str then Some (str, rest) else None)"

definition GetLevel :: "key \<Rightarrow> VersionEdit \<Rightarrow> (int \<times> VersionEdit \<times> key) option" where
  "GetLevel input e =
     (case GetVarint32 input of
        None \<Rightarrow> None
      | Some (v, rest) \<Rightarrow>
          let level = sint v
          in Some (level, e\<lparr>max_level := if max_level e < level then level else max_level e\<rparr>, rest))"

text \<open>What the loop over the customized fields updates: the file, its path id and the log number.\<close>

record field_state =
  fs_file :: FileMetaData
  fs_path_id :: u32
  fs_min_log :: "u64 option"

definition get_whole :: "string \<Rightarrow> (u64 \<Rightarrow> field_state) \<Rightarrow> key \<Rightarrow> string + field_state" where
  "get_whole msg upd field = (case GetVarint64 field of None \<Rightarrow> Inl msg | Some (v, _) \<Rightarrow> Inr (upd v))"

definition apply_field :: "u32 \<Rightarrow> key \<Rightarrow> field_state \<Rightarrow> string + field_state" where
  "apply_field tag field st =
     (let f = fs_file st in
      if tag = kPathId then
        (case field of
           [b] \<Rightarrow> if b > 3 then Inl ''path_id wrong vaue'' else Inr (st\<lparr>fs_path_id := ucast b\<rparr>)
         | _ \<Rightarrow> Inl ''path_id field wrong size'')
      else if tag = kOldestAncesterTime then
        get_whole ''invalid oldest ancester time'' (\<lambda>v. st\<lparr>fs_file := f\<lparr>oldest_ancester_time := v\<rparr>\<rparr>) field
      else if tag = kFileCreationTime then
        get_whole ''invalid file creation time'' (\<lambda>v. st\<lparr>fs_file := f\<lparr>file_creation_time := v\<rparr>\<rparr>) field
      else if tag = kEpochNumber then
        get_whole ''invalid epoch number'' (\<lambda>v. st\<lparr>fs_file := f\<lparr>epoch_number := v\<rparr>\<rparr>) field
      else if tag = kFileChecksum then Inr (st\<lparr>fs_file := f\<lparr>file_checksum := field\<rparr>\<rparr>)
      else if tag = kFileChecksumFuncName then Inr (st\<lparr>fs_file := f\<lparr>file_checksum_func_name := field\<rparr>\<rparr>)
      else if tag = kNeedCompaction then
        (case field of
           [b] \<Rightarrow> Inr (st\<lparr>fs_file := f\<lparr>marked_for_compaction := (b = 1)\<rparr>\<rparr>)
         | _ \<Rightarrow> Inl ''need_compaction field wrong size'')
      else if tag = kMinLogNumberToKeepHack then
        (case GetFixed64 field of
           None \<Rightarrow> Inl ''deleted log number malformatted''
         | Some (v, _) \<Rightarrow> Inr (st\<lparr>fs_min_log := Some v\<rparr>))
      else if tag = kOldestBlobFileNumber then
        get_whole ''invalid oldest blob file number'' (\<lambda>v. st\<lparr>fs_file := f\<lparr>oldest_blob_file_number := v\<rparr>\<rparr>) field
      else if tag = kTemperature then
        (case field of
           [b] \<Rightarrow> Inr (if b \<le> kColdTemperature then st\<lparr>fs_file := f\<lparr>temperature := b\<rparr>\<rparr> else st)
         | _ \<Rightarrow> Inl ''temperature field wrong size'')
      else if tag = kUniqueId then
        (case DecodeUniqueIdBytes False field of
           None \<Rightarrow> Inl ''invalid unique id''
         | Some (u, _) \<Rightarrow> Inr (st\<lparr>fs_file := f\<lparr>unique_id := u\<rparr>\<rparr>))
      else if tag = kCompensatedRangeDeletionSize then
        get_whole ''Invalid compensated range deletion size''
          (\<lambda>v. st\<lparr>fs_file := f\<lparr>compensated_range_deletion_size := v\<rparr>\<rparr>) field
      else if tag = kTailSize then
        get_whole ''invalid tail start offset'' (\<lambda>v. st\<lparr>fs_file := f\<lparr>tail_size := v\<rparr>\<rparr>) field
      else if tag = kUserDefinedTimestampsPersisted then
        (case field of
           [b] \<Rightarrow> Inr (st\<lparr>fs_file := f\<lparr>user_defined_timestamps_persisted := (b = 1)\<rparr>\<rparr>)
         | _ \<Rightarrow> Inl ''user-defined timestamps persisted field wrong size'')
      else if tag AND kCustomTagNonSafeIgnoreMask \<noteq> 0 then Inl ''new-file4 custom field not supported''
      else Inr st)"

function decode_custom_fields :: "key \<Rightarrow> field_state \<Rightarrow> string + (field_state \<times> key)" where
  "decode_custom_fields input st =
     (case GetVarint32 input of
        None \<Rightarrow> Inl ''new-file4 custom field''
      | Some (custom_tag, i1) \<Rightarrow>
          if custom_tag = kTerminate then Inr (st, i1)
          else
            (case get_slice i1 of
               None \<Rightarrow> Inl ''new-file4 custom field length prefixed slice error''
             | Some (field, i2) \<Rightarrow>
                 (case apply_field custom_tag field st of
                    Inl msg \<Rightarrow> Inl msg
                  | Inr st' \<Rightarrow> decode_custom_fields i2 st')))"
  by pat_completeness auto
termination
  by (relation "measure (length \<circ> fst)") (auto dest!: GetVarint32_shorter get_slice_shorter)

declare decode_custom_fields.simps [simp del]

definition push_new_file :: "int \<Rightarrow> FileMetaData \<Rightarrow> VersionEdit \<Rightarrow> VersionEdit" where
  "push_new_file level f e = e\<lparr>new_files := new_files e @ [(level, f)]\<rparr>"

definition DecodeNewFile4From :: "key \<Rightarrow> VersionEdit \<Rightarrow> string + (VersionEdit \<times> key)" where
  "DecodeNewFile4From input e =
     (case do {
        (level, e1, i1) \<leftarrow> GetLevel input e;
        (number, i2) \<leftarrow> GetVarint64 i1;
        (sz, i3) \<leftarrow> GetVarint64 i2;
        (lo, i4) \<leftarrow> GetInternalKey i3;
        (hi, i5) \<leftarrow> GetInternalKey i4;
        (smallest_seq, i6) \<leftarrow> GetVarint64 i5;
        (largest_seq, i7) \<leftarrow> GetVarint64 i6;
        Some (level, e1, number, sz, lo, hi, smallest_seq, largest_seq, i7)
      } of
        None \<Rightarrow> Inl ''new-file4 entry''
      | Some (level, e1, number, sz, lo, hi, smallest_seq, largest_seq, i7) \<Rightarrow>
          (case decode_custom_fields i7
                  \<lparr>fs_file = FileMetaData_default\<lparr>smallest := lo, largest := hi\<rparr>, fs_path_id = 0,
                   fs_min_log = min_log_number_to_keep e1\<rparr> of
             Inl msg \<Rightarrow> Inl msg
           | Inr (st, rest) \<Rightarrow>
               Inr (push_new_file level
                      ((fs_file st)\<lparr>fd := FileDescriptor_new number (fs_path_id st) sz smallest_seq largest_seq\<rparr>)
                      (e1\<lparr>min_log_number_to_keep := fs_min_log st\<rparr>), rest)))"

text \<open>The three older formats of a new file: without sequence numbers, with them, and with a path id.\<close>

definition decode_new_file :: "key \<Rightarrow> VersionEdit \<Rightarrow> (VersionEdit \<times> key) option" where
  "decode_new_file input e =
     do {
       (level, e1, i1) \<leftarrow> GetLevel input e;
       (number, i2) \<leftarrow> GetVarint64 i1;
       (sz, i3) \<leftarrow> GetVarint64 i2;
       (lo, i4) \<leftarrow> GetInternalKey i3;
       (hi, i5) \<leftarrow> GetInternalKey i4;
       Some (push_new_file level
         (FileMetaData_default\<lparr>smallest := lo, largest := hi,
            fd := FileDescriptor_new number 0 sz kMaxSequenceNumber 0\<rparr>) e1, i5)
     }"

definition decode_new_file2 :: "key \<Rightarrow> VersionEdit \<Rightarrow> (VersionEdit \<times> key) option" where
  "decode_new_file2 input e =
     do {
       (level, e1, i1) \<leftarrow> GetLevel input e;
       (number, i2) \<leftarrow> GetVarint64 i1;
       (sz, i3) \<leftarrow> GetVarint64 i2;
       (lo, i4) \<leftarrow> GetInternalKey i3;
       (hi, i5) \<leftarrow> GetInternalKey i4;
       (smallest_seq, i6) \<leftarrow> GetVarint64 i5;
       (largest_seq, i7) \<leftarrow> GetVarint64 i6;
       Some (push_new_file level
         (FileMetaData_default\<lparr>smallest := lo, largest := hi,
            fd := FileDescriptor_new number 0 sz smallest_seq largest_seq\<rparr>) e1, i7)
     }"

definition decode_new_file3 :: "key \<Rightarrow> VersionEdit \<Rightarrow> (VersionEdit \<times> key) option" where
  "decode_new_file3 input e =
     do {
       (level, e1, i1) \<leftarrow> GetLevel input e;
       (number, i2) \<leftarrow> GetVarint64 i1;
       (path_id, i3) \<leftarrow> GetVarint32 i2;
       (sz, i4) \<leftarrow> GetVarint64 i3;
       (lo, i5) \<leftarrow> GetInternalKey i4;
       (hi, i6) \<leftarrow> GetInternalKey i5;
       (smallest_seq, i7) \<leftarrow> GetVarint64 i6;
       (largest_seq, i8) \<leftarrow> GetVarint64 i7;
       Some (push_new_file level
         (FileMetaData_default\<lparr>smallest := lo, largest := hi,
            fd := FileDescriptor_new number path_id sz smallest_seq largest_seq\<rparr>) e1, i8)
     }"

type_synonym corruption = "string \<times> string"
type_synonym decoded = "corruption + (VersionEdit \<times> key)"

abbreviation edit_error :: "string \<Rightarrow> corruption + 'a" where
  "edit_error msg \<equiv> Inl (''VersionEdit'', msg)"

definition take_value :: "string \<Rightarrow> ('a \<Rightarrow> VersionEdit) \<Rightarrow> ('a \<times> key) option \<Rightarrow> decoded" where
  "take_value msg upd r = (case r of None \<Rightarrow> edit_error msg | Some (v, rest) \<Rightarrow> Inr (upd v, rest))"

definition take_edit :: "string \<Rightarrow> (VersionEdit \<times> key) option \<Rightarrow> decoded" where
  "take_edit msg r = (case r of None \<Rightarrow> edit_error msg | Some er \<Rightarrow> Inr er)"

text \<open>The payload of an encoded log record, whole (\<open>kWalAddition2\<close>, \<open>kWalDeletion2\<close>).\<close>

definition take_nested :: "string \<Rightarrow> string \<Rightarrow> (key \<Rightarrow> string + ('a \<times> key)) \<Rightarrow> ('a \<Rightarrow> VersionEdit) \<Rightarrow> key \<Rightarrow> decoded" where
  "take_nested msg cls dec upd input =
     (case get_slice input of
        None \<Rightarrow> edit_error msg
      | Some (encoded, rest) \<Rightarrow>
          (case dec encoded of Inl m \<Rightarrow> Inl (cls, m) | Inr (v, _) \<Rightarrow> Inr (upd v, rest)))"

definition take_part :: "string \<Rightarrow> (key \<Rightarrow> string + ('a \<times> key)) \<Rightarrow> ('a \<Rightarrow> VersionEdit) \<Rightarrow> key \<Rightarrow> decoded" where
  "take_part cls dec upd input =
     (case dec input of Inl m \<Rightarrow> Inl (cls, m) | Inr (v, rest) \<Rightarrow> Inr (upd v, rest))"

text \<open>The switch over the tags, in two halves: numbers and files, then everything else.\<close>

definition decode_part_tag :: "u32 \<Rightarrow> key \<Rightarrow> VersionEdit \<Rightarrow> decoded" where
  "decode_part_tag tag input e =
     (if tag = kBlobFileAddition \<or> tag = kBlobFileAddition_DEPRECATED then
        take_part ''BlobFileAddition'' BlobFileAddition_DecodeFrom (\<lambda>b. AddBlobFile b e) input
      else if tag = kBlobFileGarbage \<or> tag = kBlobFileGarbage_DEPRECATED then
        take_part ''BlobFileGarbage'' BlobFileGarbage_DecodeFrom (\<lambda>b. AddBlobFileGarbage b e) input
      else if tag = kWalAddition then
        take_part ''WalAddition'' WalAddition_DecodeFrom (\<lambda>w. e\<lparr>wal_additions := wal_additions e @ [w]\<rparr>) input
      else if tag = kWalAddition2 then
        take_nested ''WalAddition not prefixed by length'' ''WalAddition'' WalAddition_DecodeFrom
          (\<lambda>w. e\<lparr>wal_additions := wal_additions e @ [w]\<rparr>) input
      else if tag = kWalDeletion then
        take_part ''WalDeletion'' WalDeletion_DecodeFrom (\<lambda>n. e\<lparr>wal_deletion := n\<rparr>) input
      else if tag = kWalDeletion2 then
        take_nested ''WalDeletion not prefixed by length'' ''WalDeletion'' WalDeletion_DecodeFrom
          (\<lambda>n. e\<lparr>wal_deletion := n\<rparr>) input
      else if tag = kColumnFamily then take_value ''set column family id'' (\<lambda>v. SetColumnFamily v e) (GetVarint32 input)
      else if tag = kColumnFamilyAdd then take_value ''column family add'' (\<lambda>v. AddColumnFamily v e) (get_slice input)
      else if tag = kColumnFamilyDrop then Inr (DropColumnFamily e, input)
      else if tag = kInAtomicGroup then take_value ''remaining entries'' (\<lambda>v. MarkAtomicGroup v e) (GetVarint32 input)
      else if tag = kFullHistoryTsLow then
        (case get_slice input of
           None \<Rightarrow> edit_error ''full_history_ts_low''
         | Some (str, rest) \<Rightarrow>
             if str = [] then edit_error ''full_history_ts_low: empty'' else Inr (SetFullHistoryTsLow str e, rest))
      else if tag = kPersistUserDefinedTimestamps then
        (case get_slice input of
           None \<Rightarrow> edit_error ''persist_user_defined_timestamps''
         | Some ([b], rest) \<Rightarrow> Inr (SetPersistUserDefinedTimestamps (b = 1) e, rest)
         | Some _ \<Rightarrow> edit_error ''persist_user_defined_timestamps field wrong size'')
      else if tag AND kTagSafeIgnoreMask \<noteq> 0 then
        (case GetVarint32 input of
           None \<Rightarrow> edit_error ''safely ignoreable tag length error''
         | Some (field_len, rest) \<Rightarrow>
             if unat field_len > length rest then edit_error ''safely ignoreable tag length error''
             else Inr (e, drop (unat field_len) rest))
      else edit_error ''unknown tag'')"

definition decode_tag :: "u32 \<Rightarrow> key \<Rightarrow> VersionEdit \<Rightarrow> decoded" where
  "decode_tag tag input e =
     (if tag = kDbId then take_value ''db id'' (\<lambda>v. SetDBId v e) (get_slice input)
      else if tag = kComparator then take_value ''comparator name'' (\<lambda>v. SetComparatorName v e) (get_slice input)
      else if tag = kLogNumber then take_value ''log number'' (\<lambda>v. SetLogNumber v e) (GetVarint64 input)
      else if tag = kPrevLogNumber then take_value ''previous log number'' (\<lambda>v. SetPrevLogNumber v e) (GetVarint64 input)
      else if tag = kNextFileNumber then take_value ''next file number'' (\<lambda>v. SetNextFile v e) (GetVarint64 input)
      else if tag = kMaxColumnFamily then take_value ''max column family'' (\<lambda>v. SetMaxColumnFamily v e) (GetVarint32 input)
      else if tag = kMinLogNumberToKeep then
        take_value ''min log number to kee'' (\<lambda>v. SetMinLogNumberToKeep v e) (GetVarint64 input)
      else if tag = kLastSequence then take_value ''last sequence number'' (\<lambda>v. SetLastSequence v e) (GetVarint64 input)
      else if tag = kCompactCursor then
        take_edit ''compaction cursor''
          (do { (level, e1, i1) \<leftarrow> GetLevel input e; (k, i2) \<leftarrow> GetInternalKey i1; Some (AddCompactCursor level k e1, i2) })
      else if tag = kDeletedFile then
        take_edit ''deleted file''
          (do { (level, e1, i1) \<leftarrow> GetLevel input e; (number, i2) \<leftarrow> GetVarint64 i1; Some (DeleteFile level number e1, i2) })
      else if tag = kNewFile then take_edit ''new-file entry'' (decode_new_file input e)
      else if tag = kNewFile2 then take_edit ''new-file2 entry'' (decode_new_file2 input e)
      else if tag = kNewFile3 then take_edit ''new-file3 entry'' (decode_new_file3 input e)
      else if tag = kNewFile4 then map_sum (Pair ''VersionEdit'') id (DecodeNewFile4From input e)
      else decode_part_tag tag input e)"

partial_function (option) decode_loop :: "key \<Rightarrow> VersionEdit \<Rightarrow> decoded option" where
  "decode_loop input e =
     (case GetVarint32 input of
        None \<Rightarrow> Some (Inr (e, input))
      | Some (tag, i1) \<Rightarrow>
          (case decode_tag tag i1 e of
             Inl err \<Rightarrow> Some (Inl err)
           | Inr (e1, i2) \<Rightarrow> decode_loop i2 e1))"

declare decode_loop.simps [code]

definition DecodeFrom :: "key \<Rightarrow> (corruption + VersionEdit) option" where
  "DecodeFrom src =
     (case decode_loop src VersionEdit_new of
        None \<Rightarrow> None
      | Some (Inl err) \<Rightarrow> Some (Inl err)
      | Some (Inr (e, input)) \<Rightarrow> Some (if input \<noteq> [] then edit_error ''invalid tag'' else Inr e))"

end
