(* ===== verification/Version_Edit_Roundtrip.thy ===== *)
theory Version_Edit_Roundtrip
  imports Version_Edit_Properties
begin

text \<open>
  The round trip of version edits. Every section of the encoding is a list of records, each a tag with
  its payload; a lemma per section says how the decoder's loop passes over it.
\<close>

section \<open>Files\<close>

definition persisted_key :: "nat \<Rightarrow> bool \<Rightarrow> key \<Rightarrow> key" where
  "persisted_key ts_sz persist k = (if ts_sz = 0 \<or> persist then k else StripTimestampFromInternalKey [] k ts_sz)"

definition persisted_file :: "nat \<Rightarrow> FileMetaData \<Rightarrow> FileMetaData" where
  "persisted_file ts_sz f =
     f\<lparr>smallest := persisted_key ts_sz (user_defined_timestamps_persisted f) (smallest f),
       largest := persisted_key ts_sz (user_defined_timestamps_persisted f) (largest f),
       compensated_file_size := 0, being_compacted := False,
       temperature := if temperature f \<le> kColdTemperature then temperature f else kUnknownTemperature,
       file_checksum := if file_checksum_func_name f = kUnknownFileChecksumFuncName then kUnknownFileChecksum else file_checksum f\<rparr>"

definition file_ok :: "nat \<Rightarrow> FileMetaData \<Rightarrow> bool" where
  "file_ok ts_sz f \<longleftrightarrow>
     length (smallest f) < 2 ^ 32 \<and> length (largest f) < 2 ^ 32 \<and> length (file_checksum f) < 2 ^ 32 \<and>
     length (file_checksum_func_name f) < 2 ^ 32 \<and>
     (ts_sz = 0 \<or> user_defined_timestamps_persisted f \<or>
      kNumInternalBytes + ts_sz \<le> length (smallest f) \<and> kNumInternalBytes + ts_sz \<le> length (largest f))"

lemma FileDescriptor_recombine:
  "FileDescriptor_new (GetNumber d) (GetPathId d) (file_size d) (smallest_seqno d) (largest_seqno d) = d"
proof -
  let ?p = "packed_number_and_path_id d"
  have "unat ?p div 2 ^ 62 < 2 ^ 32" using unsigned_less [of ?p, where ?'a = nat] by simp
  then have "(ucast (ucast (?p div 2 ^ 62) :: u32) :: u64) = ?p div 2 ^ 62"
    by (intro word_unat_eq_iff [THEN iffD2]) (simp add: unsigned_ucast_eq unsigned_take_bit_eq take_bit_nat_eq_self unat_div)
  moreover have "?p AND mask 62 OR ?p div 2 ^ 62 * 2 ^ 62 = ?p"
    unfolding drop_bit_eq_div [symmetric] push_bit_eq_mult [symmetric] by (rule bit_word_eqI) (auto simp: bit_simps; rule ccontr; simp)
  ultimately show ?thesis
    by (cases d) (simp add: FileDescriptor_new_def GetNumber_def GetPathId_def PackFileNumberAndPathId_def
        kFileNumberMask_mask(2), simp add: kFileNumberMask_mask(1))
qed

lemma InternalKey_Valid_length: "InternalKey_Valid k \<Longrightarrow> kNumInternalBytes \<le> length k"
  by (auto simp: InternalKey_Valid_def ParseInternalKey_def Let_def not_less split: if_splits)

lemma InternalKey_Valid_suffix:
  "InternalKey_Valid k \<longleftrightarrow> kNumInternalBytes \<le> length k \<and>
     IsExtendedValueType (ucast (DecodeFixed64 (drop (length k - kNumInternalBytes) k) AND 0xff))"
  by (auto simp: InternalKey_Valid_def ParseInternalKey_def Let_def not_less split: if_splits)

lemma persisted_key_valid:
  assumes "InternalKey_Valid k" and "ts_sz = 0 \<or> persist \<or> kNumInternalBytes + ts_sz \<le> length k"
  shows "InternalKey_Valid (persisted_key ts_sz persist k)"
  using assms by (auto simp: persisted_key_def InternalKey_Valid_suffix StripTimestampFromInternalKey_def)

lemma GetInternalKey_enc [simp]:
  "InternalKey_Valid k \<Longrightarrow> length k < 2 ^ 32 \<Longrightarrow> GetInternalKey (enc_slice k @ rest) = Some (k, rest)"
  by (simp add: GetInternalKey_def)

section \<open>Customized fields\<close>

fun apply_fields :: "(u32 \<times> key) list \<Rightarrow> field_state \<Rightarrow> string + field_state" where
  "apply_fields [] st = Inr st"
| "apply_fields ((tag, v) # fs) st = (case apply_field tag v st of Inl msg \<Rightarrow> Inl msg | Inr st' \<Rightarrow> apply_fields fs st')"

definition enc_field :: "u32 \<times> key \<Rightarrow> key" where
  "enc_field tf = EncodeVarint32 (fst tf) @ enc_slice (snd tf)"

lemma enc_field_pair: "enc_field (t, v) = EncodeVarint32 t @ enc_slice v"
  by (simp add: enc_field_def)

lemma fold_put_field: "fold put_field fs dst = dst @ concat (map enc_field fs)"
  by (induction fs arbitrary: dst) (simp_all add: put_field_def put_defs enc_field_def)

lemma decode_custom_fields_list:
  assumes "\<forall>(t, v) \<in> set fs. t \<noteq> kTerminate \<and> length v < 2 ^ 32"
  shows "decode_custom_fields (concat (map enc_field fs) @ EncodeVarint32 kTerminate @ tail) st =
    (case apply_fields fs st of Inl msg \<Rightarrow> Inl msg | Inr st' \<Rightarrow> Inr (st', tail))"
  using assms
proof (induction fs arbitrary: st)
  case Nil
  show ?case by (subst decode_custom_fields.simps) simp
next
  case (Cons tv fs)
  obtain t v where tv: "tv = (t, v)" by (cases tv)
  with Cons show ?case
    by (subst decode_custom_fields.simps) (simp add: enc_field_pair split: sum.split)
qed

lemma apply_fields_append:
  "apply_fields (xs @ ys) st = (case apply_fields xs st of Inl msg \<Rightarrow> Inl msg | Inr st' \<Rightarrow> apply_fields ys st')"
  by (induction xs st rule: apply_fields.induct) (auto split: sum.split)

lemma get_whole_enc [simp]: "get_whole msg upd (EncodeVarint64 v) = Inr (upd v)"
  by (simp add: get_whole_def)

lemma GetFixed64_enc [simp]: "GetFixed64 (EncodeFixed64 v) = Some (v, [])"
  using DecodeFixed_Encode(1) [of v "[]"] by (simp add: GetFixed64_def)

lemma small_path_id: "GetPathId d \<le> 3" "\<not> (ucast (GetPathId d) :: byte) > 3" "ucast (ucast (GetPathId d) :: byte) = GetPathId d"
proof -
  have "unat (packed_number_and_path_id d) div 2 ^ 62 < 4"
    using unsigned_less [of "packed_number_and_path_id d", where ?'a = nat] by simp
  then have u: "unat (GetPathId d) < 4"
    by (simp add: GetPathId_def kFileNumberMask_mask(2) unsigned_ucast_eq unsigned_take_bit_eq unat_div take_bit_nat_eq_self)
  then show "GetPathId d \<le> 3" "\<not> (ucast (GetPathId d) :: byte) > 3" "ucast (ucast (GetPathId d) :: byte) = GetPathId d"
    by (simp_all add: word_le_nat_alt word_less_nat_alt word_unat_eq_iff unsigned_ucast_eq unsigned_take_bit_eq take_bit_nat_eq_self)
qed

text \<open>The fields a file has in the format, one group of the encoder after the other.\<close>

lemma apply_time_fields:
  "apply_fields [(kOldestAncesterTime, EncodeVarint64 a), (kFileCreationTime, EncodeVarint64 c), (kEpochNumber, EncodeVarint64 n)] st =
     Inr (st\<lparr>fs_file := (fs_file st)\<lparr>oldest_ancester_time := a, file_creation_time := c, epoch_number := n\<rparr>\<rparr>)"
  by (simp add: apply_field_def custom_tag_defs)

lemma apply_checksum_fields:
  "file_checksum (fs_file st) = kUnknownFileChecksum \<Longrightarrow> file_checksum_func_name (fs_file st) = kUnknownFileChecksumFuncName \<Longrightarrow>
   apply_fields (if n \<noteq> kUnknownFileChecksumFuncName then [(kFileChecksum, c), (kFileChecksumFuncName, n)] else []) st =
     Inr (st\<lparr>fs_file := (fs_file st)\<lparr>file_checksum := if n = kUnknownFileChecksumFuncName then kUnknownFileChecksum else c,
       file_checksum_func_name := n\<rparr>\<rparr>)"
  by (simp add: apply_field_def custom_tag_defs)

lemma apply_path_field:
  "fs_path_id st = 0 \<Longrightarrow>
   apply_fields (if GetPathId d \<noteq> 0 then [(kPathId, [ucast (GetPathId d)])] else []) st = Inr (st\<lparr>fs_path_id := GetPathId d\<rparr>)"
  using small_path_id(2,3) [of d] by (simp add: apply_field_def custom_tag_defs)

lemma apply_temperature_field:
  "temperature (fs_file st) = kUnknownTemperature \<Longrightarrow>
   apply_fields (if t \<noteq> kUnknownTemperature then [(kTemperature, [t])] else []) st =
     Inr (st\<lparr>fs_file := (fs_file st)\<lparr>temperature := if t \<le> kColdTemperature then t else kUnknownTemperature\<rparr>\<rparr>)"
  by (simp add: apply_field_def custom_tag_defs)

lemma apply_compaction_field:
  "\<not> marked_for_compaction (fs_file st) \<Longrightarrow>
   apply_fields (if m then [(kNeedCompaction, [1])] else []) st = Inr (st\<lparr>fs_file := (fs_file st)\<lparr>marked_for_compaction := m\<rparr>\<rparr>)"
  by (simp add: apply_field_def custom_tag_defs)

lemma apply_log_field:
  "apply_fields (case min_log of None \<Rightarrow> [] | Some n \<Rightarrow> [(kMinLogNumberToKeepHack, EncodeFixed64 n)]) st =
     Inr (st\<lparr>fs_min_log := if min_log = None then fs_min_log st else min_log\<rparr>)"
  by (cases min_log) (simp_all add: apply_field_def custom_tag_defs)

lemma apply_blob_field:
  "oldest_blob_file_number (fs_file st) = kInvalidBlobFileNumber \<Longrightarrow>
   apply_fields (if n \<noteq> kInvalidBlobFileNumber then [(kOldestBlobFileNumber, EncodeVarint64 n)] else []) st =
     Inr (st\<lparr>fs_file := (fs_file st)\<lparr>oldest_blob_file_number := n\<rparr>\<rparr>)"
  by (simp add: apply_field_def custom_tag_defs)

lemma apply_unique_id_field:
  "unique_id (fs_file st) = (0, 0) \<Longrightarrow>
   apply_fields (if u \<noteq> (0, 0) then [(kUniqueId, EncodeUniqueIdBytes u None)] else []) st =
     Inr (st\<lparr>fs_file := (fs_file st)\<lparr>unique_id := u\<rparr>\<rparr>)"
  using UniqueId_roundtrip [of None u] by (simp add: apply_field_def custom_tag_defs)

lemma apply_size_fields:
  "compensated_range_deletion_size (fs_file st) = 0 \<Longrightarrow>
   apply_fields (if c \<noteq> 0 then [(kCompensatedRangeDeletionSize, EncodeVarint64 c)] else []) st =
     Inr (st\<lparr>fs_file := (fs_file st)\<lparr>compensated_range_deletion_size := c\<rparr>\<rparr>)"
  "tail_size (fs_file st) = 0 \<Longrightarrow>
   apply_fields (if t \<noteq> 0 then [(kTailSize, EncodeVarint64 t)] else []) st =
     Inr (st\<lparr>fs_file := (fs_file st)\<lparr>tail_size := t\<rparr>\<rparr>)"
  "user_defined_timestamps_persisted (fs_file st) \<Longrightarrow>
   apply_fields (if \<not> p then [(kUserDefinedTimestampsPersisted, [0])] else []) st =
     Inr (st\<lparr>fs_file := (fs_file st)\<lparr>user_defined_timestamps_persisted := p\<rparr>\<rparr>)"
  by (simp_all add: apply_field_def custom_tag_defs)

lemmas apply_groups = apply_time_fields apply_checksum_fields apply_path_field apply_temperature_field
  apply_compaction_field apply_log_field apply_blob_field apply_unique_id_field apply_size_fields

lemma length_unique_id [simp]: "length (EncodeUniqueIdBytes u None) = 16"
  by (simp add: EncodeUniqueIdBytes_def)

lemma custom_fields_ok:
  assumes "file_ok ts_sz f" and "(t, v) \<in> set (custom_fields min_log f)"
  shows "t \<noteq> kTerminate \<and> length v < 2 ^ 32"
proof -
  have len: "length (EncodeVarint64 x) < 4294967296" for x using length_EncodeVarint(1) [of x] by linarith
  with assms len show ?thesis
    by (auto simp: custom_fields_def file_ok_def custom_tag_defs PutVarint64_def PutFixed64_def split: if_splits option.splits)
qed

lemma apply_custom_fields:
  "apply_fields (custom_fields min_log f) \<lparr>fs_file = FileMetaData_default\<lparr>smallest := lo, largest := hi\<rparr>, fs_path_id = 0, fs_min_log = m\<rparr> =
     Inr \<lparr>fs_file = (persisted_file ts_sz f)\<lparr>smallest := lo, largest := hi, fd := fd FileMetaData_default\<rparr>,
          fs_path_id = GetPathId (fd f), fs_min_log = if min_log = None then m else min_log\<rparr>"
proof -
  note d = FileMetaData_default_def
  show ?thesis
    unfolding custom_fields_def PutVarint64_def PutFixed64_def append_Nil
    by (simp only: apply_fields_append apply_groups sum.case d field_state.simps FileMetaData.simps simp_thms)
       (simp add: persisted_file_def)
qed

section \<open>Records\<close>

definition raise_level :: "int \<Rightarrow> VersionEdit \<Rightarrow> VersionEdit" where
  "raise_level level e = e\<lparr>max_level := max (max_level e) level\<rparr>"

abbreviation int_range :: "int \<Rightarrow> bool" where
  "int_range level \<equiv> - (2 ^ 31) \<le> level \<and> level < 2 ^ 31"

lemma GetLevel_enc: "int_range level \<Longrightarrow> GetLevel (EncodeVarint32 (int_bits level) @ rest) e = Some (level, raise_level level e, rest)"
  by (simp add: GetLevel_def int_bits_def sint_sbintrunc' signed_take_bit_int_eq_self raise_level_def max_def)

definition new_file_bytes :: "nat \<Rightarrow> u64 option \<Rightarrow> int \<times> FileMetaData \<Rightarrow> key" where
  "new_file_bytes ts_sz min_log lf =
     (let f = snd lf; p = user_defined_timestamps_persisted f
      in EncodeVarint32 (int_bits (fst lf)) @ EncodeVarint64 (GetNumber (fd f)) @ EncodeVarint64 (GetFileSize f) @
         enc_slice (persisted_key ts_sz p (smallest f)) @ enc_slice (persisted_key ts_sz p (largest f)) @
         EncodeVarint64 (smallest_seqno (fd f)) @ EncodeVarint64 (largest_seqno (fd f)) @
         concat (map enc_field (custom_fields min_log f)) @ EncodeVarint32 kTerminate)"

lemma encode_new_file_bytes: "encode_new_file ts_sz min_log lf dst = dst @ EncodeVarint32 kNewFile4 @ new_file_bytes ts_sz min_log lf"
  by (simp add: encode_new_file_def new_file_bytes_def put_defs fold_put_field EncodeFileBoundaries_def persisted_key_def Let_def)

lemma persisted_key_length: "length (persisted_key ts_sz p k) \<le> length k"
  unfolding persisted_key_def StripTimestampFromInternalKey_def length_append length_take length_drop list.size(3)
  by (auto split: if_splits)

lemma decode_new_file_bytes:
  assumes ok: "file_ok ts_sz f" and enc: "file_encodable f" and l: "int_range level"
    and m: "min_log = None \<or> min_log = min_log_number_to_keep e"
  shows "DecodeNewFile4From (new_file_bytes ts_sz min_log (level, f) @ tail) e =
    Inr (push_new_file level (persisted_file ts_sz f) (raise_level level e), tail)"
proof -
  let ?p = "user_defined_timestamps_persisted f"
  let ?lo = "persisted_key ts_sz ?p (smallest f)" and ?hi = "persisted_key ts_sz ?p (largest f)"
  have k: "InternalKey_Valid ?lo" "InternalKey_Valid ?hi" "length ?lo < 2 ^ 32" "length ?hi < 2 ^ 32"
    using ok enc persisted_key_length [of ts_sz ?p "smallest f"] persisted_key_length [of ts_sz ?p "largest f"]
    by (auto intro!: persisted_key_valid simp: file_ok_def file_encodable_def)
  have fields: "\<forall>(t, v) \<in> set (custom_fields min_log f). t \<noteq> kTerminate \<and> length v < 2 ^ 32"
    using custom_fields_ok [OF ok] by blast
  have meta: "(persisted_file ts_sz f)\<lparr>smallest := ?lo, largest := ?hi, fd := fd f\<rparr> = persisted_file ts_sz f"
    by (simp add: persisted_file_def)
  have "min_log_number_to_keep (raise_level level e) = min_log_number_to_keep e" by (simp add: raise_level_def)
  moreover have "(if min_log = None then min_log_number_to_keep e else min_log) = min_log_number_to_keep e" using m by auto
  ultimately show ?thesis
    using meta k FileDescriptor_recombine [of "fd f"]
    unfolding DecodeNewFile4From_def new_file_bytes_def Let_def
    by (simp add: GetLevel_enc [OF l] decode_custom_fields_list [OF fields] apply_custom_fields [where ts_sz = ts_sz])
       (simp add: raise_level_def)
qed

lemma decode_loop_step:
  "decode_tag tag (payload @ tail) e = Inr (e', tail) \<Longrightarrow>
     decode_loop (EncodeVarint32 tag @ payload @ tail) e = decode_loop tail e'"
  by (subst decode_loop.simps) simp

text \<open>Passing over one record, per tag.\<close>

lemma decode_number_records:
  "length v < 2 ^ 32 \<Longrightarrow> decode_loop (EncodeVarint32 kDbId @ enc_slice v @ tail) e = decode_loop tail (SetDBId v e)"
  "length v < 2 ^ 32 \<Longrightarrow> decode_loop (EncodeVarint32 kComparator @ enc_slice v @ tail) e = decode_loop tail (SetComparatorName v e)"
  "decode_loop (EncodeVarint32 kLogNumber @ EncodeVarint64 n @ tail) e = decode_loop tail (SetLogNumber n e)"
  "decode_loop (EncodeVarint32 kPrevLogNumber @ EncodeVarint64 n @ tail) e = decode_loop tail (SetPrevLogNumber n e)"
  "decode_loop (EncodeVarint32 kNextFileNumber @ EncodeVarint64 n @ tail) e = decode_loop tail (SetNextFile n e)"
  "decode_loop (EncodeVarint32 kMaxColumnFamily @ EncodeVarint32 m @ tail) e = decode_loop tail (SetMaxColumnFamily m e)"
  "decode_loop (EncodeVarint32 kMinLogNumberToKeep @ EncodeVarint64 n @ tail) e = decode_loop tail (SetMinLogNumberToKeep n e)"
  "decode_loop (EncodeVarint32 kLastSequence @ EncodeVarint64 n @ tail) e = decode_loop tail (SetLastSequence n e)"
  by (rule decode_loop_step; simp add: decode_tag_def decode_part_tag_def tag_defs take_value_def)+

lemma decode_file_records:
  "int_range level \<Longrightarrow> InternalKey_Valid k \<Longrightarrow> length k < 2 ^ 32 \<Longrightarrow>
     decode_loop (EncodeVarint32 kCompactCursor @ (EncodeVarint32 (int_bits level) @ enc_slice k) @ tail) e =
       decode_loop tail (AddCompactCursor level k (raise_level level e))"
  "int_range level \<Longrightarrow>
     decode_loop (EncodeVarint32 kDeletedFile @ (EncodeVarint32 (int_bits level) @ EncodeVarint64 n) @ tail) e =
       decode_loop tail (DeleteFile level n (raise_level level e))"
  "file_ok ts_sz f \<Longrightarrow> file_encodable f \<Longrightarrow> int_range level \<Longrightarrow> min_log = None \<or> min_log = min_log_number_to_keep e \<Longrightarrow>
     decode_loop (EncodeVarint32 kNewFile4 @ new_file_bytes ts_sz min_log (level, f) @ tail) e =
       decode_loop tail (push_new_file level (persisted_file ts_sz f) (raise_level level e))"
  by (rule decode_loop_step; simp add: decode_tag_def decode_part_tag_def tag_defs take_edit_def GetLevel_enc decode_new_file_bytes)+

lemma decode_part_records:
  "length (checksum_method b) < 2 ^ 32 \<Longrightarrow> length (checksum_value b) < 2 ^ 32 \<Longrightarrow>
     decode_loop (EncodeVarint32 kBlobFileAddition @ BlobFileAddition_EncodeTo [] b @ tail) e = decode_loop tail (AddBlobFile b e)"
  "decode_loop (EncodeVarint32 kBlobFileGarbage @ BlobFileGarbage_EncodeTo [] g @ tail) e = decode_loop tail (AddBlobFileGarbage g e)"
  "decode_loop (EncodeVarint32 kWalAddition2 @ enc_slice (WalAddition_EncodeTo [] w) @ tail) e =
     decode_loop tail (e\<lparr>wal_additions := wal_additions e @ [w]\<rparr>)"
  "decode_loop (EncodeVarint32 kWalDeletion2 @ enc_slice (WalDeletion_EncodeTo [] n) @ tail) e =
     decode_loop tail (e\<lparr>wal_deletion := n\<rparr>)"
proof -
  have v: "length (EncodeVarint64 x) \<le> 10" "length (EncodeVarint32 y) \<le> 5" for x y by (rule length_EncodeVarint)+
  have w: "length (WalAddition_EncodeTo [] w) < 4294967296"
    using v(1) [of "wal_number w"] v(1) [of "synced_size_bytes w"] v(2) [of kSyncedSize] v(2) [of kWalTerminate]
    by (simp add: WalAddition_EncodeTo_def put_defs Let_def)
  have n: "length (WalDeletion_EncodeTo [] n) < 4294967296" using v(1) [of n] by (simp add: WalDeletion_EncodeTo_def put_defs)
  note r = WalAddition_roundtrip [of w "[]", simplified] WalDeletion_roundtrip [of n "[]", simplified]
  show "length (checksum_method b) < 2 ^ 32 \<Longrightarrow> length (checksum_value b) < 2 ^ 32 \<Longrightarrow>
     decode_loop (EncodeVarint32 kBlobFileAddition @ BlobFileAddition_EncodeTo [] b @ tail) e = decode_loop tail (AddBlobFile b e)"
    by (rule decode_loop_step) (simp add: decode_tag_def decode_part_tag_def tag_defs take_part_def BlobFileAddition_roundtrip)
  show "decode_loop (EncodeVarint32 kBlobFileGarbage @ BlobFileGarbage_EncodeTo [] g @ tail) e = decode_loop tail (AddBlobFileGarbage g e)"
    by (rule decode_loop_step) (simp add: decode_tag_def decode_part_tag_def tag_defs take_part_def BlobFileGarbage_roundtrip)
  show "decode_loop (EncodeVarint32 kWalAddition2 @ enc_slice (WalAddition_EncodeTo [] w) @ tail) e =
     decode_loop tail (e\<lparr>wal_additions := wal_additions e @ [w]\<rparr>)"
    using w r by (intro decode_loop_step) (simp add: decode_tag_def decode_part_tag_def tag_defs take_nested_def)
  show "decode_loop (EncodeVarint32 kWalDeletion2 @ enc_slice (WalDeletion_EncodeTo [] n) @ tail) e =
     decode_loop tail (e\<lparr>wal_deletion := n\<rparr>)"
    using n r by (intro decode_loop_step) (simp add: decode_tag_def decode_part_tag_def tag_defs take_nested_def)
qed

lemma decode_family_records:
  "decode_loop (EncodeVarint32 kColumnFamily @ EncodeVarint32 m @ tail) e = decode_loop tail (SetColumnFamily m e)"
  "length v < 2 ^ 32 \<Longrightarrow> decode_loop (EncodeVarint32 kColumnFamilyAdd @ enc_slice v @ tail) e = decode_loop tail (AddColumnFamily v e)"
  "decode_loop (EncodeVarint32 kColumnFamilyDrop @ [] @ tail) e = decode_loop tail (DropColumnFamily e)"
  "decode_loop (EncodeVarint32 kInAtomicGroup @ EncodeVarint32 m @ tail) e = decode_loop tail (MarkAtomicGroup m e)"
  "length v < 2 ^ 32 \<Longrightarrow> v \<noteq> [] \<Longrightarrow>
     decode_loop (EncodeVarint32 kFullHistoryTsLow @ enc_slice v @ tail) e = decode_loop tail (SetFullHistoryTsLow v e)"
  "decode_loop (EncodeVarint32 kPersistUserDefinedTimestamps @ enc_slice [if b then 1 else 0] @ tail) e =
     decode_loop tail (SetPersistUserDefinedTimestamps b e)"
  by (rule decode_loop_step; simp add: decode_tag_def decode_part_tag_def tag_defs take_value_def)+

section \<open>Sections\<close>

definition opt_rec :: "('a \<Rightarrow> key) \<Rightarrow> 'a option \<Rightarrow> key" where
  "opt_rec g x = (case x of None \<Rightarrow> [] | Some v \<Rightarrow> g v)"

lemma when_some_rec:
  "when_some (\<lambda>d. PutLengthPrefixedSlice (PutVarint32 d t)) x d = d @ opt_rec (\<lambda>v. EncodeVarint32 t @ enc_slice v) x"
  "when_some (\<lambda>d. PutVarint32Varint64 d t) y d = d @ opt_rec (\<lambda>v. EncodeVarint32 t @ EncodeVarint64 v) y"
  "when_some (\<lambda>d. PutVarint32Varint32 d t) z d = d @ opt_rec (\<lambda>v. EncodeVarint32 t @ EncodeVarint32 v) z"
  "when_some (\<lambda>d b. PutLengthPrefixedSlice (PutVarint32 d t) [if b then 1 else 0]) w d =
     d @ opt_rec (\<lambda>b. EncodeVarint32 t @ enc_slice [if b then 1 else 0]) w"
  by (simp_all add: when_some_def opt_rec_def put_defs split: option.split)

lemma decode_opt:
  assumes "\<And>v. x = Some v \<Longrightarrow> decode_loop (g v @ tail) e = decode_loop tail (upd (Some v))" and "upd None = e"
  shows "decode_loop (opt_rec g x @ tail) e = decode_loop tail (upd x)"
  using assms by (cases x) (simp_all add: opt_rec_def)

lemma decode_opt_db_id:
  "db_id e = None \<Longrightarrow> \<forall>v. x = Some v \<longrightarrow> length v < 2 ^ 32 \<Longrightarrow>
     decode_loop (opt_rec (\<lambda>v. EncodeVarint32 kDbId @ enc_slice v) x @ tail) e = decode_loop tail (e\<lparr>db_id := x\<rparr>)"
  by (rule decode_opt [where upd = "\<lambda>x. e\<lparr>db_id := x\<rparr>"]) (simp_all add: decode_number_records SetDBId_def)

lemma decode_opt_comparator_name:
  "comparator_name e = None \<Longrightarrow> \<forall>v. x = Some v \<longrightarrow> length v < 2 ^ 32 \<Longrightarrow>
     decode_loop (opt_rec (\<lambda>v. EncodeVarint32 kComparator @ enc_slice v) x @ tail) e = decode_loop tail (e\<lparr>comparator_name := x\<rparr>)"
  by (rule decode_opt [where upd = "\<lambda>x. e\<lparr>comparator_name := x\<rparr>"]) (simp_all add: decode_number_records SetComparatorName_def)

lemma decode_opt_log_number:
  "log_number e = None \<Longrightarrow>
     decode_loop (opt_rec (\<lambda>v. EncodeVarint32 kLogNumber @ EncodeVarint64 v) x @ tail) e = decode_loop tail (e\<lparr>log_number := x\<rparr>)"
  by (rule decode_opt [where upd = "\<lambda>x. e\<lparr>log_number := x\<rparr>"]) (simp_all add: decode_number_records SetLogNumber_def)

lemma decode_opt_prev_log_number:
  "prev_log_number e = None \<Longrightarrow>
     decode_loop (opt_rec (\<lambda>v. EncodeVarint32 kPrevLogNumber @ EncodeVarint64 v) x @ tail) e = decode_loop tail (e\<lparr>prev_log_number := x\<rparr>)"
  by (rule decode_opt [where upd = "\<lambda>x. e\<lparr>prev_log_number := x\<rparr>"]) (simp_all add: decode_number_records SetPrevLogNumber_def)

lemma decode_opt_next_file_number:
  "next_file_number e = None \<Longrightarrow>
     decode_loop (opt_rec (\<lambda>v. EncodeVarint32 kNextFileNumber @ EncodeVarint64 v) x @ tail) e = decode_loop tail (e\<lparr>next_file_number := x\<rparr>)"
  by (rule decode_opt [where upd = "\<lambda>x. e\<lparr>next_file_number := x\<rparr>"]) (simp_all add: decode_number_records SetNextFile_def)

lemma decode_opt_max_column_family:
  "max_column_family e = None \<Longrightarrow>
     decode_loop (opt_rec (\<lambda>v. EncodeVarint32 kMaxColumnFamily @ EncodeVarint32 v) x @ tail) e = decode_loop tail (e\<lparr>max_column_family := x\<rparr>)"
  by (rule decode_opt [where upd = "\<lambda>x. e\<lparr>max_column_family := x\<rparr>"]) (simp_all add: decode_number_records SetMaxColumnFamily_def)

lemma decode_opt_min_log_number_to_keep:
  "min_log_number_to_keep e = None \<Longrightarrow>
     decode_loop (opt_rec (\<lambda>v. EncodeVarint32 kMinLogNumberToKeep @ EncodeVarint64 v) x @ tail) e = decode_loop tail (e\<lparr>min_log_number_to_keep := x\<rparr>)"
  by (rule decode_opt [where upd = "\<lambda>x. e\<lparr>min_log_number_to_keep := x\<rparr>"]) (simp_all add: decode_number_records SetMinLogNumberToKeep_def)

lemma decode_opt_last_sequence:
  "last_sequence e = None \<Longrightarrow>
     decode_loop (opt_rec (\<lambda>v. EncodeVarint32 kLastSequence @ EncodeVarint64 v) x @ tail) e = decode_loop tail (e\<lparr>last_sequence := x\<rparr>)"
  by (rule decode_opt [where upd = "\<lambda>x. e\<lparr>last_sequence := x\<rparr>"]) (simp_all add: decode_number_records SetLastSequence_def)

lemma decode_opt_persist_user_defined_timestamps:
  "persist_user_defined_timestamps e = None \<Longrightarrow>
     decode_loop (opt_rec (\<lambda>b. EncodeVarint32 kPersistUserDefinedTimestamps @ enc_slice [if b then 1 else 0]) x @ tail) e = decode_loop tail (e\<lparr>persist_user_defined_timestamps := x\<rparr>)"
  by (rule decode_opt [where upd = "\<lambda>x. e\<lparr>persist_user_defined_timestamps := x\<rparr>"]) (simp_all add: decode_family_records SetPersistUserDefinedTimestamps_def)

lemmas decode_opt_records = decode_opt_db_id
  decode_opt_comparator_name
  decode_opt_log_number
  decode_opt_prev_log_number
  decode_opt_next_file_number
  decode_opt_max_column_family
  decode_opt_min_log_number_to_keep
  decode_opt_last_sequence
  decode_opt_persist_user_defined_timestamps

definition levels_max :: "int \<Rightarrow> int list \<Rightarrow> int" where
  "levels_max m ls = fold (\<lambda>l m. max m l) ls m"

lemma levels_max_simps [simp]: "levels_max m [] = m" "levels_max m (l # ls) = levels_max (max m l) ls"
  by (simp_all add: levels_max_def)

definition cursor_bytes :: "int \<times> key \<Rightarrow> key" where
  "cursor_bytes c =
     (if InternalKey_Valid (snd c) then EncodeVarint32 kCompactCursor @ (EncodeVarint32 (int_bits (fst c)) @ enc_slice (snd c)) else [])"

lemma fold_encode_cursor: "fold encode_cursor cs dst = dst @ concat (map cursor_bytes cs)"
  by (induction cs arbitrary: dst) (simp_all add: encode_cursor_def cursor_bytes_def put_defs)

lemma decode_cursors:
  assumes "\<forall>(l, k) \<in> set cs. int_range l \<and> length k < 2 ^ 32" and "vs = filter (\<lambda>c. InternalKey_Valid (snd c)) cs"
  shows "decode_loop (concat (map cursor_bytes cs) @ tail) e =
    decode_loop tail (e\<lparr>max_level := levels_max (max_level e) (map fst vs), compact_cursors := compact_cursors e @ vs\<rparr>)"
  using assms
proof (induction cs arbitrary: e vs)
  case (Cons c cs)
  obtain l k where c: "c = (l, k)" by (cases c)
  let ?vs = "filter (\<lambda>c. InternalKey_Valid (snd c)) cs"
  have "decode_loop (cursor_bytes c @ tail') e =
      decode_loop tail' (if InternalKey_Valid k then AddCompactCursor l k (raise_level l e) else e)" for tail'
    using Cons.prems(1) decode_file_records(1) [of l k tail' e] by (simp add: c cursor_bytes_def)
  then show ?case
    using Cons.IH [of ?vs] Cons.prems by (simp add: c AddCompactCursor_def raise_level_def)
qed simp

lemma fold_encode_deleted:
  "fold encode_deleted ds dst =
     dst @ concat (map (\<lambda>d. EncodeVarint32 kDeletedFile @ (EncodeVarint32 (int_bits (fst d)) @ EncodeVarint64 (snd d))) ds)"
  by (induction ds arbitrary: dst) (simp_all add: encode_deleted_def put_defs)

lemma decode_deleted:
  assumes "\<forall>(l, n) \<in> set ds. int_range l"
  shows "decode_loop (concat (map (\<lambda>d. EncodeVarint32 kDeletedFile @ (EncodeVarint32 (int_bits (fst d)) @ EncodeVarint64 (snd d))) ds) @ tail) e =
    decode_loop tail (e\<lparr>max_level := levels_max (max_level e) (map fst ds), deleted_files := fold insort_insert ds (deleted_files e)\<rparr>)"
  using assms
proof (induction ds arbitrary: e)
  case (Cons d ds)
  obtain l n where d: "d = (l, n)" by (cases d)
  show ?case
    using Cons decode_file_records(2) [of l n _ e] by (simp add: d DeleteFile_def raise_level_def)
qed simp

lemma fold_insort_insert:
  assumes "sorted ds" and "distinct ds"
  shows "fold insort_insert ds [] = ds"
proof -
  have "sorted (fold insort_insert ds xs) \<and> distinct (fold insort_insert ds xs) \<and> set (fold insort_insert ds xs) = set ds \<union> set xs"
    if "sorted xs" "distinct xs" for xs :: "'a list"
    using that by (induction ds arbitrary: xs) (auto simp: sorted_insort_insert distinct_insort_insert set_insort_insert)
  from this [of "[]"] show ?thesis using assms by (intro sorted_distinct_set_unique) auto
qed

fun files_bytes :: "nat \<Rightarrow> u64 option \<Rightarrow> (int \<times> FileMetaData) list \<Rightarrow> key" where
  "files_bytes n min_log [] = []"
| "files_bytes n min_log (lf # lfs) = (EncodeVarint32 kNewFile4 @ new_file_bytes n min_log lf) @ files_bytes n None lfs"

lemma encode_new_files_bytes:
  "encode_new_files (Some n) min_log lfs dst =
     (if \<forall>lf \<in> set lfs. file_encodable (snd lf) then Some (dst @ files_bytes n min_log lfs) else None)"
  by (induction lfs arbitrary: min_log dst) (simp_all add: encode_new_file_bytes)

lemma decode_new_files:
  assumes "\<forall>(l, f) \<in> set lfs. int_range l \<and> file_ok n f \<and> file_encodable f"
    and "min_log = None \<or> min_log = min_log_number_to_keep e"
  shows "decode_loop (files_bytes n min_log lfs @ tail) e =
    decode_loop tail (e\<lparr>max_level := levels_max (max_level e) (map fst lfs),
                       new_files := new_files e @ map (map_prod id (persisted_file n)) lfs\<rparr>)"
  using assms
proof (induction lfs arbitrary: e min_log)
  case (Cons lf lfs)
  obtain l f where lf: "lf = (l, f)" by (cases lf)
  show ?case
    using Cons.IH [of None] Cons.prems decode_file_records(3) [of n f l min_log e]
    by (simp add: lf push_new_file_def raise_level_def)
qed simp

lemma BlobFileAddition_append: "BlobFileAddition_EncodeTo dst b = dst @ BlobFileAddition_EncodeTo [] b"
  by (simp add: BlobFileAddition_EncodeTo_def put_defs)

lemma BlobFileGarbage_append: "BlobFileGarbage_EncodeTo dst b = dst @ BlobFileGarbage_EncodeTo [] b"
  by (simp add: BlobFileGarbage_EncodeTo_def put_defs)

lemma fold_append: "(\<And>x d. f x d = d @ g x) \<Longrightarrow> fold f xs dst = dst @ concat (map g xs)"
  by (induction xs arbitrary: dst) simp_all

definition parts_bytes :: "VersionEdit \<Rightarrow> key" where
  "parts_bytes e =
     concat (map (\<lambda>b. EncodeVarint32 kBlobFileAddition @ BlobFileAddition_EncodeTo [] b) (blob_file_additions e)) @
     concat (map (\<lambda>b. EncodeVarint32 kBlobFileGarbage @ BlobFileGarbage_EncodeTo [] b) (blob_file_garbages e)) @
     concat (map (\<lambda>w. EncodeVarint32 kWalAddition2 @ enc_slice (WalAddition_EncodeTo [] w)) (wal_additions e)) @
     (if wal_deletion e \<noteq> 0 then EncodeVarint32 kWalDeletion2 @ enc_slice (WalDeletion_EncodeTo [] (wal_deletion e)) else [])"

lemma encode_parts_bytes: "encode_blobs_and_wals e dst = dst @ parts_bytes e"
proof -
  have "fold (\<lambda>b d. BlobFileAddition_EncodeTo (PutVarint32 d kBlobFileAddition) b) bs d =
      d @ concat (map (\<lambda>b. EncodeVarint32 kBlobFileAddition @ BlobFileAddition_EncodeTo [] b) bs)" for bs d
    by (rule fold_append) (subst BlobFileAddition_append, simp add: put_defs)
  moreover have "fold (\<lambda>b d. BlobFileGarbage_EncodeTo (PutVarint32 d kBlobFileGarbage) b) bs d =
      d @ concat (map (\<lambda>b. EncodeVarint32 kBlobFileGarbage @ BlobFileGarbage_EncodeTo [] b) bs)" for bs d
    by (rule fold_append) (subst BlobFileGarbage_append, simp add: put_defs)
  moreover have "fold encode_wal_addition ws d =
      d @ concat (map (\<lambda>w. EncodeVarint32 kWalAddition2 @ enc_slice (WalAddition_EncodeTo [] w)) ws)" for ws d
    by (rule fold_append) (simp add: encode_wal_addition_def put_defs)
  ultimately show ?thesis by (simp add: encode_blobs_and_wals_def parts_bytes_def put_defs)
qed

lemma decode_lists:
  "\<forall>b \<in> set bs. length (checksum_method b) < 2 ^ 32 \<and> length (checksum_value b) < 2 ^ 32 \<Longrightarrow>
   decode_loop (concat (map (\<lambda>b. EncodeVarint32 kBlobFileAddition @ BlobFileAddition_EncodeTo [] b) bs) @ tail) e =
     decode_loop tail (e\<lparr>blob_file_additions := blob_file_additions e @ bs,
       files_to_quarantine := files_to_quarantine e @ map add_blob_file_number bs\<rparr>)"
  "decode_loop (concat (map (\<lambda>b. EncodeVarint32 kBlobFileGarbage @ BlobFileGarbage_EncodeTo [] b) gs) @ tail) e =
     decode_loop tail (e\<lparr>blob_file_garbages := blob_file_garbages e @ gs\<rparr>)"
  "decode_loop (concat (map (\<lambda>w. EncodeVarint32 kWalAddition2 @ enc_slice (WalAddition_EncodeTo [] w)) ws) @ tail) e =
     decode_loop tail (e\<lparr>wal_additions := wal_additions e @ ws\<rparr>)"
proof -
  show "\<forall>b \<in> set bs. length (checksum_method b) < 2 ^ 32 \<and> length (checksum_value b) < 2 ^ 32 \<Longrightarrow>
   decode_loop (concat (map (\<lambda>b. EncodeVarint32 kBlobFileAddition @ BlobFileAddition_EncodeTo [] b) bs) @ tail) e =
     decode_loop tail (e\<lparr>blob_file_additions := blob_file_additions e @ bs,
       files_to_quarantine := files_to_quarantine e @ map add_blob_file_number bs\<rparr>)"
    by (induction bs arbitrary: e) (simp_all add: decode_part_records AddBlobFile_def)
  show "decode_loop (concat (map (\<lambda>b. EncodeVarint32 kBlobFileGarbage @ BlobFileGarbage_EncodeTo [] b) gs) @ tail) e =
     decode_loop tail (e\<lparr>blob_file_garbages := blob_file_garbages e @ gs\<rparr>)"
    by (induction gs arbitrary: e) (simp_all add: decode_part_records AddBlobFileGarbage_def)
  show "decode_loop (concat (map (\<lambda>w. EncodeVarint32 kWalAddition2 @ enc_slice (WalAddition_EncodeTo [] w)) ws) @ tail) e =
     decode_loop tail (e\<lparr>wal_additions := wal_additions e @ ws\<rparr>)"
    by (induction ws arbitrary: e) (simp_all add: decode_part_records)
qed

lemma noop_updates:
  "wal_deletion e = 0 \<Longrightarrow> e\<lparr>wal_deletion := 0\<rparr> = e"
  "column_family e = 0 \<Longrightarrow> e\<lparr>column_family := 0\<rparr> = e"
  "\<not> is_column_family_add e \<Longrightarrow> column_family_name e = [] \<Longrightarrow> e\<lparr>is_column_family_add := False, column_family_name := []\<rparr> = e"
  "\<not> is_column_family_drop e \<Longrightarrow> e\<lparr>is_column_family_drop := False\<rparr> = e"
  "\<not> is_in_atomic_group e \<Longrightarrow> remaining_entries e = 0 \<Longrightarrow> e\<lparr>is_in_atomic_group := False, remaining_entries := 0\<rparr> = e"
  "full_history_ts_low e = [] \<Longrightarrow> e\<lparr>full_history_ts_low := []\<rparr> = e"
  by (cases e; simp)+

lemma decode_optional_records:
  "wal_deletion e = 0 \<Longrightarrow>
     decode_loop ((if n \<noteq> 0 then EncodeVarint32 kWalDeletion2 @ enc_slice (WalDeletion_EncodeTo [] n) else []) @ tail) e =
       decode_loop tail (e\<lparr>wal_deletion := n\<rparr>)"
  "column_family e = 0 \<Longrightarrow>
     decode_loop ((if m \<noteq> 0 then EncodeVarint32 kColumnFamily @ EncodeVarint32 m else []) @ tail) e =
       decode_loop tail (e\<lparr>column_family := m\<rparr>)"
  "\<not> is_column_family_add e \<Longrightarrow> column_family_name e = [] \<Longrightarrow> length v < 2 ^ 32 \<Longrightarrow>
     decode_loop ((if b then EncodeVarint32 kColumnFamilyAdd @ enc_slice v else []) @ tail) e =
       decode_loop tail (e\<lparr>is_column_family_add := b, column_family_name := if b then v else []\<rparr>)"
  "\<not> is_column_family_drop e \<Longrightarrow>
     decode_loop ((if b then EncodeVarint32 kColumnFamilyDrop else []) @ tail) e = decode_loop tail (e\<lparr>is_column_family_drop := b\<rparr>)"
  "\<not> is_in_atomic_group e \<Longrightarrow> remaining_entries e = 0 \<Longrightarrow>
     decode_loop ((if b then EncodeVarint32 kInAtomicGroup @ EncodeVarint32 m else []) @ tail) e =
       decode_loop tail (e\<lparr>is_in_atomic_group := b, remaining_entries := if b then m else 0\<rparr>)"
  "full_history_ts_low e = [] \<Longrightarrow> length v < 2 ^ 32 \<Longrightarrow>
     decode_loop ((if v \<noteq> [] then EncodeVarint32 kFullHistoryTsLow @ enc_slice v else []) @ tail) e =
       decode_loop tail (e\<lparr>full_history_ts_low := v\<rparr>)"
  by (simp_all add: decode_part_records decode_family_records(1,2,4,5) decode_family_records(3) [unfolded append_Nil]
      SetColumnFamily_def AddColumnFamily_def DropColumnFamily_def MarkAtomicGroup_def SetFullHistoryTsLow_def noop_updates)

definition family_bytes :: "VersionEdit \<Rightarrow> key" where
  "family_bytes e =
     (if column_family e \<noteq> 0 then EncodeVarint32 kColumnFamily @ EncodeVarint32 (column_family e) else []) @
     (if is_column_family_add e then EncodeVarint32 kColumnFamilyAdd @ enc_slice (column_family_name e) else []) @
     (if is_column_family_drop e then EncodeVarint32 kColumnFamilyDrop else []) @
     (if is_in_atomic_group e then EncodeVarint32 kInAtomicGroup @ EncodeVarint32 (remaining_entries e) else []) @
     (if full_history_ts_low e \<noteq> [] then EncodeVarint32 kFullHistoryTsLow @ enc_slice (full_history_ts_low e) else []) @
     opt_rec (\<lambda>b. EncodeVarint32 kPersistUserDefinedTimestamps @ enc_slice [if b then 1 else 0]) (persist_user_defined_timestamps e)"

lemma encode_family_bytes: "encode_family e dst = dst @ family_bytes e"
  unfolding encode_family_def family_bytes_def Let_def when_some_rec by (simp add: put_defs)

section \<open>The round trip\<close>

text \<open>What the format keeps of an edit.\<close>

definition persisted :: "nat \<Rightarrow> VersionEdit \<Rightarrow> VersionEdit" where
  "persisted ts_sz e =
     (let cursors = filter (\<lambda>c. InternalKey_Valid (snd c)) (compact_cursors e)
      in e\<lparr>max_level := levels_max 0 (map fst cursors @ map fst (deleted_files e) @ map fst (new_files e)),
           compact_cursors := cursors,
           new_files := map (map_prod id (persisted_file ts_sz)) (new_files e),
           column_family_name := if is_column_family_add e then column_family_name e else [],
           remaining_entries := if is_in_atomic_group e then remaining_entries e else 0,
           is_no_manifest_write_dummy := False,
           files_to_quarantine := map add_blob_file_number (blob_file_additions e)\<rparr>)"

text \<open>Strings shorter than \<open>2 ^ 32\<close>, levels that fit a C \<open>int\<close>, a sorted set of deleted files.\<close>

definition edit_ok :: "nat \<Rightarrow> VersionEdit \<Rightarrow> bool" where
  "edit_ok ts_sz e \<longleftrightarrow>
     (\<forall>v. db_id e = Some v \<longrightarrow> length v < 2 ^ 32) \<and> (\<forall>v. comparator_name e = Some v \<longrightarrow> length v < 2 ^ 32) \<and>
     (\<forall>(l, k) \<in> set (compact_cursors e). int_range l \<and> length k < 2 ^ 32) \<and>
     (\<forall>(l, n) \<in> set (deleted_files e). int_range l) \<and> sorted (deleted_files e) \<and> distinct (deleted_files e) \<and>
     (\<forall>(l, f) \<in> set (new_files e). int_range l \<and> file_ok ts_sz f) \<and>
     (\<forall>b \<in> set (blob_file_additions e). length (checksum_method b) < 2 ^ 32 \<and> length (checksum_value b) < 2 ^ 32) \<and>
     length (column_family_name e) < 2 ^ 32 \<and> length (full_history_ts_low e) < 2 ^ 32"

lemma levels_max_append: "levels_max m (as @ bs) = levels_max (levels_max m as) bs"
  by (simp add: levels_max_def)

definition numbers_bytes :: "VersionEdit \<Rightarrow> key" where
  "numbers_bytes e =
     opt_rec (\<lambda>v. EncodeVarint32 kDbId @ enc_slice v) (db_id e) @
     opt_rec (\<lambda>v. EncodeVarint32 kComparator @ enc_slice v) (comparator_name e) @
     opt_rec (\<lambda>v. EncodeVarint32 kLogNumber @ EncodeVarint64 v) (log_number e) @
     opt_rec (\<lambda>v. EncodeVarint32 kPrevLogNumber @ EncodeVarint64 v) (prev_log_number e) @
     opt_rec (\<lambda>v. EncodeVarint32 kNextFileNumber @ EncodeVarint64 v) (next_file_number e) @
     opt_rec (\<lambda>v. EncodeVarint32 kMaxColumnFamily @ EncodeVarint32 v) (max_column_family e) @
     opt_rec (\<lambda>v. EncodeVarint32 kMinLogNumberToKeep @ EncodeVarint64 v) (min_log_number_to_keep e) @
     opt_rec (\<lambda>v. EncodeVarint32 kLastSequence @ EncodeVarint64 v) (last_sequence e)"

lemma encode_numbers_bytes: "encode_numbers e dst = dst @ numbers_bytes e"
  unfolding encode_numbers_def numbers_bytes_def Let_def when_some_rec by simp

definition deleted_bytes :: "(int \<times> u64) list \<Rightarrow> key" where
  "deleted_bytes ds = concat (map (\<lambda>d. EncodeVarint32 kDeletedFile @ (EncodeVarint32 (int_bits (fst d)) @ EncodeVarint64 (snd d))) ds)"

lemma EncodeTo_bytes:
  assumes "EncodeTo [] (Some n) e = Some bytes"
  shows "bytes = numbers_bytes e @ concat (map cursor_bytes (compact_cursors e)) @ deleted_bytes (deleted_files e) @
      files_bytes n (min_log_number_to_keep e) (new_files e) @ parts_bytes e @ family_bytes e"
    and "\<forall>lf \<in> set (new_files e). file_encodable (snd lf)"
  using assms
  by (auto simp: EncodeTo_def encode_numbers_bytes fold_encode_cursor fold_encode_deleted deleted_bytes_def encode_new_files_bytes
      encode_parts_bytes encode_family_bytes split: if_splits)

lemma decode_edit_bytes:
  assumes ok: "edit_ok n e" and enc: "\<forall>lf \<in> set (new_files e). file_encodable (snd lf)"
  shows "decode_loop (numbers_bytes e @ concat (map cursor_bytes (compact_cursors e)) @ deleted_bytes (deleted_files e) @
      files_bytes n (min_log_number_to_keep e) (new_files e) @ parts_bytes e @ family_bytes e) VersionEdit_new =
    decode_loop [] (persisted n e)"
proof -
  note o = ok [unfolded edit_ok_def]
  have files: "\<forall>(l, f) \<in> set (new_files e). int_range l \<and> file_ok n f \<and> file_encodable f" using o enc by auto
  let ?cs = "filter (\<lambda>c. InternalKey_Valid (snd c)) (compact_cursors e)"
  let ?e1 = "VersionEdit_new\<lparr>db_id := db_id e, comparator_name := comparator_name e, log_number := log_number e,
      prev_log_number := prev_log_number e, next_file_number := next_file_number e, max_column_family := max_column_family e,
      min_log_number_to_keep := min_log_number_to_keep e, last_sequence := last_sequence e\<rparr>"
  let ?e2 = "?e1\<lparr>max_level := levels_max 0 (map fst ?cs @ map fst (deleted_files e) @ map fst (new_files e)),
      compact_cursors := ?cs, deleted_files := deleted_files e, new_files := map (map_prod id (persisted_file n)) (new_files e)\<rparr>"
  let ?e3 = "?e2\<lparr>blob_file_additions := blob_file_additions e, blob_file_garbages := blob_file_garbages e,
      wal_additions := wal_additions e, wal_deletion := wal_deletion e,
      files_to_quarantine := map add_blob_file_number (blob_file_additions e)\<rparr>"
  have n: "decode_loop (numbers_bytes e @ tail) VersionEdit_new = decode_loop tail ?e1" for tail
    unfolding numbers_bytes_def append_assoc using o by (simp add: decode_opt_records VersionEdit_new_def)
  have f: "decode_loop (concat (map cursor_bytes (compact_cursors e)) @ deleted_bytes (deleted_files e) @
      files_bytes n (min_log_number_to_keep e) (new_files e) @ tail) ?e1 = decode_loop tail ?e2" for tail
    unfolding deleted_bytes_def using o files
    by (simp add: decode_cursors [OF _ refl] decode_deleted decode_new_files fold_insort_insert levels_max_append VersionEdit_new_def)
  have p: "decode_loop (parts_bytes e @ tail) ?e2 = decode_loop tail ?e3" for tail
    unfolding parts_bytes_def append_assoc using o by (simp add: decode_lists decode_optional_records VersionEdit_new_def)
  have "persisted n e = ?e3\<lparr>column_family := column_family e, is_column_family_add := is_column_family_add e,
      column_family_name := if is_column_family_add e then column_family_name e else [],
      is_column_family_drop := is_column_family_drop e, is_in_atomic_group := is_in_atomic_group e,
      remaining_entries := if is_in_atomic_group e then remaining_entries e else 0,
      full_history_ts_low := full_history_ts_low e, persist_user_defined_timestamps := persist_user_defined_timestamps e\<rparr>"
    by (cases e) (simp add: persisted_def VersionEdit_new_def Let_def)
  then have l: "decode_loop (family_bytes e @ tail) ?e3 = decode_loop tail (persisted n e)" for tail
    unfolding family_bytes_def append_assoc using o
    by (simp add: decode_optional_records decode_opt_records VersionEdit_new_def)
  show ?thesis using n f p l [of "[]"] by simp
qed

text \<open>C7. A version edit survives the manifest: if \<open>EncodeTo\<close> succeeds on an edit with representable
  fields, \<open>DecodeFrom\<close> of the bytes succeeds and gives the edit back, up to the parts that the format
  does not keep (\<open>persisted\<close>).\<close>

theorem version_edit_roundtrip:
  assumes "edit_ok ts_sz e" and "EncodeTo [] (Some ts_sz) e = Some bytes"
  shows "DecodeFrom bytes = Some (Inr (persisted ts_sz e))"
proof -
  have "GetVarint32 [] = None" using GetVarint32_shorter [of "[]"] by (cases "GetVarint32 []") auto
  then have "decode_loop [] e' = Some (Inr (e', []))" for e' by (subst decode_loop.simps) simp
  then show ?thesis
    using decode_edit_bytes [OF assms(1) EncodeTo_bytes(2) [OF assms(2)]] EncodeTo_bytes(1) [OF assms(2)]
    by (simp add: DecodeFrom_def)
qed

text \<open>C36. \<open>EncodeTo\<close> refuses an edit exactly when a new file has an invalid boundary or no epoch number.\<close>

theorem EncodeTo_refuses:
  "EncodeTo [] (Some ts_sz) e = None \<longleftrightarrow>
     (\<exists>lf \<in> set (new_files e). \<not> InternalKey_Valid (smallest (snd lf)) \<or> \<not> InternalKey_Valid (largest (snd lf)) \<or>
        epoch_number (snd lf) = kUnknownEpochNumber)"
  by (auto simp: EncodeTo_def encode_new_files_bytes file_encodable_def)

section \<open>Witness\<close>

definition sample_edit :: VersionEdit where
  "sample_edit =
     SetComparatorName [0x6C, 0x65] (SetPersistUserDefinedTimestamps True (DeleteFile 0 7 (DeleteFile 0 5
       (AddBlobFileGarbage \<lparr>garbage_blob_file_number = 9, garbage_blob_count = 2, garbage_blob_bytes = 300\<rparr>
       (SetMinLogNumberToKeep 4 (ve_AddFile 1
         (FileMetaData_default\<lparr>fd := FileDescriptor_new 12 1 4096 3 8,
            smallest := [1, 1, 5, 0, 0, 0, 0, 0, 0], largest := [2, 1, 6, 0, 0, 0, 0, 0, 0], epoch_number := 6, temperature := 8,
            being_compacted := True\<rparr>) VersionEdit_new))))))"

lemma sample_edit_ok: "edit_ok 0 sample_edit"
  by (simp add: edit_ok_def sample_edit_def VersionEdit_new_def SetComparatorName_def SetPersistUserDefinedTimestamps_def
      DeleteFile_def AddBlobFileGarbage_def SetMinLogNumberToKeep_def ve_AddFile_def SetLastSequence_def file_ok_def
      FileMetaData_default_def kUnknownFileChecksum_def kUnknownFileChecksumFuncName_def insort_insert_key_def)

theorem version_edit_roundtrip_witness:
  "\<exists>bytes. EncodeTo [] (Some 0) sample_edit = Some bytes \<and> DecodeFrom bytes = Some (Inr (persisted 0 sample_edit))"
proof -
  have "\<not> (\<exists>lf \<in> set (new_files sample_edit). \<not> InternalKey_Valid (smallest (snd lf)) \<or> \<not> InternalKey_Valid (largest (snd lf)) \<or>
      epoch_number (snd lf) = kUnknownEpochNumber)"
    by code_simp
  then have "EncodeTo [] (Some 0) sample_edit \<noteq> None"
    by (auto simp: EncodeTo_def encode_new_files_bytes file_encodable_def)
  then obtain bytes where "EncodeTo [] (Some 0) sample_edit = Some bytes" by blast
  with version_edit_roundtrip [OF sample_edit_ok this] show ?thesis by blast
qed

theorem EncodeTo_refuses_witness:
  "EncodeTo [] (Some 0) (ve_AddFile 0 FileMetaData_default VersionEdit_new) = None"
  unfolding EncodeTo_refuses by code_simp

end
