(* ===== verification/L0_Range_Scan.thy ===== *)
theory L0_Range_Scan
  imports Comparators Key_Ranges "HOL-Library.Multiset"
begin

text \<open>
  The level-0 iterator of \<open>new_range_scan\<close>: \<open>L0RangeScanIterator\<close> of \<open>db/version_set.cc\<close>, which opens
  the files of level 0 only when a scan reaches their key range.

  The table cache is a parameter: a file comes with its table, the sorted list of its entries, and an
  iterator over a table is a position in it (\<open>None\<close>: not valid). Reads do not fail, so that the status
  of the iterator is always OK; pinning is left out.
\<close>

section \<open>Table iterators\<close>

type_synonym table = "(key \<times> key) list"

definition it_Seek :: "(key \<Rightarrow> key \<Rightarrow> int) \<Rightarrow> key \<Rightarrow> table \<Rightarrow> nat option" where
  "it_Seek cmp target tbl = first_index (\<lambda>e. cmp (fst e) target \<ge> 0) tbl"

definition it_SeekForPrev :: "(key \<Rightarrow> key \<Rightarrow> int) \<Rightarrow> key \<Rightarrow> table \<Rightarrow> nat option" where
  "it_SeekForPrev cmp target tbl =
     (case takeWhile (\<lambda>e. cmp (fst e) target \<le> 0) tbl of [] \<Rightarrow> None | e # es \<Rightarrow> Some (length es))"

definition it_SeekToFirst :: "table \<Rightarrow> nat option" where
  "it_SeekToFirst tbl = (if tbl = [] then None else Some 0)"

definition it_SeekToLast :: "table \<Rightarrow> nat option" where
  "it_SeekToLast tbl = (if tbl = [] then None else Some (length tbl - 1))"

definition it_Next :: "table \<Rightarrow> nat option \<Rightarrow> nat option" where
  "it_Next tbl p = (case p of None \<Rightarrow> None | Some i \<Rightarrow> if Suc i < length tbl then Some (Suc i) else None)"

definition it_Prev :: "nat option \<Rightarrow> nat option" where
  "it_Prev p = (case p of Some (Suc i) \<Rightarrow> Some i | _ \<Rightarrow> None)"

section \<open>The iterator\<close>

record L0FileInfo =
  file_table :: table
  smallest_key :: key
  largest_key :: key
  iterator_active :: bool

record ActiveIterator =
  iter_pos :: "nat option"
  file_index :: nat

record L0RangeScanIterator =
  l0_files :: "L0FileInfo list"
  active_iterators :: "ActiveIterator list"
  current_index :: nat

definition L0RangeScanIterator_new :: "(table \<times> key \<times> key) list \<Rightarrow> L0RangeScanIterator" where
  "L0RangeScanIterator_new files =
     \<lparr>l0_files = map (\<lambda>(tbl, lo, hi). \<lparr>file_table = tbl, smallest_key = lo, largest_key = hi, iterator_active = False\<rparr>) files,
      active_iterators = [], current_index = 0\<rparr>"

abbreviation table_of :: "L0RangeScanIterator \<Rightarrow> ActiveIterator \<Rightarrow> table" where
  "table_of st a \<equiv> file_table (l0_files st ! file_index a)"

definition iter_entry :: "L0RangeScanIterator \<Rightarrow> ActiveIterator \<Rightarrow> (key \<times> key) option" where
  "iter_entry st a = map_option (\<lambda>i. table_of st a ! i) (iter_pos a)"

definition iter_Valid :: "L0RangeScanIterator \<Rightarrow> nat \<Rightarrow> bool" where
  "iter_Valid st i \<longleftrightarrow> iter_pos (active_iterators st ! i) \<noteq> None"

definition iter_key :: "L0RangeScanIterator \<Rightarrow> nat \<Rightarrow> key" where
  "iter_key st i = (case iter_entry st (active_iterators st ! i) of Some e \<Rightarrow> fst e | None \<Rightarrow> [])"

definition scan_Valid :: "L0RangeScanIterator \<Rightarrow> bool" where
  "scan_Valid st \<longleftrightarrow> current_index st < length (active_iterators st) \<and> iter_Valid st (current_index st)"

definition scan_key :: "L0RangeScanIterator \<Rightarrow> key" where
  "scan_key st = iter_key st (current_index st)"

definition scan_entry :: "L0RangeScanIterator \<Rightarrow> (key \<times> key) option" where
  "scan_entry st = (if scan_Valid st then iter_entry st (active_iterators st ! current_index st) else None)"

definition ClearAllIterators :: "L0RangeScanIterator \<Rightarrow> L0RangeScanIterator" where
  "ClearAllIterators st =
     st\<lparr>active_iterators := [], l0_files := map (\<lambda>f. f\<lparr>iterator_active := False\<rparr>) (l0_files st), current_index := 0\<rparr>"

text \<open>A new iterator is not valid until it is positioned.\<close>

definition ActivateFile :: "nat \<Rightarrow> L0RangeScanIterator \<Rightarrow> L0RangeScanIterator" where
  "ActivateFile i st =
     (if iterator_active (l0_files st ! i) then st
      else st\<lparr>active_iterators := active_iterators st @ [\<lparr>iter_pos = None, file_index = i\<rparr>],
              l0_files := (l0_files st)[i := (l0_files st ! i)\<lparr>iterator_active := True\<rparr>]\<rparr>)"

definition key_in_file :: "(key \<Rightarrow> key \<Rightarrow> int) \<Rightarrow> key \<Rightarrow> L0FileInfo \<Rightarrow> bool" where
  "key_in_file cmp target f \<longleftrightarrow> cmp (smallest_key f) target \<le> 0 \<and> cmp (largest_key f) target \<ge> 0"

definition AddOverlappingFiles :: "(key \<Rightarrow> key \<Rightarrow> int) \<Rightarrow> key \<Rightarrow> L0RangeScanIterator \<Rightarrow> L0RangeScanIterator" where
  "AddOverlappingFiles cmp target st =
     fold (\<lambda>i st. if key_in_file cmp target (l0_files st ! i) then ActivateFile i st else st) [0..<length (l0_files st)] st"

definition AddOverlappingFilesForPrev :: "(key \<Rightarrow> key \<Rightarrow> int) \<Rightarrow> key \<Rightarrow> L0RangeScanIterator \<Rightarrow> L0RangeScanIterator" where
  "AddOverlappingFilesForPrev cmp target st =
     fold (\<lambda>i st. if key_in_file cmp target (l0_files st ! i) then ActivateFile i st else st) [0..<length (l0_files st)] st"

text \<open>The choice of the current iterator; \<open>better\<close> compares a key with the best one so far.\<close>

definition choose_index :: "(key \<Rightarrow> key \<Rightarrow> bool) \<Rightarrow> L0RangeScanIterator \<Rightarrow> nat" where
  "choose_index better st =
     (let n = length (active_iterators st)
      in fold (\<lambda>i cur. if iter_Valid st i \<and> (cur \<ge> n \<or> better (iter_key st i) (iter_key st cur)) then i else cur) [0..<n] n)"

definition FindSmallest :: "(key \<Rightarrow> key \<Rightarrow> int) \<Rightarrow> L0RangeScanIterator \<Rightarrow> L0RangeScanIterator" where
  "FindSmallest cmp st = st\<lparr>current_index := choose_index (\<lambda>a b. cmp a b < 0) st\<rparr>"

definition FindLargest :: "(key \<Rightarrow> key \<Rightarrow> int) \<Rightarrow> L0RangeScanIterator \<Rightarrow> L0RangeScanIterator" where
  "FindLargest cmp st = st\<lparr>current_index := choose_index (\<lambda>a b. cmp a b > 0) st\<rparr>"

definition position_all :: "(table \<Rightarrow> nat option) \<Rightarrow> L0RangeScanIterator \<Rightarrow> L0RangeScanIterator" where
  "position_all pos st =
     st\<lparr>active_iterators := map (\<lambda>a. a\<lparr>iter_pos := pos (table_of st a)\<rparr>) (active_iterators st)\<rparr>"

definition position_last :: "(table \<Rightarrow> nat option) \<Rightarrow> L0RangeScanIterator \<Rightarrow> L0RangeScanIterator" where
  "position_last pos st =
     (let a = last (active_iterators st)
      in st\<lparr>active_iterators := butlast (active_iterators st) @ [a\<lparr>iter_pos := pos (table_of st a)\<rparr>]\<rparr>)"

definition scan_Seek :: "(key \<Rightarrow> key \<Rightarrow> int) \<Rightarrow> key \<Rightarrow> L0RangeScanIterator \<Rightarrow> L0RangeScanIterator" where
  "scan_Seek cmp target st =
     FindSmallest cmp (position_all (it_Seek cmp target) (AddOverlappingFiles cmp target (ClearAllIterators st)))"

definition scan_SeekForPrev :: "(key \<Rightarrow> key \<Rightarrow> int) \<Rightarrow> key \<Rightarrow> L0RangeScanIterator \<Rightarrow> L0RangeScanIterator" where
  "scan_SeekForPrev cmp target st =
     FindLargest cmp (position_all (it_SeekForPrev cmp target) (AddOverlappingFilesForPrev cmp target (ClearAllIterators st)))"

definition activate_all :: "L0RangeScanIterator \<Rightarrow> L0RangeScanIterator" where
  "activate_all st = fold ActivateFile [0..<length (l0_files st)] st"

definition scan_SeekToFirst :: "(key \<Rightarrow> key \<Rightarrow> int) \<Rightarrow> L0RangeScanIterator \<Rightarrow> L0RangeScanIterator" where
  "scan_SeekToFirst cmp st = FindSmallest cmp (position_all it_SeekToFirst (activate_all (ClearAllIterators st)))"

definition scan_SeekToLast :: "(key \<Rightarrow> key \<Rightarrow> int) \<Rightarrow> L0RangeScanIterator \<Rightarrow> L0RangeScanIterator" where
  "scan_SeekToLast cmp st = FindLargest cmp (position_all it_SeekToLast (activate_all (ClearAllIterators st)))"

definition maybe_add_file ::
  "(key \<Rightarrow> key \<Rightarrow> int) \<Rightarrow> key \<Rightarrow> nat \<Rightarrow> bool \<times> L0RangeScanIterator \<Rightarrow> bool \<times> L0RangeScanIterator" where
  "maybe_add_file cmp current_key i r =
     (let st = snd r
      in if iterator_active (l0_files st ! i) then r
         else if key_in_file cmp current_key (l0_files st ! i)
         then (True, position_last (it_Seek cmp current_key) (ActivateFile i st))
         else r)"

definition MaybeAddMoreFilesForward :: "(key \<Rightarrow> key \<Rightarrow> int) \<Rightarrow> key \<Rightarrow> L0RangeScanIterator \<Rightarrow> L0RangeScanIterator" where
  "MaybeAddMoreFilesForward cmp current_key st =
     (let (added_new_file, st1) = fold (maybe_add_file cmp current_key) [0..<length (l0_files st)] (False, st)
      in if added_new_file then FindSmallest cmp st1 else st1)"

definition best_next_file :: "(key \<Rightarrow> key \<Rightarrow> int) \<Rightarrow> key \<Rightarrow> L0FileInfo list \<Rightarrow> nat" where
  "best_next_file cmp last_key fs =
     fold (\<lambda>i best. if iterator_active (fs ! i) then best
        else if cmp (smallest_key (fs ! i)) last_key > 0 \<and>
                (best \<ge> length fs \<or> cmp (smallest_key (fs ! i)) (smallest_key (fs ! best)) < 0) then i
        else best) [0..<length fs] (length fs)"

definition TryActivateNextFile :: "(key \<Rightarrow> key \<Rightarrow> int) \<Rightarrow> key \<Rightarrow> L0RangeScanIterator \<Rightarrow> L0RangeScanIterator" where
  "TryActivateNextFile cmp last_key st =
     (let best_file = best_next_file cmp last_key (l0_files st)
      in if best_file < length (l0_files st)
         then
           let st1 = FindSmallest cmp (position_last it_SeekToFirst (ActivateFile best_file st))
           in if scan_Valid st1 then MaybeAddMoreFilesForward cmp (scan_key st1) st1 else st1
         else st)"

definition step_current :: "(table \<Rightarrow> nat option \<Rightarrow> nat option) \<Rightarrow> L0RangeScanIterator \<Rightarrow> L0RangeScanIterator" where
  "step_current move st =
     (let c = current_index st; a = active_iterators st ! c
      in st\<lparr>active_iterators := (active_iterators st)[c := a\<lparr>iter_pos := move (table_of st a) (iter_pos a)\<rparr>]\<rparr>)"

definition scan_Next :: "(key \<Rightarrow> key \<Rightarrow> int) \<Rightarrow> L0RangeScanIterator \<Rightarrow> L0RangeScanIterator" where
  "scan_Next cmp st =
     (let last_key = scan_key st;
          st1 = FindSmallest cmp (step_current it_Next st)
      in if scan_Valid st1 then MaybeAddMoreFilesForward cmp (scan_key st1) st1
         else TryActivateNextFile cmp last_key st1)"

definition scan_Prev :: "(key \<Rightarrow> key \<Rightarrow> int) \<Rightarrow> L0RangeScanIterator \<Rightarrow> L0RangeScanIterator" where
  "scan_Prev cmp st = FindLargest cmp (step_current (\<lambda>_. it_Prev) st)"

text \<open>What a reader that loops \<open>while (Valid()) ... Next()\<close> sees in at most \<open>n\<close> steps.\<close>

fun collect :: "(key \<Rightarrow> key \<Rightarrow> int) \<Rightarrow> nat \<Rightarrow> L0RangeScanIterator \<Rightarrow> table" where
  "collect cmp 0 st = []"
| "collect cmp (Suc n) st =
     (case scan_entry st of None \<Rightarrow> [] | Some e \<Rightarrow> e # collect cmp n (scan_Next cmp st))"

end
