(* ===== verification/L0_Range_Scan_Properties.thy ===== *)
theory L0_Range_Scan_Properties
  imports L0_Range_Scan Db_Format
begin

text \<open>
  What a forward scan with \<open>L0RangeScanIterator\<close> returns: everything, in order, from \<open>SeekToFirst\<close>, and
  from a \<open>Seek\<close> into a file when the files are disjoint; and the seeks after which entries are missing.
\<close>

section \<open>Well-formed files\<close>

definition table_ok :: "(key \<Rightarrow> key \<Rightarrow> int) \<Rightarrow> (key \<Rightarrow> bool) \<Rightarrow> table \<times> key \<times> key \<Rightarrow> bool" where
  "table_ok cmp ok = (\<lambda>(tbl, lo, hi). tbl \<noteq> [] \<and> sorted_wrt (\<lambda>a b. cmp (fst a) (fst b) \<le> 0) tbl \<and>
     list_all (\<lambda>e. ok (fst e)) tbl \<and> lo = fst (hd tbl) \<and> hi = fst (last tbl))"

abbreviation info_of :: "L0FileInfo \<Rightarrow> table \<times> key \<times> key" where
  "info_of f \<equiv> (file_table f, smallest_key f, largest_key f)"

definition rest_of :: "L0RangeScanIterator \<Rightarrow> ActiveIterator \<Rightarrow> table" where
  "rest_of st a = (case iter_pos a of None \<Rightarrow> [] | Some i \<Rightarrow> drop i (table_of st a))"

definition iters_ok :: "L0RangeScanIterator \<Rightarrow> bool" where
  "iters_ok st \<longleftrightarrow> (\<forall>a \<in> set (active_iterators st). file_index a < length (l0_files st) \<and>
     iterator_active (l0_files st ! file_index a) \<and>
     (\<forall>i. iter_pos a = Some i \<longrightarrow> i < length (table_of st a)))"

abbreviation nth_rest :: "L0RangeScanIterator \<Rightarrow> nat \<Rightarrow> table" where
  "nth_rest st i \<equiv> rest_of st (active_iterators st ! i)"

text \<open>The entries a scan has still to return when \<open>F\<close> are the files it has still to open.\<close>

definition remaining :: "nat set \<Rightarrow> L0RangeScanIterator \<Rightarrow> (key \<times> key) multiset" where
  "remaining F st = (\<Sum>i < length (active_iterators st). mset (nth_rest st i)) + (\<Sum>g \<in> F. mset (file_table (l0_files st ! g)))"

lemma rest_of_Valid: "iters_ok st \<Longrightarrow> i < length (active_iterators st) \<Longrightarrow> iter_Valid st i \<longleftrightarrow> nth_rest st i \<noteq> []"
  by (auto simp: iters_ok_def iter_Valid_def rest_of_def dest!: bspec [OF _ nth_mem] split: option.splits)

lemma rest_of_entry:
  assumes "iters_ok st" "i < length (active_iterators st)" "iter_Valid st i"
  shows "iter_entry st (active_iterators st ! i) = Some (hd (nth_rest st i))" "iter_key st i = fst (hd (nth_rest st i))"
proof -
  obtain p where p: "iter_pos (active_iterators st ! i) = Some p" using assms(3) by (auto simp: iter_Valid_def)
  have "p < length (table_of st (active_iterators st ! i))"
    using assms(1,2) p by (auto simp: iters_ok_def)
  then show "iter_entry st (active_iterators st ! i) = Some (hd (nth_rest st i))"
    using p by (simp add: iter_entry_def rest_of_def hd_drop_conv_nth)
  then show "iter_key st i = fst (hd (nth_rest st i))" by (simp add: iter_key_def)
qed

lemma rest_of_subset: "iters_ok st \<Longrightarrow> a \<in> set (active_iterators st) \<Longrightarrow> set (rest_of st a) \<subseteq> set (table_of st a)"
  by (auto simp: rest_of_def dest: in_set_dropD split: option.splits)

lemma rest_of_it_Next:
  assumes "\<And>i. iter_pos a = Some i \<Longrightarrow> i < length (table_of st a)"
  shows "rest_of st (a\<lparr>iter_pos := it_Next (table_of st a) (iter_pos a)\<rparr>) = tl (rest_of st a)"
  using assms by (auto simp: rest_of_def it_Next_def drop_Suc tl_drop split: option.splits)

lemma fold_fixpoint: "(\<And>x. x \<in> set xs \<Longrightarrow> f x s = s) \<Longrightarrow> fold f xs s = s"
  by (induction xs) auto

lemma MaybeAddMoreFilesForward_noop:
  assumes "\<And>i. i < length (l0_files st) \<Longrightarrow> \<not> iterator_active (l0_files st ! i) \<Longrightarrow> \<not> key_in_file cmp k (l0_files st ! i)"
  shows "MaybeAddMoreFilesForward cmp k st = st"
proof -
  have "fold (maybe_add_file cmp k) [0..<length (l0_files st)] (False, st) = (False, st)"
    by (rule fold_fixpoint) (use assms in \<open>simp add: maybe_add_file_def\<close>)
  then show ?thesis by (simp add: MaybeAddMoreFilesForward_def)
qed

lemma FindSmallest_simps [simp]:
  "l0_files (FindSmallest cmp st) = l0_files st" "active_iterators (FindSmallest cmp st) = active_iterators st"
  "iters_ok (FindSmallest cmp st) = iters_ok st" "rest_of (FindSmallest cmp st) = rest_of st"
  "iter_Valid (FindSmallest cmp st) = iter_Valid st" "iter_key (FindSmallest cmp st) = iter_key st"
  by (auto simp: FindSmallest_def iters_ok_def rest_of_def iter_Valid_def iter_key_def iter_entry_def fun_eq_iff cong: option.case_cong)

section \<open>The least key\<close>

context comparator
begin

lemma fold_least:
  assumes "\<And>i. i < n \<Longrightarrow> P i \<Longrightarrow> ok (k i)" "m \<le> n"
  shows "let c = fold (\<lambda>i cur. if P i \<and> (cur \<ge> n \<or> cmp (k i) (k cur) < 0) then i else cur) [0..<m] n
    in (c = n \<and> (\<forall>i < m. \<not> P i)) \<or> (c < m \<and> P c \<and> (\<forall>i < m. P i \<longrightarrow> cmp (k c) (k i) \<le> 0))"
  using assms(2)
proof (induction m)
  case (Suc m)
  define c where "c = fold (\<lambda>i cur. if P i \<and> (cur \<ge> n \<or> cmp (k i) (k cur) < 0) then i else cur) [0..<m] n"
  have c: "(c = n \<and> (\<forall>i < m. \<not> P i)) \<or> (c < m \<and> P c \<and> (\<forall>i < m. P i \<longrightarrow> cmp (k c) (k i) \<le> 0))"
    using Suc by (simp add: c_def Let_def)
  have okm: "P m \<Longrightarrow> ok (k m)" using assms(1) Suc.prems by simp
  show ?case
  proof (cases "P m \<and> (c \<ge> n \<or> cmp (k m) (k c) < 0)")
    case True
    have "cmp (k m) (k i) \<le> 0" if "i < Suc m" "P i" for i
    proof (cases "i = m")
      case False
      then have "c < m" "P c" "cmp (k c) (k i) \<le> 0" "cmp (k m) (k c) < 0" using c that True Suc.prems by auto
      then show ?thesis using cmp_less_le_trans [of "k m" "k c" "k i"] okm True assms(1) that Suc.prems False by fastforce
    qed (use okm True in \<open>simp add: cmp_refl\<close>)
    then show ?thesis using True Suc.prems by (simp flip: c_def add: Let_def)
  next
    case False
    then have "P m \<Longrightarrow> c < n \<and> cmp (k c) (k m) \<le> 0"
      using c okm assms(1) [of c] cmp_le_swap [of "k c" "k m"] by fastforce
    then have "(c = n \<and> (\<forall>i < Suc m. \<not> P i)) \<or> (c < Suc m \<and> P c \<and> (\<forall>i < Suc m. P i \<longrightarrow> cmp (k c) (k i) \<le> 0))"
      using c by (auto simp: less_Suc_eq)
    moreover have "(if P m \<and> (c \<ge> n \<or> cmp (k m) (k c) < 0) then m else c) = c" using False by (simp only: if_False)
    ultimately show ?thesis by (simp flip: c_def add: Let_def cong: if_cong)
  qed
qed simp

definition infos_ok :: "L0RangeScanIterator \<Rightarrow> bool" where
  "infos_ok st \<longleftrightarrow> iters_ok st \<and> (\<forall>f \<in> set (l0_files st). table_ok cmp ok (info_of f))"

lemma infos_okD:
  assumes "infos_ok st"
  shows "iters_ok st" "i < length (l0_files st) \<Longrightarrow> table_ok cmp ok (info_of (l0_files st ! i))"
  using assms by (auto simp: infos_ok_def)

lemma table_okD:
  assumes "table_ok cmp ok (tbl, lo, hi)"
  shows "ok lo" "ok hi" "e \<in> set tbl \<Longrightarrow> ok (fst e) \<and> cmp lo (fst e) \<le> 0 \<and> cmp (fst e) hi \<le> 0"
proof -
  have t: "tbl \<noteq> []" "sorted_wrt (\<lambda>a b. cmp (fst a) (fst b) \<le> 0) tbl" "\<forall>e \<in> set tbl. ok (fst e)"
    "lo = fst (hd tbl)" "hi = fst (last tbl)" using assms by (auto simp: table_ok_def list_all_iff)
  show "ok lo" "ok hi" using t by simp_all
  assume e: "e \<in> set tbl"
  have "cmp (fst (hd tbl)) (fst e) \<le> 0"
    using t(1-3) e by (cases tbl) (auto simp: cmp_refl)
  moreover have "cmp (fst e) (fst (last tbl)) \<le> 0"
    using t(1-3) e by (cases tbl rule: rev_cases) (auto simp: cmp_refl sorted_wrt_append)
  ultimately show "ok (fst e) \<and> cmp lo (fst e) \<le> 0 \<and> cmp (fst e) hi \<le> 0" using t e by simp
qed

lemma rest_bounds:
  assumes "infos_ok st" "i < length (active_iterators st)" "e \<in> set (nth_rest st i)"
  shows "ok (fst e)" "cmp (fst e) (largest_key (l0_files st ! file_index (active_iterators st ! i))) \<le> 0"
    "cmp (smallest_key (l0_files st ! file_index (active_iterators st ! i))) (fst e) \<le> 0"
proof -
  let ?a = "active_iterators st ! i"
  have a: "?a \<in> set (active_iterators st)" "file_index ?a < length (l0_files st)"
    using assms(1,2) by (auto simp: infos_ok_def iters_ok_def)
  have "e \<in> set (table_of st ?a)" using rest_of_subset [OF infos_okD(1) [OF assms(1)] a(1)] assms(3) by auto
  from table_okD(3) [OF infos_okD(2) [OF assms(1) a(2)] this]
  show "ok (fst e)" "cmp (fst e) (largest_key (l0_files st ! file_index ?a)) \<le> 0"
    "cmp (smallest_key (l0_files st ! file_index ?a)) (fst e) \<le> 0" by simp_all
qed

lemma rest_sorted:
  assumes "infos_ok st" "i < length (active_iterators st)" "e \<in> set (nth_rest st i)"
  shows "cmp (fst (hd (nth_rest st i))) (fst e) \<le> 0"
proof -
  let ?a = "active_iterators st ! i"
  have "file_index ?a < length (l0_files st)" using assms(1,2) by (auto simp: infos_ok_def iters_ok_def)
  then have "sorted_wrt (\<lambda>a b. cmp (fst a) (fst b) \<le> 0) (table_of st ?a)"
    using infos_okD(2) [OF assms(1)] by (simp add: table_ok_def)
  then have "sorted_wrt (\<lambda>a b. cmp (fst a) (fst b) \<le> 0) (nth_rest st i)"
    by (auto simp: rest_of_def sorted_wrt_drop split: option.splits)
  then show ?thesis using assms(3) rest_bounds(1) [OF assms]
    by (cases "nth_rest st i") (auto simp: cmp_refl)
qed

lemma choose_least:
  assumes "infos_ok st" "current_index st = choose_index (\<lambda>a b. cmp a b < 0) st"
  shows "scan_Valid st \<longleftrightarrow> (\<exists>i < length (active_iterators st). nth_rest st i \<noteq> [])"
    "scan_Valid st \<Longrightarrow> scan_entry st = Some (hd (nth_rest st (current_index st)))"
    "scan_Valid st \<Longrightarrow> scan_key st = fst (hd (nth_rest st (current_index st)))"
    "scan_Valid st \<Longrightarrow> i < length (active_iterators st) \<Longrightarrow> e \<in> set (nth_rest st i) \<Longrightarrow> cmp (scan_key st) (fst e) \<le> 0"
    "scan_Valid st \<Longrightarrow> ok (scan_key st)"
proof -
  let ?n = "length (active_iterators st)" and ?c = "current_index st"
  note io = infos_okD(1) [OF assms(1)]
  have okk: "ok (iter_key st i)" if "i < ?n" "iter_Valid st i" for i
    using rest_bounds(1) [OF assms(1) that(1), of "hd (nth_rest st i)"] rest_of_Valid [OF io that(1)]
      rest_of_entry [OF io that] that(2) by simp
  have c: "(?c = ?n \<and> (\<forall>i < ?n. \<not> iter_Valid st i)) \<or>
      (?c < ?n \<and> iter_Valid st ?c \<and> (\<forall>i < ?n. iter_Valid st i \<longrightarrow> cmp (iter_key st ?c) (iter_key st i) \<le> 0))"
    using fold_least [of ?n "iter_Valid st" "iter_key st" ?n] okk assms(2) by (simp add: choose_index_def Let_def)
  show v: "scan_Valid st \<longleftrightarrow> (\<exists>i < ?n. nth_rest st i \<noteq> [])"
    using c rest_of_Valid [OF io] by (auto simp: scan_Valid_def)
  assume V: "scan_Valid st"
  then have cn: "?c < ?n" "iter_Valid st ?c" by (simp_all add: scan_Valid_def)
  show "scan_entry st = Some (hd (nth_rest st ?c))" using V rest_of_entry [OF io cn] by (simp add: scan_entry_def)
  show k: "scan_key st = fst (hd (nth_rest st ?c))" using rest_of_entry [OF io cn] by (simp add: scan_key_def)
  show oks: "ok (scan_key st)" using okk cn by (simp add: scan_key_def)
  assume i: "i < ?n" "e \<in> set (nth_rest st i)"
  then have iv: "iter_Valid st i" using rest_of_Valid [OF io i(1)] by auto
  have "cmp (scan_key st) (iter_key st i) \<le> 0" using c cn i(1) iv by (auto simp: scan_key_def)
  then show "cmp (scan_key st) (fst e) \<le> 0"
    using rest_sorted [OF assms(1) i] rest_of_entry(2) [OF io i(1) iv] okk [OF i(1) iv] rest_bounds(1) [OF assms(1) i] oks cmp_trans
    by metis
qed

section \<open>One step of the scan\<close>

text \<open>\<open>F\<close>: the files that are still to be opened. The closed files outside \<open>F\<close> lie before the current key.\<close>

definition scan_inv :: "nat set \<Rightarrow> L0RangeScanIterator \<Rightarrow> bool" where
  "scan_inv F st \<longleftrightarrow> infos_ok st \<and> current_index st = choose_index (\<lambda>a b. cmp a b < 0) st \<and>
     (\<forall>g \<in> F. g < length (l0_files st) \<and> \<not> iterator_active (l0_files st ! g)) \<and>
     (\<forall>g < length (l0_files st). \<not> iterator_active (l0_files st ! g) \<and> g \<notin> F \<and> scan_Valid st \<longrightarrow>
        cmp (largest_key (l0_files st ! g)) (scan_key st) < 0) \<and>
     (\<forall>g \<in> F. \<forall>i < length (active_iterators st). nth_rest st i \<noteq> [] \<longrightarrow>
        cmp (largest_key (l0_files st ! file_index (active_iterators st ! i))) (smallest_key (l0_files st ! g)) < 0) \<and>
     (\<forall>g \<in> F. \<forall>h \<in> F. g \<noteq> h \<longrightarrow> cmp (largest_key (l0_files st ! g)) (smallest_key (l0_files st ! h)) < 0 \<or>
        cmp (largest_key (l0_files st ! h)) (smallest_key (l0_files st ! g)) < 0) \<and>
     (F \<noteq> {} \<longrightarrow> scan_Valid st)"

lemma choose_index_FindSmallest: "current_index (FindSmallest cmp st) = choose_index (\<lambda>a b. cmp a b < 0) (FindSmallest cmp st)"
  by (simp add: choose_index_def Let_def) (simp add: FindSmallest_def choose_index_def Let_def)

lemma step_current_facts:
  assumes "infos_ok st" "current_index st < length (active_iterators st)"
  defines "st1 \<equiv> FindSmallest cmp (step_current it_Next st)"
  shows "infos_ok st1" "l0_files st1 = l0_files st" "length (active_iterators st1) = length (active_iterators st)"
    "i < length (active_iterators st) \<Longrightarrow> file_index (active_iterators st1 ! i) = file_index (active_iterators st ! i)"
    "i < length (active_iterators st) \<Longrightarrow>
       nth_rest st1 i = (if i = current_index st then tl (nth_rest st i) else nth_rest st i)"
proof -
  let ?a = "active_iterators st ! current_index st"
  have bnd: "\<And>i. iter_pos ?a = Some i \<Longrightarrow> i < length (table_of st ?a)"
    using assms(1,2) by (auto simp: infos_ok_def iters_ok_def)
  show l: "l0_files st1 = l0_files st" "length (active_iterators st1) = length (active_iterators st)"
    by (simp_all add: st1_def step_current_def Let_def)
  have ro: "rest_of (step_current it_Next st) = rest_of st"
    by (simp add: fun_eq_iff rest_of_def step_current_def Let_def cong: option.case_cong)
  show "i < length (active_iterators st) \<Longrightarrow> file_index (active_iterators st1 ! i) = file_index (active_iterators st ! i)"
    using assms(2) by (simp add: st1_def step_current_def Let_def nth_list_update)
  show "i < length (active_iterators st) \<Longrightarrow>
      nth_rest st1 i = (if i = current_index st then tl (nth_rest st i) else nth_rest st i)"
    using rest_of_it_Next [OF bnd] by (auto simp: st1_def ro) (simp_all add: step_current_def Let_def nth_list_update)
  have "file_index ?a < length (l0_files st)" "iterator_active (l0_files st ! file_index ?a)"
    using assms(1,2) by (auto simp: infos_ok_def iters_ok_def)
  then have "iters_ok (step_current it_Next st)"
    using assms(1,2) by (auto simp: infos_ok_def iters_ok_def step_current_def Let_def it_Next_def
      dest!: set_update_subset_insert [THEN subsetD] split: option.splits if_splits)
  then show "infos_ok st1" using assms(1) l by (simp add: infos_ok_def st1_def)
qed

lemma remaining_step:
  assumes "infos_ok st" "current_index st = choose_index (\<lambda>a b. cmp a b < 0) st" "scan_Valid st"
  shows "remaining F st =
    add_mset (hd (nth_rest st (current_index st))) (remaining F (FindSmallest cmp (step_current it_Next st)))"
proof -
  let ?c = "current_index st" and ?n = "length (active_iterators st)" and ?st1 = "FindSmallest cmp (step_current it_Next st)"
  have c: "?c < ?n" "iter_Valid st ?c" using assms(3) by (simp_all add: scan_Valid_def)
  have ne: "nth_rest st ?c \<noteq> []" using rest_of_Valid [OF infos_okD(1) [OF assms(1)] c(1)] c(2) by simp
  note f = step_current_facts [OF assms(1) c(1)]
  have r: "(\<Sum>i \<in> {..<?n} - {?c}. mset (nth_rest ?st1 i)) = (\<Sum>i \<in> {..<?n} - {?c}. mset (nth_rest st i))"
    by (rule sum.cong) (use f(5) in auto)
  have h: "mset (nth_rest st ?c) = add_mset (hd (nth_rest st ?c)) (mset (nth_rest ?st1 ?c))"
    using f(5) [OF c(1)] ne by (cases "nth_rest st ?c") simp_all
  have "(\<Sum>i < ?n. mset (nth_rest st i)) = add_mset (hd (nth_rest st ?c)) (\<Sum>i < ?n. mset (nth_rest ?st1 i))"
    using c(1) by (simp add: sum.remove [of "{..<?n}" ?c] r h del: FindSmallest_simps)
  then show ?thesis using f(2,3) by (simp add: remaining_def del: FindSmallest_simps)
qed

text \<open>Opening a file at its first entry.\<close>

definition open_file :: "nat \<Rightarrow> L0RangeScanIterator \<Rightarrow> L0RangeScanIterator" where
  "open_file g st = FindSmallest cmp (position_last it_SeekToFirst (ActivateFile g st))"

lemma open_file_facts:
  assumes "infos_ok st" "g < length (l0_files st)" "\<not> iterator_active (l0_files st ! g)"
  shows "infos_ok (open_file g st)" "length (l0_files (open_file g st)) = length (l0_files st)"
    "h < length (l0_files st) \<Longrightarrow> info_of (l0_files (open_file g st) ! h) = info_of (l0_files st ! h)"
    "h < length (l0_files st) \<Longrightarrow> iterator_active (l0_files (open_file g st) ! h) = (h = g \<or> iterator_active (l0_files st ! h))"
    "active_iterators (open_file g st) = active_iterators st @ [\<lparr>iter_pos = Some 0, file_index = g\<rparr>]"
    "a \<in> set (active_iterators st) \<Longrightarrow> rest_of (open_file g st) a = rest_of st a"
    "rest_of (open_file g st) \<lparr>iter_pos = Some 0, file_index = g\<rparr> = file_table (l0_files st ! g)"
proof -
  have ne: "file_table (l0_files st ! g) \<noteq> []" using infos_okD(2) [OF assms(1,2)] by (simp add: table_ok_def)
  have fs: "l0_files (open_file g st) = (l0_files st)[g := (l0_files st ! g)\<lparr>iterator_active := True\<rparr>]"
    using assms(3) by (simp add: open_file_def position_last_def ActivateFile_def Let_def)
  show act: "active_iterators (open_file g st) = active_iterators st @ [\<lparr>iter_pos = Some 0, file_index = g\<rparr>]"
    using assms(2,3) ne by (simp add: open_file_def position_last_def ActivateFile_def Let_def it_SeekToFirst_def)
  show len: "length (l0_files (open_file g st)) = length (l0_files st)" by (simp add: fs)
  show inf: "info_of (l0_files (open_file g st) ! h) = info_of (l0_files st ! h)" if "h < length (l0_files st)" for h
    using that assms(2) by (simp add: fs nth_list_update)
  show ia: "iterator_active (l0_files (open_file g st) ! h) = (h = g \<or> iterator_active (l0_files st ! h))"
    if "h < length (l0_files st)" for h
    using that assms(2) by (simp add: fs nth_list_update)
  show "rest_of (open_file g st) a = rest_of st a" if "a \<in> set (active_iterators st)"
    using that assms(1) inf [of "file_index a"] by (auto simp: rest_of_def infos_ok_def iters_ok_def split: option.splits)
  show "rest_of (open_file g st) \<lparr>iter_pos = Some 0, file_index = g\<rparr> = file_table (l0_files st ! g)"
    using inf [OF assms(2)] by (simp add: rest_of_def)
  have "iters_ok (open_file g st)"
    using assms(1,2) inf ia ne len by (auto simp: infos_ok_def iters_ok_def act)
  moreover have "\<forall>f \<in> set (l0_files (open_file g st)). table_ok cmp ok (info_of f)"
    using infos_okD(2) [OF assms(1)] inf len by (auto simp: in_set_conv_nth)
  ultimately show "infos_ok (open_file g st)" by (simp add: infos_ok_def)
qed

lemma scan_invD:
  assumes "scan_inv F st"
  shows "infos_ok st" "current_index st = choose_index (\<lambda>a b. cmp a b < 0) st"
    "g \<in> F \<Longrightarrow> g < length (l0_files st) \<and> \<not> iterator_active (l0_files st ! g)"
    "g < length (l0_files st) \<Longrightarrow> \<not> iterator_active (l0_files st ! g) \<Longrightarrow> g \<notin> F \<Longrightarrow> scan_Valid st \<Longrightarrow>
       cmp (largest_key (l0_files st ! g)) (scan_key st) < 0"
    "g \<in> F \<Longrightarrow> i < length (active_iterators st) \<Longrightarrow> nth_rest st i \<noteq> [] \<Longrightarrow>
       cmp (largest_key (l0_files st ! file_index (active_iterators st ! i))) (smallest_key (l0_files st ! g)) < 0"
    "g \<in> F \<Longrightarrow> h \<in> F \<Longrightarrow> g \<noteq> h \<Longrightarrow> cmp (largest_key (l0_files st ! g)) (smallest_key (l0_files st ! h)) < 0 \<or>
       cmp (largest_key (l0_files st ! h)) (smallest_key (l0_files st ! g)) < 0"
    "F \<noteq> {} \<Longrightarrow> scan_Valid st"
  using assms unfolding scan_inv_def by blast+

lemma file_keys_ok:
  assumes "infos_ok st" "g < length (l0_files st)"
  shows "ok (smallest_key (l0_files st ! g))" "ok (largest_key (l0_files st ! g))"
    "cmp (smallest_key (l0_files st ! g)) (largest_key (l0_files st ! g)) \<le> 0"
proof -
  note t = infos_okD(2) [OF assms]
  show "ok (smallest_key (l0_files st ! g))" "ok (largest_key (l0_files st ! g))" using table_okD(1,2) [OF t] by simp_all
  have "file_table (l0_files st ! g) \<noteq> []" "largest_key (l0_files st ! g) = fst (last (file_table (l0_files st ! g)))"
    using t by (simp_all add: table_ok_def)
  then show "cmp (smallest_key (l0_files st ! g)) (largest_key (l0_files st ! g)) \<le> 0"
    using table_okD(3) [OF t, of "last (file_table (l0_files st ! g))"] by simp
qed

lemma inv_future_after:
  assumes "scan_inv F st" "scan_Valid st" "g \<in> F"
  shows "cmp (smallest_key (l0_files st ! g)) (scan_key st) > 0"
proof -
  note D = scan_invD [OF assms(1)]
  let ?c = "current_index st" and ?f = "l0_files st ! file_index (active_iterators st ! current_index st)"
  have c: "?c < length (active_iterators st)" "iter_Valid st ?c" using assms(2) by (simp_all add: scan_Valid_def)
  have ne: "nth_rest st ?c \<noteq> []" using rest_of_Valid [OF infos_okD(1) [OF D(1)] c(1)] c(2) by simp
  have fi: "file_index (active_iterators st ! ?c) < length (l0_files st)" using D(1) c(1) by (simp add: infos_ok_def iters_ok_def)
  have k: "scan_key st = fst (hd (nth_rest st ?c))" "ok (scan_key st)" using choose_least(3,5) [OF D(1,2) assms(2)] by simp_all
  have "cmp (scan_key st) (largest_key ?f) \<le> 0" using rest_bounds(2) [OF D(1) c(1), of "hd (nth_rest st ?c)"] ne k(1) by simp
  moreover have "cmp (largest_key ?f) (smallest_key (l0_files st ! g)) < 0" using D(5) [OF assms(3) c(1) ne] .
  moreover note ok = file_keys_ok [OF D(1) fi] file_keys_ok(1) [OF D(1), of g] D(3) [OF assms(3)] k(2)
  ultimately have "cmp (scan_key st) (smallest_key (l0_files st ! g)) < 0"
    using cmp_le_less_trans [of "scan_key st" "largest_key ?f" "smallest_key (l0_files st ! g)"] by simp
  then show ?thesis using cmp_swap [of "scan_key st" "smallest_key (l0_files st ! g)"] ok by simp
qed

lemma inv_no_more_files:
  assumes "scan_inv F st" "scan_Valid st"
  shows "MaybeAddMoreFilesForward cmp (scan_key st) st = st"
proof (rule MaybeAddMoreFilesForward_noop)
  fix i assume i: "i < length (l0_files st)" "\<not> iterator_active (l0_files st ! i)"
  show "\<not> key_in_file cmp (scan_key st) (l0_files st ! i)"
  proof (cases "i \<in> F")
    case True
    then show ?thesis using inv_future_after [OF assms] by (fastforce simp: key_in_file_def)
  next
    case False
    then show ?thesis using scan_invD(4) [OF assms(1) i] assms(2) by (simp add: key_in_file_def)
  qed
qed

lemma inv_advance:
  assumes "scan_inv F st" "scan_Valid st"
  defines "st1 \<equiv> FindSmallest cmp (step_current it_Next st)"
  assumes "scan_Valid st1 \<or> F = {}"
  shows "scan_inv F st1"
proof -
  note D = scan_invD [OF assms(1)]
  have c: "current_index st < length (active_iterators st)" using assms(2) by (simp add: scan_Valid_def)
  note f = step_current_facts [OF D(1) c, folded st1_def]
  have ch: "current_index st1 = choose_index (\<lambda>a b. cmp a b < 0) st1" unfolding st1_def by (rule choose_index_FindSmallest)
  have le: "cmp (scan_key st) (scan_key st1) \<le> 0" if V: "scan_Valid st1"
  proof -
    let ?d = "current_index st1"
    have d: "?d < length (active_iterators st)" "iter_Valid st1 ?d" using V f(3) by (simp_all add: scan_Valid_def)
    have "nth_rest st1 ?d \<noteq> []" using rest_of_Valid [OF infos_okD(1) [OF f(1)], of ?d] d f(3) by simp
    then have "hd (nth_rest st1 ?d) \<in> set (nth_rest st ?d)"
      using f(5) [OF d(1)] by (metis hd_in_set list.set_sel(2) tl_Nil)
    then show ?thesis using choose_least(4) [OF D(1,2) assms(2) d(1)] choose_least(3) [OF f(1) ch V] by simp
  qed
  have p: "cmp (largest_key (l0_files st1 ! g)) (scan_key st1) < 0"
    if "g < length (l0_files st1)" "\<not> iterator_active (l0_files st1 ! g)" "g \<notin> F" "scan_Valid st1" for g
    using that D(4) [of g] assms(2) le f(2) file_keys_ok(2) [OF D(1), of g] choose_least(5) [OF D(1,2) assms(2)]
      choose_least(5) [OF f(1) ch] cmp_less_le_trans [of "largest_key (l0_files st ! g)" "scan_key st" "scan_key st1"] by simp
  have q: "cmp (largest_key (l0_files st1 ! file_index (active_iterators st1 ! i))) (smallest_key (l0_files st1 ! g)) < 0"
    if "g \<in> F" "i < length (active_iterators st1)" "nth_rest st1 i \<noteq> []" for g i
  proof -
    have i: "i < length (active_iterators st)" using that(2) f(3) by simp
    have "nth_rest st i \<noteq> []" using f(5) [OF i] that(3) by (cases "i = current_index st") auto
    then show ?thesis using D(5) [OF that(1) i] f(2) f(4) [OF i] by simp
  qed
  show ?thesis unfolding scan_inv_def
    using f(1) ch D(3) p q D(6) assms(4) by (simp only: f(2)) blast
qed

lemma best_next_file_spec:
  fixes k :: key
  assumes "infos_ok st"
  defines "b \<equiv> best_next_file cmp k (l0_files st)"
    and "cand \<equiv> \<lambda>i. \<not> iterator_active (l0_files st ! i) \<and> cmp (smallest_key (l0_files st ! i)) k > 0"
  shows "(b = length (l0_files st) \<and> (\<forall>i < length (l0_files st). \<not> cand i)) \<or>
    (b < length (l0_files st) \<and> cand b \<and>
     (\<forall>i < length (l0_files st). cand i \<longrightarrow> cmp (smallest_key (l0_files st ! b)) (smallest_key (l0_files st ! i)) \<le> 0))"
proof -
  let ?n = "length (l0_files st)" and ?k = "\<lambda>i. smallest_key (l0_files st ! i)"
  have "b = fold (\<lambda>i cur. if cand i \<and> (cur \<ge> ?n \<or> cmp (?k i) (?k cur) < 0) then i else cur) [0..<?n] ?n"
    unfolding b_def best_next_file_def cand_def by (intro fold_cong) (auto simp: fun_eq_iff)
  then show ?thesis using fold_least [of ?n cand ?k ?n] file_keys_ok(1) [OF assms(1)] by (simp add: Let_def)
qed

text \<open>The file that starts next lies before the other files to come and behind the closed ones.\<close>

lemma inv_next_file:
  assumes inv: "scan_inv F st" and V: "scan_Valid st" and b: "b \<in> F"
    and least: "\<And>g. g \<in> F \<Longrightarrow> cmp (smallest_key (l0_files st ! b)) (smallest_key (l0_files st ! g)) \<le> 0"
  shows "g \<in> F \<Longrightarrow> g \<noteq> b \<Longrightarrow> cmp (largest_key (l0_files st ! b)) (smallest_key (l0_files st ! g)) < 0"
    "g < length (l0_files st) \<Longrightarrow> \<not> iterator_active (l0_files st ! g) \<Longrightarrow> g \<notin> F \<Longrightarrow>
       cmp (largest_key (l0_files st ! g)) (smallest_key (l0_files st ! b)) < 0"
proof -
  note D = scan_invD [OF inv]
  let ?S = "smallest_key (l0_files st ! b)"
  show "cmp (largest_key (l0_files st ! b)) (smallest_key (l0_files st ! g)) < 0" if "g \<in> F" "g \<noteq> b"
    using D(6) [OF b that(1)] that(2) least [OF that(1)] file_keys_ok [OF D(1), of g] file_keys_ok [OF D(1), of b] D(3) [OF b] D(3) [OF that(1)]
      cmp_le_less_trans [of "smallest_key (l0_files st ! g)" "largest_key (l0_files st ! g)" ?S] cmp_le_swap [of ?S "smallest_key (l0_files st ! g)"] by fastforce
  show "cmp (largest_key (l0_files st ! g)) ?S < 0"
    if "g < length (l0_files st)" "\<not> iterator_active (l0_files st ! g)" "g \<notin> F"
    using D(4) [OF that V] inv_future_after [OF inv V b] cmp_swap [of "scan_key st" ?S] file_keys_ok [OF D(1), of g] file_keys_ok [OF D(1), of b]
      D(3) [OF b] that(1) choose_least(5) [OF D(1,2) V] cmp_less_le_trans [of "largest_key (l0_files st ! g)" "scan_key st" ?S] by force
qed

lemma inv_open_next:
  assumes inv: "scan_inv F st" and V: "scan_Valid st"
  defines "st1 \<equiv> FindSmallest cmp (step_current it_Next st)"
  assumes N: "\<not> scan_Valid st1" and b: "b \<in> F"
    and least: "\<And>g. g \<in> F \<Longrightarrow> cmp (smallest_key (l0_files st ! b)) (smallest_key (l0_files st ! g)) \<le> 0"
  shows "scan_inv (F - {b}) (open_file b st1) \<and> scan_Valid (open_file b st1)"
proof -
  note D = scan_invD [OF inv]
  have c: "current_index st < length (active_iterators st)" using V by (simp add: scan_Valid_def)
  note f = step_current_facts [OF D(1) c, folded st1_def]
  have ch: "current_index st1 = choose_index (\<lambda>a b. cmp a b < 0) st1" unfolding st1_def by (rule choose_index_FindSmallest)
  have bb: "b < length (l0_files st1)" "\<not> iterator_active (l0_files st1 ! b)" using D(3) [OF b] f(2) by simp_all
  note o = open_file_facts [OF f(1) bb]
  let ?st2 = "open_file b st1" and ?n = "length (active_iterators st1)" and ?S = "smallest_key (l0_files st ! b)"
  have tb: "file_table (l0_files st ! b) \<noteq> []" "?S = fst (hd (file_table (l0_files st ! b)))"
    using infos_okD(2) [OF f(1) bb(1)] f(2) by (simp_all add: table_ok_def)
  have ch2: "current_index ?st2 = choose_index (\<lambda>a b. cmp a b < 0) ?st2" unfolding open_file_def by (rule choose_index_FindSmallest)
  have old: "nth_rest ?st2 i = []" if "i < ?n" for i
    using choose_least(1) [OF f(1) ch] N that o(5,6) by (simp add: nth_append)
  have new: "nth_rest ?st2 ?n = file_table (l0_files st ! b)" using o(5,7) f(2) by simp
  have V2: "scan_Valid ?st2" using choose_least(1) [OF o(1) ch2] new tb(1) o(5) by auto
  have "current_index ?st2 = ?n"
    using V2 old rest_of_Valid [OF infos_okD(1) [OF o(1)]] o(5) by (auto simp: scan_Valid_def less_Suc_eq)
  then have key: "scan_key ?st2 = ?S" using choose_least(3) [OF o(1) ch2 V2] new tb(2) by simp
  have inf: "l0_files st1 = l0_files st" by (rule f(2))
  note sep = inv_next_file(1) [OF inv V b least] and past = inv_next_file(2) [OF inv V b least]
  have fl: "\<And>h. h < length (l0_files st) \<Longrightarrow> info_of (l0_files ?st2 ! h) = info_of (l0_files st ! h)" "length (l0_files ?st2) = length (l0_files st)"
    using o(2,3) inf by simp_all
  have "scan_inv (F - {b}) ?st2" unfolding scan_inv_def
  proof (intro conjI ballI allI impI)
    fix g assume "g \<in> F - {b}"
    then show "g < length (l0_files ?st2)" "\<not> iterator_active (l0_files ?st2 ! g)" using D(3) [of g] o(4) [of g] fl(2) inf by auto
    fix i assume "i < length (active_iterators ?st2)" "nth_rest ?st2 i \<noteq> []"
    then have "i = ?n" using old o(5) by (auto simp: less_Suc_eq)
    then show "cmp (largest_key (l0_files ?st2 ! file_index (active_iterators ?st2 ! i))) (smallest_key (l0_files ?st2 ! g)) < 0"
      using sep [of g] \<open>g \<in> F - {b}\<close> o(5) fl D(3) [of g] D(3) [OF b] by simp
  next
    fix g assume "g < length (l0_files ?st2)" "\<not> iterator_active (l0_files ?st2 ! g) \<and> g \<notin> F - {b} \<and> scan_Valid ?st2"
    then show "cmp (largest_key (l0_files ?st2 ! g)) (scan_key ?st2) < 0" using past [of g] o(4) [of g] fl inf key by auto
  next
    fix g h assume "g \<in> F - {b}" "h \<in> F - {b}" "g \<noteq> h"
    then show "cmp (largest_key (l0_files ?st2 ! g)) (smallest_key (l0_files ?st2 ! h)) < 0 \<or>
        cmp (largest_key (l0_files ?st2 ! h)) (smallest_key (l0_files ?st2 ! g)) < 0"
      using D(6) [of g h] D(3) [of g] D(3) [of h] fl by auto
  qed (use o(1) ch2 V2 in auto)
  then show ?thesis using V2 by simp
qed

lemma remaining_open:
  assumes "infos_ok st" "finite F" "b \<in> F" "b < length (l0_files st)" "\<not> iterator_active (l0_files st ! b)"
    "\<And>g. g \<in> F \<Longrightarrow> g < length (l0_files st)"
  shows "remaining F st = remaining (F - {b}) (open_file b st)"
proof -
  note o = open_file_facts [OF assms(1,4,5)]
  have "(\<Sum>i < length (active_iterators st). mset (nth_rest (open_file b st) i)) =
      (\<Sum>i < length (active_iterators st). mset (nth_rest st i))"
    by (rule sum.cong) (use o(5,6) in \<open>auto simp: nth_append\<close>)
  moreover have "(\<Sum>g \<in> F - {b}. mset (file_table (l0_files (open_file b st) ! g))) = (\<Sum>g \<in> F - {b}. mset (file_table (l0_files st ! g)))"
    by (rule sum.cong) (use o(3) assms(6) in auto)
  ultimately show ?thesis using o(5,7) assms(2,3) by (simp add: remaining_def sum.remove [of F b] lessThan_Suc)
qed

lemma scan_step:
  assumes inv: "scan_inv F st" and V: "scan_Valid st"
  shows "\<exists>F'. scan_inv F' (scan_Next cmp st) \<and>
    remaining F st = add_mset (hd (nth_rest st (current_index st))) (remaining F' (scan_Next cmp st))"
proof -
  let ?st1 = "FindSmallest cmp (step_current it_Next st)"
  note D = scan_invD [OF inv] and R = remaining_step [OF scan_invD(1,2) [OF inv] V]
  have c: "current_index st < length (active_iterators st)" using V by (simp add: scan_Valid_def)
  note f = step_current_facts [OF D(1) c]
  let ?b = "best_next_file cmp (scan_key st) (l0_files ?st1)"
  have cand: "g \<in> F \<longleftrightarrow> \<not> iterator_active (l0_files st ! g) \<and> cmp (smallest_key (l0_files st ! g)) (scan_key st) > 0"
    if g: "g < length (l0_files st)" for g
    using D(3) [of g] inv_future_after [OF inv V] D(4) [OF g _ _ V] file_keys_ok [OF D(1) g] choose_least(5) [OF D(1,2) V]
      cmp_le_less_trans [of "smallest_key (l0_files st ! g)" "largest_key (l0_files st ! g)" "scan_key st"] by fastforce
  consider "scan_Valid ?st1" | "\<not> scan_Valid ?st1" "F = {}" | "\<not> scan_Valid ?st1" "F \<noteq> {}" by blast
  then show ?thesis
  proof cases
    case 1
    then have "scan_inv F ?st1" using inv_advance [OF inv V] by blast
    moreover have "scan_Next cmp st = ?st1" using 1 inv_no_more_files [OF calculation 1] by (simp add: scan_Next_def)
    ultimately show ?thesis using R by auto
  next
    case 2
    have "?b = length (l0_files ?st1)" using best_next_file_spec [OF D(1), of "scan_key st"] cand 2(2) f(2) by auto
    then have "scan_Next cmp st = ?st1" using 2(1) by (simp add: scan_Next_def TryActivateNextFile_def)
    moreover have "scan_inv F ?st1" using inv_advance [OF inv V] 2(2) by blast
    ultimately show ?thesis using R by auto
  next
    case 3
    have b: "?b \<in> F" "\<And>g. g \<in> F \<Longrightarrow> cmp (smallest_key (l0_files st ! ?b)) (smallest_key (l0_files st ! g)) \<le> 0"
      using best_next_file_spec [OF D(1), of "scan_key st"] cand 3(2) f(2) D(3) by auto
    note O = inv_open_next [OF inv V 3(1) b]
    have "finite F" by (rule finite_subset [of _ "{..<length (l0_files st)}"]) (use D(3) in auto)
    then have "remaining F ?st1 = remaining (F - {?b}) (open_file ?b ?st1)"
      by (intro remaining_open f(1)) (use b(1) D(3) f(2) in auto)
    moreover have "scan_Next cmp st = open_file ?b ?st1"
      using 3(1) O inv_no_more_files [of "F - {?b}" "open_file ?b ?st1"] D(3) [OF b(1)] f(2)
      by (simp add: scan_Next_def TryActivateNextFile_def Let_def flip: open_file_def)
    ultimately show ?thesis using R O by auto
  qed
qed

lemma remaining_least:
  assumes "scan_inv F st"
  shows "\<not> scan_Valid st \<Longrightarrow> remaining F st = {#}"
    "scan_Valid st \<Longrightarrow> x \<in># remaining F st \<Longrightarrow> cmp (scan_key st) (fst x) \<le> 0"
proof -
  note D = scan_invD [OF assms]
  show "remaining F st = {#}" if "\<not> scan_Valid st"
  proof -
    have "F = {}" using D(7) that by blast
    then show ?thesis using that choose_least(1) [OF D(1,2)] by (simp add: remaining_def)
  qed
  assume V: "scan_Valid st" and x: "x \<in># remaining F st"
  have "finite F" by (rule finite_subset [of _ "{..<length (l0_files st)}"]) (use D(3) in auto)
  then consider i where "i < length (active_iterators st)" "x \<in> set (nth_rest st i)"
    | g where "g \<in> F" "x \<in> set (file_table (l0_files st ! g))"
    using x by (auto simp: remaining_def set_mset_sum)
  then show "cmp (scan_key st) (fst x) \<le> 0"
  proof cases
    case 1
    then show ?thesis using choose_least(4) [OF D(1,2) V] by blast
  next
    case 2
    note g = D(3) [OF 2(1)]
    have "ok (fst x)" "cmp (smallest_key (l0_files st ! g)) (fst x) \<le> 0"
      using table_okD(3) [OF infos_okD(2) [OF D(1)] 2(2)] g by simp_all
    moreover have "cmp (scan_key st) (smallest_key (l0_files st ! g)) < 0"
      using inv_future_after [OF assms V 2(1)] cmp_swap choose_least(5) [OF D(1,2) V] file_keys_ok(1) [OF D(1)] g by simp
    ultimately show ?thesis
      using cmp_less_le_trans [of "scan_key st" "smallest_key (l0_files st ! g)" "fst x"] choose_least(5) [OF D(1,2) V] file_keys_ok(1) [OF D(1)] g by simp
  qed
qed

lemma scan_collects:
  assumes "scan_inv F st" "size (remaining F st) \<le> n"
  shows "mset (collect cmp n st) = remaining F st \<and> sorted_wrt (\<lambda>a b. cmp (fst a) (fst b) \<le> 0) (collect cmp n st)"
  using assms
proof (induction n arbitrary: F st)
  case (Suc n)
  note D = scan_invD [OF Suc.prems(1)]
  show ?case
  proof (cases "scan_Valid st")
    case False
    then show ?thesis using remaining_least(1) [OF Suc.prems(1)] by (simp add: scan_entry_def)
  next
    case True
    let ?e = "hd (nth_rest st (current_index st))"
    obtain F' where F': "scan_inv F' (scan_Next cmp st)" "remaining F st = add_mset ?e (remaining F' (scan_Next cmp st))"
      using scan_step [OF Suc.prems(1) True] by blast
    have "size (remaining F' (scan_Next cmp st)) \<le> n" using Suc.prems(2) unfolding F'(2) by simp
    note IH = Suc.IH [OF F'(1) this]
    have e: "collect cmp (Suc n) st = ?e # collect cmp n (scan_Next cmp st)" using choose_least(2) [OF D(1,2) True] by simp
    have m: "mset (collect cmp n (scan_Next cmp st)) = remaining F' (scan_Next cmp st)" using IH by simp
    have "cmp (fst ?e) (fst x) \<le> 0" if "x \<in> set (collect cmp n (scan_Next cmp st))" for x
    proof -
      have "x \<in># remaining F st" using that unfolding F'(2) m [symmetric] by simp
      then show ?thesis using remaining_least(2) [OF Suc.prems(1) True] choose_least(3) [OF D(1,2) True] by simp
    qed
    then show ?thesis unfolding e F'(2) using IH by simp
  qed
qed simp

end

section \<open>Positioning\<close>

text \<open>The state after the files that satisfy \<open>Q\<close> have been opened, up to the one at \<open>m\<close>.\<close>

definition opened :: "(L0FileInfo \<Rightarrow> bool) \<Rightarrow> nat \<Rightarrow> L0RangeScanIterator \<Rightarrow> L0RangeScanIterator" where
  "opened Q m st = st\<lparr>active_iterators := map (\<lambda>i. \<lparr>iter_pos = None, file_index = i\<rparr>) (filter (\<lambda>i. Q (l0_files st ! i)) [0..<m]),
     l0_files := map (\<lambda>i. (l0_files st ! i)\<lparr>iterator_active := i < m \<and> Q (l0_files st ! i)\<rparr>) [0..<length (l0_files st)], current_index := 0\<rparr>"

lemma opened_0: "opened Q 0 st = ClearAllIterators st"
proof -
  have "map (\<lambda>i. (l0_files st ! i)\<lparr>iterator_active := False\<rparr>) [0..<length (l0_files st)] = map (\<lambda>f. f\<lparr>iterator_active := False\<rparr>) (l0_files st)"
    by (rule nth_equalityI) simp_all
  then show ?thesis by (simp add: opened_def ClearAllIterators_def)
qed

lemma opened_Suc:
  assumes "\<And>f b. Q (f\<lparr>iterator_active := b\<rparr>) = Q f" "m < length (l0_files st)"
  shows "opened Q (Suc m) st = (if Q (l0_files (opened Q m st) ! m) then ActivateFile m (opened Q m st) else opened Q m st)"
proof -
  let ?fs = "\<lambda>m. map (\<lambda>i. (l0_files st ! i)\<lparr>iterator_active := i < m \<and> Q (l0_files st ! i)\<rparr>) [0..<length (l0_files st)]"
  have "?fs (Suc m) = (if Q (l0_files st ! m) then (?fs m)[m := (l0_files st ! m)\<lparr>iterator_active := True\<rparr>] else ?fs m)"
    by (rule nth_equalityI) (use assms(2) in \<open>auto simp: nth_list_update less_Suc_eq\<close>)
  then show ?thesis using assms by (simp add: opened_def ActivateFile_def del: map_eq_conv)
qed

lemma fold_ActivateFile:
  assumes "\<And>f b. Q (f\<lparr>iterator_active := b\<rparr>) = Q f" "m \<le> length (l0_files st)"
  shows "fold (\<lambda>i st. if Q (l0_files st ! i) then ActivateFile i st else st) [0..<m] (ClearAllIterators st) = opened Q m st"
  using assms(2)
proof (induction m)
  case (Suc m)
  then show ?case using opened_Suc [OF assms(1), of m st] by simp
qed (simp add: opened_0)

lemma l0_files_ClearAllIterators: "length (l0_files (ClearAllIterators st)) = length (l0_files st)"
  by (simp add: ClearAllIterators_def)

lemma AddOverlappingFiles_opened:
  "AddOverlappingFiles cmp t (ClearAllIterators st) = opened (key_in_file cmp t) (length (l0_files st)) st"
  unfolding AddOverlappingFiles_def l0_files_ClearAllIterators
  by (rule fold_ActivateFile) (simp_all add: key_in_file_def)

lemma activate_all_opened: "activate_all (ClearAllIterators st) = opened (\<lambda>_. True) (length (l0_files st)) st"
  using fold_ActivateFile [of "\<lambda>_. True" "length (l0_files st)" st]
  by (simp add: activate_all_def l0_files_ClearAllIterators)

text \<open>The state after positioning the opened files.\<close>

abbreviation positioned :: "(L0FileInfo \<Rightarrow> bool) \<Rightarrow> (table \<Rightarrow> nat option) \<Rightarrow> L0RangeScanIterator \<Rightarrow> L0RangeScanIterator" where
  "positioned Q pos st \<equiv> position_all pos (opened Q (length (l0_files st)) st)"

lemma positioned_files:
  "length (l0_files (positioned Q pos st)) = length (l0_files st)"
  "g < length (l0_files st) \<Longrightarrow> info_of (l0_files (positioned Q pos st) ! g) = info_of (l0_files st ! g)"
  "g < length (l0_files st) \<Longrightarrow> iterator_active (l0_files (positioned Q pos st) ! g) = Q (l0_files st ! g)"
  by (simp_all add: position_all_def opened_def)

lemma positioned_active:
  "active_iterators (positioned Q pos st) =
     map (\<lambda>i. \<lparr>iter_pos = pos (file_table (l0_files st ! i)), file_index = i\<rparr>)
       (filter (\<lambda>i. Q (l0_files st ! i)) [0..<length (l0_files st)])"
  by (auto simp: position_all_def opened_def)

lemma positioned_rest:
  assumes "i < length (l0_files st)"
  shows "rest_of (positioned Q pos st) \<lparr>iter_pos = pos (file_table (l0_files st ! i)), file_index = i\<rparr> =
    (case pos (file_table (l0_files st ! i)) of None \<Rightarrow> [] | Some p \<Rightarrow> drop p (file_table (l0_files st ! i)))"
  using positioned_files(2) [OF assms, where Q = Q and pos = pos]
  by (simp add: rest_of_def cong: option.case_cong)

lemma it_Seek_first:
  assumes "it_Seek cmp t tbl = Some p"
  shows "p < length tbl" "takeWhile (\<lambda>e. cmp (fst e) t < 0) tbl = take p tbl"
proof -
  have p: "p < length tbl" "cmp (fst (tbl ! p)) t \<ge> 0" "\<forall>j < p. cmp (fst (tbl ! j)) t < 0"
    using first_index_SomeD [OF assms [unfolded it_Seek_def]] by (simp_all add: not_le)
  show "p < length tbl" by (rule p(1))
  show "takeWhile (\<lambda>e. cmp (fst e) t < 0) tbl = take p tbl"
    by (rule takeWhile_eq_take_P_nth) (use p in auto)
qed

lemma it_Seek_rest:
  "(case it_Seek cmp t tbl of None \<Rightarrow> [] | Some p \<Rightarrow> drop p tbl) = dropWhile (\<lambda>e. cmp (fst e) t < 0) tbl"
proof (cases "it_Seek cmp t tbl")
  case None
  then have "\<forall>e \<in> set tbl. cmp (fst e) t < 0" using first_index_NoneD [OF None [unfolded it_Seek_def]] by (simp add: not_le)
  then have "dropWhile (\<lambda>e. cmp (fst e) t < 0) tbl = []" by (simp add: dropWhile_eq_Nil_conv)
  then show ?thesis by (simp only: None option.case)
next
  case (Some p)
  then show ?thesis using it_Seek_first [OF Some] by (simp add: dropWhile_eq_drop)
qed

section \<open>Scans\<close>

abbreviation files_ok :: "(key \<Rightarrow> key \<Rightarrow> int) \<Rightarrow> (key \<Rightarrow> bool) \<Rightarrow> L0RangeScanIterator \<Rightarrow> bool" where
  "files_ok cmp ok st \<equiv> \<forall>f \<in> set (l0_files st). table_ok cmp ok (info_of f)"

abbreviation all_entries :: "L0RangeScanIterator \<Rightarrow> table" where
  "all_entries st \<equiv> concat (map file_table (l0_files st))"

definition disjoint_files :: "(key \<Rightarrow> key \<Rightarrow> int) \<Rightarrow> L0FileInfo list \<Rightarrow> bool" where
  "disjoint_files cmp fs \<longleftrightarrow> (\<forall>i < length fs. \<forall>j < length fs. i \<noteq> j \<longrightarrow>
     cmp (largest_key (fs ! i)) (smallest_key (fs ! j)) < 0 \<or> cmp (largest_key (fs ! j)) (smallest_key (fs ! i)) < 0)"

lemma positioned_iters_ok:
  assumes "\<And>tbl p. pos tbl = Some p \<Longrightarrow> p < length tbl"
  shows "iters_ok (positioned Q pos st)"
  using assms positioned_files by (auto simp: iters_ok_def positioned_active)

lemma sum_mset_nth: "(\<Sum>i < length xs. mset (f (xs ! i))) = (\<Sum>x \<leftarrow> xs. mset (f x))"
  by (simp add: sum_list_sum_nth atLeast0LessThan)

lemma sum_list_concat: "(\<Sum>x \<leftarrow> xs. mset (f x)) = mset (concat (map f xs))"
  by (induction xs) auto

lemma sum_list_filter_split:
  "(\<Sum>i \<leftarrow> filter P xs. mset (f i)) = (\<Sum>i \<leftarrow> xs. if P i then mset (f i) else {#})"
  by (induction xs) auto

text \<open>What remains to be returned after a positioning, file by file.\<close>

lemma remaining_positioned:
  assumes "F \<subseteq> {..<length (l0_files st)}" "\<And>g. g \<in> F \<Longrightarrow> \<not> Q (l0_files st ! g)"
  shows "remaining F (FindSmallest cmp (positioned Q pos st)) =
    (\<Sum>g < length (l0_files st).
       if Q (l0_files st ! g) then mset (case pos (file_table (l0_files st ! g)) of None \<Rightarrow> [] | Some p \<Rightarrow> drop p (file_table (l0_files st ! g)))
       else if g \<in> F then mset (file_table (l0_files st ! g)) else {#})"
proof -
  let ?n = "length (l0_files st)" and ?st = "positioned Q pos st"
  let ?r = "\<lambda>g. case pos (file_table (l0_files st ! g)) of None \<Rightarrow> [] | Some p \<Rightarrow> drop p (file_table (l0_files st ! g))"
  have fin: "finite F" using assms(1) finite_subset by blast
  have "(\<Sum>i < length (active_iterators ?st). mset (nth_rest ?st i)) = (\<Sum>a \<leftarrow> active_iterators ?st. mset (rest_of ?st a))"
    by (rule sum_mset_nth)
  also have "\<dots> = (\<Sum>g \<leftarrow> filter (\<lambda>i. Q (l0_files st ! i)) [0..<?n]. mset (?r g))"
    unfolding positioned_active map_map o_def by (rule arg_cong [of _ _ sum_list], rule map_cong) (auto simp: positioned_rest)
  also have "\<dots> = (\<Sum>g < ?n. if Q (l0_files st ! g) then mset (?r g) else {#})"
    by (simp add: sum_list_filter_split sum_list_distinct_conv_sum_set atLeast0LessThan cong: if_cong)
  finally have a: "(\<Sum>i < length (active_iterators ?st). mset (nth_rest ?st i)) = (\<Sum>g < ?n. if Q (l0_files st ! g) then mset (?r g) else {#})" .
  have "(\<Sum>g \<in> F. mset (file_table (l0_files ?st ! g))) = (\<Sum>g \<in> F. mset (file_table (l0_files st ! g)))"
    by (rule sum.cong) (use assms(1) positioned_files(2) in auto)
  also have "\<dots> = (\<Sum>g < ?n. if g \<in> F then mset (file_table (l0_files st ! g)) else {#})"
    by (rule sum.mono_neutral_cong_left) (use assms(1) in auto)
  finally have b: "(\<Sum>g \<in> F. mset (file_table (l0_files ?st ! g))) = (\<Sum>g < ?n. if g \<in> F then mset (file_table (l0_files st ! g)) else {#})" .
  show ?thesis unfolding remaining_def FindSmallest_simps a b sum.distrib [symmetric]
    by (rule sum.cong) (use assms(2) in auto)
qed

lemma sum_files: "(\<Sum>g < length xs. mset (f (xs ! g))) = mset (concat (map f xs))"
  by (simp only: sum_mset_nth sum_list_concat)

context comparator
begin

lemma infos_ok_positioned:
  assumes "files_ok cmp ok st" "\<And>tbl p. pos tbl = Some p \<Longrightarrow> p < length tbl"
  shows "infos_ok (FindSmallest cmp (positioned Q pos st))"
proof -
  have "\<forall>f \<in> set (l0_files (positioned Q pos st)). table_ok cmp ok (info_of f)"
  proof
    fix f assume "f \<in> set (l0_files (positioned Q pos st))"
    then obtain g where "g < length (l0_files st)" "f = l0_files (positioned Q pos st) ! g"
      using positioned_files(1) [where Q = Q and pos = pos and st = st] by (auto simp: in_set_conv_nth)
    then show "table_ok cmp ok (info_of f)" using positioned_files(2) [where Q = Q and pos = pos and st = st and g = g] assms(1) by simp
  qed
  then show ?thesis using positioned_iters_ok [OF assms(2)] by (simp add: infos_ok_def)
qed

lemma SeekToFirst_inv:
  assumes "files_ok cmp ok st"
  shows "scan_inv {} (scan_SeekToFirst cmp st)" "remaining {} (scan_SeekToFirst cmp st) = mset (all_entries st)"
proof -
  have pos: "it_SeekToFirst tbl = Some p \<Longrightarrow> p < length tbl" for tbl p by (auto simp: it_SeekToFirst_def split: if_splits)
  have st: "scan_SeekToFirst cmp st = FindSmallest cmp (positioned (\<lambda>_. True) it_SeekToFirst st)"
    by (simp add: scan_SeekToFirst_def activate_all_opened)
  show "scan_inv {} (scan_SeekToFirst cmp st)" unfolding st scan_inv_def
    using infos_ok_positioned [OF assms pos] choose_index_FindSmallest positioned_files by auto
  have r: "(case it_SeekToFirst tbl of None \<Rightarrow> [] | Some p \<Rightarrow> drop p tbl) = tbl" for tbl
    by (simp add: it_SeekToFirst_def)
  show "remaining {} (scan_SeekToFirst cmp st) = mset (all_entries st)" unfolding st
    by (subst remaining_positioned) (simp_all only: r sum_files if_True empty_subsetI empty_iff simp_thms)
qed

lemma Seek_unfold: "scan_Seek cmp t st = FindSmallest cmp (positioned (key_in_file cmp t) (it_Seek cmp t) st)"
  by (simp add: scan_Seek_def AddOverlappingFiles_opened)

lemma Seek_rest:
  assumes "table_ok cmp ok (tbl, lo, hi)" "ok t"
  shows "dropWhile (\<lambda>e. cmp (fst e) t < 0) tbl = filter (\<lambda>e. cmp (fst e) t \<ge> 0) tbl"
proof -
  have s: "sorted_wrt (\<lambda>a b. cmp (fst a) (fst b) \<le> 0) tbl" "\<forall>e \<in> set tbl. ok (fst e)"
    using assms(1) by (simp_all add: table_ok_def list_all_iff)
  then show ?thesis
  proof (induction tbl)
    case (Cons e es)
    have "cmp (fst x) t \<ge> 0" if "cmp (fst e) t \<ge> 0" "x \<in> set es" for x
      using that Cons.prems assms(2) cmp_trans [of t "fst e" "fst x"] cmp_le_swap [of t "fst e"] cmp_le_swap [of t "fst x"] by simp
    then have "cmp (fst e) t \<ge> 0 \<Longrightarrow> filter (\<lambda>e. cmp (fst e) t \<ge> 0) es = es" by (intro filter_True) simp
    then show ?case using Cons by (cases "cmp (fst e) t \<ge> 0") simp_all
  qed simp
qed

lemma Seek_file_split:
  assumes "table_ok cmp ok (info_of f)" "ok t" "\<not> key_in_file cmp t f"
  shows "cmp (smallest_key f) t > 0 \<Longrightarrow> filter (\<lambda>e. cmp (fst e) t \<ge> 0) (file_table f) = file_table f"
    "\<not> cmp (smallest_key f) t > 0 \<Longrightarrow> filter (\<lambda>e. cmp (fst e) t \<ge> 0) (file_table f) = []"
proof -
  note k = table_okD [OF assms(1)]
  show "filter (\<lambda>e. cmp (fst e) t \<ge> 0) (file_table f) = file_table f" if "cmp (smallest_key f) t > 0"
  proof (rule filter_True, rule ballI)
    fix e assume e: "e \<in> set (file_table f)"
    then show "cmp (fst e) t \<ge> 0"
      using cmp_less_le_trans [of t "smallest_key f" "fst e"] cmp_swap [of t "smallest_key f"] cmp_swap [of t "fst e"] that k(1) k(3) [OF e] assms(2) by simp
  qed
  assume "\<not> cmp (smallest_key f) t > 0"
  then have hi: "cmp (largest_key f) t < 0" using assms(3) by (simp add: key_in_file_def)
  have "cmp (fst e) t < 0" if e: "e \<in> set (file_table f)" for e
    using cmp_le_less_trans [of "fst e" "largest_key f" t] hi k(2) k(3) [OF e] assms(2) by simp
  then show "filter (\<lambda>e. cmp (fst e) t \<ge> 0) (file_table f) = []" by (simp add: filter_empty_conv not_le)
qed

abbreviation later_files :: "key \<Rightarrow> L0RangeScanIterator \<Rightarrow> nat set" where
  "later_files t st \<equiv> {g. g < length (l0_files st) \<and> \<not> key_in_file cmp t (l0_files st ! g) \<and> cmp (smallest_key (l0_files st ! g)) t > 0}"

lemma Seek_remaining:
  assumes "files_ok cmp ok st" "ok t"
  shows "remaining (later_files t st) (scan_Seek cmp t st) = mset (filter (\<lambda>e. cmp (fst e) t \<ge> 0) (all_entries st))"
proof -
  have "remaining (later_files t st) (scan_Seek cmp t st) =
      (\<Sum>g < length (l0_files st). mset (filter (\<lambda>e. cmp (fst e) t \<ge> 0) (file_table (l0_files st ! g))))"
    unfolding Seek_unfold
  proof (subst remaining_positioned, goal_cases)
    case 3
    show ?case
    proof (rule sum.cong)
      fix g assume "g \<in> {..<length (l0_files st)}"
      then have g: "g < length (l0_files st)" "table_ok cmp ok (info_of (l0_files st ! g))" using assms(1) by auto
      show "(if key_in_file cmp t (l0_files st ! g)
          then mset (case it_Seek cmp t (file_table (l0_files st ! g)) of None \<Rightarrow> [] | Some p \<Rightarrow> drop p (file_table (l0_files st ! g)))
          else if g \<in> later_files t st then mset (file_table (l0_files st ! g)) else {#}) =
        mset (filter (\<lambda>e. cmp (fst e) t \<ge> 0) (file_table (l0_files st ! g)))"
        using g(1) Seek_file_split [OF g(2) assms(2)] Seek_rest [OF g(2) assms(2)]
        by (simp add: it_Seek_rest del: mset_filter)
    qed simp
  qed auto
  also have "\<dots> = mset (concat (map (\<lambda>f. filter (\<lambda>e. cmp (fst e) t \<ge> 0) (file_table f)) (l0_files st)))"
    by (rule sum_files)
  finally show ?thesis by (simp add: filter_concat o_def del: mset_filter)
qed

lemma Seek_active:
  assumes "i < length (active_iterators (scan_Seek cmp t st))"
  shows "file_index (active_iterators (scan_Seek cmp t st) ! i) < length (l0_files st)"
    "key_in_file cmp t (l0_files st ! file_index (active_iterators (scan_Seek cmp t st) ! i))"
    "nth_rest (scan_Seek cmp t st) i =
       dropWhile (\<lambda>e. cmp (fst e) t < 0) (file_table (l0_files st ! file_index (active_iterators (scan_Seek cmp t st) ! i)))"
proof -
  let ?js = "filter (\<lambda>i. key_in_file cmp t (l0_files st ! i)) [0..<length (l0_files st)]"
  have i: "i < length ?js" using assms by (simp add: Seek_unfold positioned_active)
  have a: "active_iterators (scan_Seek cmp t st) ! i =
      \<lparr>iter_pos = it_Seek cmp t (file_table (l0_files st ! (?js ! i))), file_index = ?js ! i\<rparr>"
    using i by (simp add: Seek_unfold positioned_active)
  have j: "?js ! i < length (l0_files st)" "key_in_file cmp t (l0_files st ! (?js ! i))" using nth_mem [OF i] by simp_all
  then show "file_index (active_iterators (scan_Seek cmp t st) ! i) < length (l0_files st)"
    "key_in_file cmp t (l0_files st ! file_index (active_iterators (scan_Seek cmp t st) ! i))" by (simp_all add: a)
  show "nth_rest (scan_Seek cmp t st) i =
      dropWhile (\<lambda>e. cmp (fst e) t < 0) (file_table (l0_files st ! file_index (active_iterators (scan_Seek cmp t st) ! i)))"
    unfolding a using positioned_rest [OF j(1), where Q = "key_in_file cmp t" and pos = "it_Seek cmp t"] by (simp add: Seek_unfold it_Seek_rest)
qed

lemma Seek_infos:
  assumes "files_ok cmp ok st"
  shows "infos_ok (scan_Seek cmp t st)" "current_index (scan_Seek cmp t st) = choose_index (\<lambda>a b. cmp a b < 0) (scan_Seek cmp t st)"
    "length (l0_files (scan_Seek cmp t st)) = length (l0_files st)"
    "g < length (l0_files st) \<Longrightarrow> info_of (l0_files (scan_Seek cmp t st) ! g) = info_of (l0_files st ! g)"
    "g < length (l0_files st) \<Longrightarrow> iterator_active (l0_files (scan_Seek cmp t st) ! g) = key_in_file cmp t (l0_files st ! g)"
  unfolding Seek_unfold
  using infos_ok_positioned [OF assms, of "it_Seek cmp t"] it_Seek_first(1) choose_index_FindSmallest positioned_files by auto

lemma Seek_Valid:
  assumes "files_ok cmp ok st" "ok t" "f \<in> set (l0_files st)" "key_in_file cmp t f"
  shows "scan_Valid (scan_Seek cmp t st)"
proof -
  let ?st1 = "scan_Seek cmp t st"
  obtain g where g: "g < length (l0_files st)" "f = l0_files st ! g" using assms(3) by (auto simp: in_set_conv_nth)
  have "g \<in> set (map file_index (active_iterators ?st1))" using g assms(4) by (auto simp: Seek_unfold positioned_active image_iff)
  then obtain i where i: "i < length (active_iterators ?st1)" "file_index (active_iterators ?st1 ! i) = g"
    by (auto simp: in_set_conv_nth)
  have t: "table_ok cmp ok (info_of f)" using assms(1,3) by blast
  then have "file_table f \<noteq> []" "largest_key f = fst (last (file_table f))" by (simp_all add: table_ok_def)
  then have "last (file_table f) \<in> set (filter (\<lambda>e. cmp (fst e) t \<ge> 0) (file_table f))" using assms(4) by (simp add: key_in_file_def)
  then have "filter (\<lambda>e. cmp (fst e) t \<ge> 0) (file_table f) \<noteq> []" by (metis list.distinct(1) list.set_cases)
  moreover have "nth_rest ?st1 i = filter (\<lambda>e. cmp (fst e) t \<ge> 0) (file_table f)"
    using Seek_active(3) [OF i(1)] i(2) g(2) Seek_rest [OF t assms(2)] by simp
  ultimately have "nth_rest ?st1 i \<noteq> []" by simp
  then show ?thesis using choose_least(1) [OF Seek_infos(1,2) [OF assms(1)]] i(1) by blast
qed

lemma Seek_key:
  assumes "files_ok cmp ok st" "ok t" "scan_Valid (scan_Seek cmp t st)"
  shows "cmp t (scan_key (scan_Seek cmp t st)) \<le> 0"
proof -
  let ?st1 = "scan_Seek cmp t st" and ?c = "current_index (scan_Seek cmp t st)"
  note I = Seek_infos(1,2) [OF assms(1), where t = t]
  have c: "?c < length (active_iterators ?st1)" "iter_Valid ?st1 ?c" using assms(3) by (simp_all add: scan_Valid_def)
  have ne: "nth_rest ?st1 ?c \<noteq> []" using rest_of_Valid [OF infos_okD(1) [OF I(1)] c(1)] c(2) by simp
  have "\<not> cmp (scan_key ?st1) t < 0"
    using hd_dropWhile [OF ne [unfolded Seek_active(3) [OF c(1)]]]
    unfolding choose_least(3) [OF I assms(3)] Seek_active(3) [OF c(1)] .
  then show ?thesis using cmp_swap [of "scan_key ?st1" t] cmp_le_swap [of t "scan_key ?st1"] choose_least(5) [OF I assms(3)] assms(2) by linarith
qed

lemma Seek_inv:
  assumes ok: "files_ok cmp ok st" and t: "ok t" and dis: "disjoint_files cmp (l0_files st)"
    and ex: "\<exists>f \<in> set (l0_files st). key_in_file cmp t f"
  shows "scan_inv (later_files t st) (scan_Seek cmp t st)"
proof -
  let ?st1 = "scan_Seek cmp t st" and ?f = "\<lambda>g. l0_files st ! g"
  note I = Seek_infos [OF ok, where t = t]
  have V: "scan_Valid ?st1" using ex Seek_Valid [OF ok t] by blast
  have k: "ok (smallest_key (?f g))" "ok (largest_key (?f g))" "cmp (smallest_key (?f g)) (largest_key (?f g)) \<le> 0" if "g < length (l0_files st)" for g
    using file_keys_ok [OF I(1), of g] I(3) I(4) [OF that] that by simp_all
  have past: "cmp (largest_key (?f g)) (scan_key ?st1) < 0"
    if "g < length (l0_files st)" "\<not> key_in_file cmp t (?f g)" "g \<notin> later_files t st" for g
    using that k(2) [OF that(1)] t Seek_key [OF ok t V] choose_least(5) [OF I(1,2) V]
      cmp_less_le_trans [of "largest_key (?f g)" t "scan_key ?st1"] by (auto simp: key_in_file_def)
  have sep: "cmp (largest_key (?f a)) (smallest_key (?f g)) < 0"
    if g: "g \<in> later_files t st" and a: "a < length (l0_files st)" "key_in_file cmp t (?f a)" for a g
  proof (rule ccontr)
    assume n: "\<not> ?thesis"
    have "a \<noteq> g" using g a by auto
    then have "cmp (largest_key (?f g)) (smallest_key (?f a)) < 0" using dis g a n by (auto simp: disjoint_files_def)
    then have "cmp (smallest_key (?f g)) (smallest_key (?f a)) < 0"
      using cmp_le_less_trans [of "smallest_key (?f g)" "largest_key (?f g)" "smallest_key (?f a)"] k [of g] k [OF a(1)] g by simp
    then have "cmp (smallest_key (?f g)) t < 0"
      using cmp_less_le_trans [of "smallest_key (?f g)" "smallest_key (?f a)" t] k [of g] k [OF a(1)] g a(2) t by (simp add: key_in_file_def)
    then show False using g by simp
  qed
  show ?thesis unfolding scan_inv_def
  proof (intro conjI ballI allI impI)
    fix g assume g: "g \<in> later_files t st"
    then show "g < length (l0_files ?st1)" "\<not> iterator_active (l0_files ?st1 ! g)" using I(3) I(5) [of g] by auto
    fix i assume i: "i < length (active_iterators ?st1)" "nth_rest ?st1 i \<noteq> []"
    show "cmp (largest_key (l0_files ?st1 ! file_index (active_iterators ?st1 ! i))) (smallest_key (l0_files ?st1 ! g)) < 0"
      using sep [OF g Seek_active(1,2) [OF i(1)]] I(4) [OF Seek_active(1) [OF i(1)]] I(4) [of g] g by simp
  next
    fix g assume "g < length (l0_files ?st1)" "\<not> iterator_active (l0_files ?st1 ! g) \<and> g \<notin> later_files t st \<and> scan_Valid ?st1"
    then show "cmp (largest_key (l0_files ?st1 ! g)) (scan_key ?st1) < 0" using past [of g] I(3) I(4) [of g] I(5) [of g] by auto
  next
    fix g h assume "g \<in> later_files t st" "h \<in> later_files t st" "g \<noteq> h"
    then show "cmp (largest_key (l0_files ?st1 ! g)) (smallest_key (l0_files ?st1 ! h)) < 0 \<or>
        cmp (largest_key (l0_files ?st1 ! h)) (smallest_key (l0_files ?st1 ! g)) < 0"
      using dis I(4) [of g] I(4) [of h] by (simp add: disjoint_files_def)
  qed (use I(1,2) V in auto)
qed

end

section \<open>What a scan returns\<close>

text \<open>C12. A scan of level 0 that starts with \<open>SeekToFirst\<close> and calls \<open>Next\<close> while the iterator is valid
  returns every entry of every file, once per file that holds it, in the order of the internal key
  comparator, and ends after at most as many steps as there are entries; the files may overlap.\<close>

theorem l0_scan_complete:
  assumes "comparator cmp ok" "files_ok cmp ok st" "length (all_entries st) \<le> n"
  shows "mset (collect cmp n (scan_SeekToFirst cmp st)) = mset (all_entries st) \<and>
    sorted_wrt (\<lambda>a b. cmp (fst a) (fst b) \<le> 0) (collect cmp n (scan_SeekToFirst cmp st))"
proof -
  note inv = comparator.SeekToFirst_inv [OF assms(1,2)]
  have "size (mset (all_entries st)) \<le> n" using assms(3) by (simp only: size_mset)
  then show ?thesis using comparator.scan_collects [OF assms(1) inv(1), of n] unfolding inv(2) by blast
qed

text \<open>C13. When the files of level 0 are pairwise disjoint and the target lies in the range of one of them, a
  scan that starts with \<open>Seek\<close> returns exactly the entries at or after the target, in order: the files
  behind the one that was opened first are opened when the scan reaches them.\<close>

theorem l0_seek_disjoint:
  assumes "comparator cmp ok" "files_ok cmp ok st" "ok t" "disjoint_files cmp (l0_files st)"
    "\<exists>f \<in> set (l0_files st). key_in_file cmp t f" "length (all_entries st) \<le> n"
  shows "mset (collect cmp n (scan_Seek cmp t st)) = mset (filter (\<lambda>e. cmp (fst e) t \<ge> 0) (all_entries st)) \<and>
    sorted_wrt (\<lambda>a b. cmp (fst a) (fst b) \<le> 0) (collect cmp n (scan_Seek cmp t st))"
proof -
  note inv = comparator.Seek_inv [OF assms(1-5)] and r = comparator.Seek_remaining [OF assms(1-3)]
  have "size (mset (filter (\<lambda>e. cmp (fst e) t \<ge> 0) (all_entries st))) \<le> n"
    unfolding size_mset using assms(6) length_filter_le order_trans by blast
  then show ?thesis using comparator.scan_collects [OF assms(1) inv, of n] unfolding r by blast
qed

text \<open>C26. A \<open>Seek\<close> whose target lies in no file's range returns nothing, whatever the files hold behind the
  target: only a file whose range contains the target is opened, and the next file is looked for by
  \<open>Next\<close> alone.\<close>

theorem l0_seek_gap:
  assumes "\<forall>f \<in> set (l0_files st). \<not> key_in_file cmp t f"
  shows "\<not> scan_Valid (scan_Seek cmp t st) \<and> collect cmp n (scan_Seek cmp t st) = []"
proof -
  have "active_iterators (scan_Seek cmp t st) = []"
    using assms by (simp add: scan_Seek_def AddOverlappingFiles_opened positioned_active)
  then have "\<not> scan_Valid (scan_Seek cmp t st)" by (simp add: scan_Valid_def)
  then show ?thesis by (cases n) (simp_all add: scan_entry_def)
qed

text \<open>Three files with the user keys \<open>1, 10\<close>, \<open>5, 6\<close> and \<open>20, 21\<close>: a scan from 2 returns 10, 20 and 21 and
  passes over the second file, one from 15 returns nothing, and a backward scan from 21 ends at 20.\<close>

definition scan_ikey :: "byte \<Rightarrow> key" where
  "scan_ikey u = [u, 1, 5, 0, 0, 0, 0, 0, 0]"

definition scan_file :: "byte \<Rightarrow> byte \<Rightarrow> table \<times> key \<times> key" where
  "scan_file a b = ([(scan_ikey a, [1]), (scan_ikey b, [2])], scan_ikey a, scan_ikey b)"

abbreviation overlapping_scan :: L0RangeScanIterator where
  "overlapping_scan \<equiv> L0RangeScanIterator_new [scan_file 1 10, scan_file 5 6, scan_file 20 21]"

abbreviation disjoint_scan :: L0RangeScanIterator where
  "disjoint_scan \<equiv> L0RangeScanIterator_new [scan_file 20 21, scan_file 1 10]"

lemma seek_jumps_over_file:
  "map (hd \<circ> fst) (collect (ikc_Compare bytewise_Compare) 6 (scan_Seek (ikc_Compare bytewise_Compare) (scan_ikey 2) overlapping_scan)) = [10, 20, 21]"
  by code_simp

lemma prev_opens_no_file:
  "let st = scan_Prev (ikc_Compare bytewise_Compare) (scan_SeekForPrev (ikc_Compare bytewise_Compare) (scan_ikey 21) overlapping_scan)
   in hd (scan_key st) = 20 \<and> \<not> scan_Valid (scan_Prev (ikc_Compare bytewise_Compare) st)"
  by code_simp

lemma sample_scans_ok:
  "files_ok (ikc_Compare bytewise_Compare) (\<lambda>k. kNumInternalBytes \<le> length k) overlapping_scan"
  "files_ok (ikc_Compare bytewise_Compare) (\<lambda>k. kNumInternalBytes \<le> length k) disjoint_scan"
  by code_simp+

lemma disjoint_scan_seek:
  "kNumInternalBytes \<le> length (scan_ikey 2)" "disjoint_files (ikc_Compare bytewise_Compare) (l0_files disjoint_scan)"
  "\<exists>f \<in> set (l0_files disjoint_scan). key_in_file (ikc_Compare bytewise_Compare) (scan_ikey 2) f"
  "length (all_entries disjoint_scan) \<le> 4"
  by code_simp+

lemma overlapping_scan_gap:
  "\<forall>f \<in> set (l0_files overlapping_scan). \<not> key_in_file (ikc_Compare bytewise_Compare) (scan_ikey 15) f"
  "\<exists>e \<in> set (all_entries overlapping_scan). ikc_Compare bytewise_Compare (fst e) (scan_ikey 15) > 0"
  "length (all_entries overlapping_scan) \<le> 6"
  by code_simp+

theorem l0_scan_complete_witness:
  "mset (collect (ikc_Compare bytewise_Compare) 6 (scan_SeekToFirst (ikc_Compare bytewise_Compare) overlapping_scan)) = mset (all_entries overlapping_scan)"
  using l0_scan_complete [OF ikc.comparator_axioms sample_scans_ok(1) overlapping_scan_gap(3)] by (rule conjunct1)

theorem l0_seek_disjoint_witness:
  "mset (collect (ikc_Compare bytewise_Compare) 4 (scan_Seek (ikc_Compare bytewise_Compare) (scan_ikey 2) disjoint_scan)) =
   mset (filter (\<lambda>e. ikc_Compare bytewise_Compare (fst e) (scan_ikey 2) \<ge> 0) (all_entries disjoint_scan))"
  using l0_seek_disjoint [OF ikc.comparator_axioms sample_scans_ok(2) disjoint_scan_seek] by (rule conjunct1)

theorem l0_seek_gap_witness:
  "collect (ikc_Compare bytewise_Compare) 6 (scan_Seek (ikc_Compare bytewise_Compare) (scan_ikey 15) overlapping_scan) = [] \<and>
   (\<exists>e \<in> set (all_entries overlapping_scan). ikc_Compare bytewise_Compare (fst e) (scan_ikey 15) > 0)"
  using l0_seek_gap [OF overlapping_scan_gap(1), of 6] overlapping_scan_gap(2) by blast

end
