(* ===== verification/Compaction_Inputs.thy ===== *)
theory Compaction_Inputs
  imports L0_Groups
begin

text \<open>
  Which files of a level take part in a compaction: \<open>GetOverlappingInputs\<close> and its relatives of
  \<open>db/version_set.cc\<close>, and the operations of \<open>db/compaction/compaction_picker.cc\<close> that expand the
  inputs to a clean cut, look for conflicts with running compactions and add the files of the output
  level.

  User keys carry no timestamp, so that \<open>CompareWithoutTimestamp\<close> is the user comparator \<open>ucmp\<close>;
  \<open>icmp\<close> is the internal comparator. A pointer that may be null is an option. \<open>std::lower_bound\<close> and
  \<open>std::upper_bound\<close> return the partition point of a partitioned range.
\<close>

section \<open>Keys of tables\<close>

definition kRangeTombstoneSentinel :: u64 where
  "kRangeTombstoneSentinel = PackSequenceAndType kMaxSequenceNumber kTypeRangeDeletion"

definition sstableKeyCompare :: "(key \<Rightarrow> key \<Rightarrow> int) \<Rightarrow> key \<Rightarrow> key \<Rightarrow> int" where
  "sstableKeyCompare uc a b =
     (let c = uc (ExtractUserKey a) (ExtractUserKey b)
      in if c \<noteq> 0 then c
         else
           let a_footer = ExtractInternalKeyFooter a; b_footer = ExtractInternalKeyFooter b
           in if a_footer = kRangeTombstoneSentinel
              then if b_footer \<noteq> kRangeTombstoneSentinel then - 1 else 0
              else if b_footer = kRangeTombstoneSentinel then 1
              else 0)"

section \<open>Files that overlap a range\<close>

record VersionStorageInfo =
  level_files :: "nat \<Rightarrow> FileMetaData list"
  num_non_empty_levels :: nat
  base_level :: int

definition partition_point :: "('a \<Rightarrow> bool) \<Rightarrow> 'a list \<Rightarrow> nat" where
  "partition_point P xs = length (takeWhile P xs)"

text \<open>The two loops that move the ends of an interval inwards to a clean cut.\<close>

function skip_shared_start :: "(key \<Rightarrow> key \<Rightarrow> int) \<Rightarrow> FileMetaData list \<Rightarrow> nat \<Rightarrow> nat" where
  "skip_shared_start ucmp files start_index =
     (if start_index < length files \<and>
         sstableKeyCompare ucmp (largest (files ! (start_index - 1))) (smallest (files ! start_index)) = 0
      then skip_shared_start ucmp files (start_index + 1) else start_index)"
  by auto

termination
  by (relation "measure (\<lambda>(ucmp, files, start_index). length files - start_index)") auto

function skip_shared_end :: "(key \<Rightarrow> key \<Rightarrow> int) \<Rightarrow> FileMetaData list \<Rightarrow> nat \<Rightarrow> nat \<Rightarrow> nat" where
  "skip_shared_end ucmp files start_index end_index =
     (if end_index > start_index \<and>
         sstableKeyCompare ucmp (largest (files ! (end_index - 1))) (smallest (files ! end_index)) = 0
      then skip_shared_end ucmp files start_index (end_index - 1) else end_index)"
  by auto

termination
  by (relation "measure (\<lambda>(ucmp, files, start_index, end_index). end_index)") auto

definition search_start ::
  "(key \<Rightarrow> key \<Rightarrow> int) \<Rightarrow> FileMetaData list \<Rightarrow> key option \<Rightarrow> nat option \<Rightarrow> bool \<Rightarrow> nat" where
  "search_start ucmp files begin_key hint_index within_interval =
     (case begin_key of
        None \<Rightarrow> 0
      | Some k \<Rightarrow>
          let range_files = (case hint_index of None \<Rightarrow> files | Some h \<Rightarrow> take h files);
              start_index = partition_point
                (\<lambda>f. sstableKeyCompare ucmp (if within_interval then smallest f else largest f) k < 0) range_files
          in if start_index > 0 \<and> within_interval then skip_shared_start ucmp files start_index else start_index)"

definition search_end ::
  "(key \<Rightarrow> key \<Rightarrow> int) \<Rightarrow> FileMetaData list \<Rightarrow> key option \<Rightarrow> nat \<Rightarrow> bool \<Rightarrow> nat" where
  "search_end ucmp files end_key start_index within_interval =
     (case end_key of
        None \<Rightarrow> length files
      | Some k \<Rightarrow>
          let end_index = start_index + partition_point
                (\<lambda>f. \<not> sstableKeyCompare ucmp k (if within_interval then largest f else smallest f) < 0)
                (drop start_index files)
          in if end_index < length files \<and> within_interval
             then skip_shared_end ucmp files start_index end_index else end_index)"

text \<open>The result of a search: the files, the index of the first one and the next smallest key.\<close>

type_synonym overlap_result = "FileMetaData list \<times> nat option \<times> key option"

definition GetOverlappingInputsRangeBinarySearch ::
  "(key \<Rightarrow> key \<Rightarrow> int) \<Rightarrow> FileMetaData list \<Rightarrow> key option \<Rightarrow> key option \<Rightarrow> nat option \<Rightarrow> bool \<Rightarrow> overlap_result" where
  "GetOverlappingInputsRangeBinarySearch ucmp files begin_key end_key hint_index within_interval =
     (let start_index = search_start ucmp files begin_key hint_index within_interval;
          end_index = search_end ucmp files end_key start_index within_interval
      in if start_index = end_index then ([], None, None)
         else (take (end_index - start_index) (drop start_index files), Some start_index,
               if end_index < length files then Some (smallest (files ! end_index)) else None))"

text \<open>
  Level 0: one pass over the files that are left, in order. A file that overlaps is taken and may widen
  the range; the passes are repeated until one takes nothing.
\<close>

definition before_or_after ::
  "(key \<Rightarrow> key \<Rightarrow> int) \<Rightarrow> key option \<times> key option \<Rightarrow> FileMetaData \<Rightarrow> bool" where
  "before_or_after ucmp r f \<longleftrightarrow>
     (case fst r of None \<Rightarrow> False | Some b \<Rightarrow> ucmp (largest_user_key f) b < 0) \<or>
     (case snd r of None \<Rightarrow> False | Some e \<Rightarrow> ucmp (smallest_user_key f) e > 0)"

definition widen ::
  "(key \<Rightarrow> key \<Rightarrow> int) \<Rightarrow> bool \<Rightarrow> FileMetaData \<Rightarrow> key option \<times> key option \<Rightarrow> key option \<times> key option" where
  "widen ucmp expand_range f r =
     (if expand_range
      then (map_option (\<lambda>b. if ucmp (smallest_user_key f) b < 0 then smallest_user_key f else b) (fst r),
            map_option (\<lambda>e. if ucmp (largest_user_key f) e > 0 then largest_user_key f else e) (snd r))
      else r)"

fun l0_pass ::
  "(key \<Rightarrow> key \<Rightarrow> int) \<Rightarrow> bool \<Rightarrow> FileMetaData list \<Rightarrow> nat list \<Rightarrow> key option \<times> key option \<Rightarrow>
   nat list \<times> nat list \<times> (key option \<times> key option)" where
  "l0_pass ucmp expand_range files [] r = ([], [], r)"
| "l0_pass ucmp expand_range files (i # index) r =
     (if before_or_after ucmp r (files ! i)
      then let (taken, left, r') = l0_pass ucmp expand_range files index r in (taken, i # left, r')
      else let (taken, left, r') = l0_pass ucmp expand_range files index (widen ucmp expand_range (files ! i) r)
           in (i # taken, left, r'))"

lemma l0_pass_length:
  "length (fst (l0_pass ucmp expand_range files index r)) + length (fst (snd (l0_pass ucmp expand_range files index r))) = length index"
  by (induction index arbitrary: r) (simp_all add: Let_def split_def)

function l0_passes ::
  "(key \<Rightarrow> key \<Rightarrow> int) \<Rightarrow> bool \<Rightarrow> FileMetaData list \<Rightarrow> nat list \<Rightarrow> key option \<times> key option \<Rightarrow> nat list" where
  "l0_passes ucmp expand_range files index r =
     (let (taken, left, r') = l0_pass ucmp expand_range files index r
      in if index = [] \<or> taken = [] then [] else taken @ l0_passes ucmp expand_range files left r')"
  by auto

termination
proof (relation "measure (\<lambda>(ucmp, expand_range, files, index, r). length index)", goal_cases)
  case (2 ucmp expand_range files index r x taken y left r')
  have "length taken + length left = length index"
    using l0_pass_length [of ucmp expand_range files index r] 2(1-3) by (metis fst_conv snd_conv)
  then show ?case using 2(4) by (cases taken) auto
qed simp

definition GetOverlappingInputs ::
  "(key \<Rightarrow> key \<Rightarrow> int) \<Rightarrow> VersionStorageInfo \<Rightarrow> nat \<Rightarrow> key option \<Rightarrow> key option \<Rightarrow> FileMetaData list \<Rightarrow>
   nat option \<Rightarrow> bool \<Rightarrow> overlap_result" where
  "GetOverlappingInputs ucmp vs level begin_key end_key inputs hint_index expand_range =
     (let files = level_files vs level
      in if level \<ge> num_non_empty_levels vs then (inputs, hint_index, None)
         else if level > 0 then GetOverlappingInputsRangeBinarySearch ucmp files begin_key end_key hint_index False
         else
           let index = l0_passes ucmp expand_range files [0..<length files]
                 (map_option ExtractUserKey begin_key, map_option ExtractUserKey end_key)
           in (map (\<lambda>i. files ! i) index, if index = [] then None else Some (hd index), None))"

definition GetCleanInputsWithinInterval ::
  "(key \<Rightarrow> key \<Rightarrow> int) \<Rightarrow> VersionStorageInfo \<Rightarrow> nat \<Rightarrow> key option \<Rightarrow> key option \<Rightarrow> nat option \<Rightarrow> overlap_result" where
  "GetCleanInputsWithinInterval ucmp vs level begin_key end_key hint_index =
     (let files = level_files vs level
      in if level \<ge> num_non_empty_levels vs \<or> level = 0 \<or> files = [] then ([], None, None)
         else GetOverlappingInputsRangeBinarySearch ucmp files begin_key end_key hint_index True)"

declare skip_shared_start.simps [simp del] skip_shared_end.simps [simp del] l0_passes.simps [simp del]

section \<open>Ranges of inputs\<close>

record CompactionInputFiles =
  input_level :: nat
  input_files :: "FileMetaData list"

definition GetRange :: "(key \<Rightarrow> key \<Rightarrow> int) \<Rightarrow> CompactionInputFiles \<Rightarrow> key \<times> key" where
  "GetRange icmp inputs =
     (let fs = input_files inputs
      in if input_level inputs = 0 then detect_bounds icmp fs else (smallest (hd fs), largest (last fs)))"

definition GetRange_two ::
  "(key \<Rightarrow> key \<Rightarrow> int) \<Rightarrow> CompactionInputFiles \<Rightarrow> CompactionInputFiles \<Rightarrow> key \<times> key" where
  "GetRange_two icmp inputs1 inputs2 =
     (if input_files inputs1 = [] then GetRange icmp inputs2
      else if input_files inputs2 = [] then GetRange icmp inputs1
      else
        let (smallest1, largest1) = GetRange icmp inputs1; (smallest2, largest2) = GetRange icmp inputs2
        in (if icmp smallest1 smallest2 < 0 then smallest1 else smallest2,
            if icmp largest1 largest2 < 0 then largest2 else largest1))"

text \<open>\<open>None\<close>: no input is left after the exclusion, which the code asserts not to happen.\<close>

definition GetRange_all ::
  "(key \<Rightarrow> key \<Rightarrow> int) \<Rightarrow> CompactionInputFiles list \<Rightarrow> nat option \<Rightarrow> (key \<times> key) option" where
  "GetRange_all icmp inputs exclude_level =
     fold (\<lambda>inp r.
       if input_files inp = [] \<or> Some (input_level inp) = exclude_level then r
       else
         let (lo, hi) = GetRange icmp inp
         in case r of
              None \<Rightarrow> Some (lo, hi)
            | Some (lo', hi') \<Rightarrow> Some (if icmp lo lo' < 0 then lo else lo', if icmp hi hi' > 0 then hi else hi'))
       inputs None"

section \<open>Clean cuts\<close>

definition AreFilesInCompaction :: "FileMetaData list \<Rightarrow> bool" where
  "AreFilesInCompaction files \<longleftrightarrow> list_ex being_compacted files"

text \<open>The files of the level that overlap the range of the inputs.\<close>

definition overlap_range ::
  "(key \<Rightarrow> key \<Rightarrow> int) \<Rightarrow> (key \<Rightarrow> key \<Rightarrow> int) \<Rightarrow> VersionStorageInfo \<Rightarrow> nat \<Rightarrow> FileMetaData list \<Rightarrow> nat option \<Rightarrow> overlap_result" where
  "overlap_range icmp ucmp vs level files hint_index =
     (let (lo, hi) = GetRange icmp \<lparr>input_level = level, input_files = files\<rparr>
      in GetOverlappingInputs ucmp vs level (Some lo) (Some hi) [] hint_index True)"

partial_function (option) clean_cut_loop ::
  "(key \<Rightarrow> key \<Rightarrow> int) \<Rightarrow> (key \<Rightarrow> key \<Rightarrow> int) \<Rightarrow> VersionStorageInfo \<Rightarrow> nat \<Rightarrow> FileMetaData list \<Rightarrow> nat option \<Rightarrow>
   (FileMetaData list \<times> key option) option" where
  "clean_cut_loop icmp ucmp vs level files hint_index =
     (let (files', hint_index', next_smallest) = overlap_range icmp ucmp vs level files hint_index
      in if length files' > length files then clean_cut_loop icmp ucmp vs level files' hint_index'
         else Some (files', next_smallest))"

declare clean_cut_loop.simps [code]

text \<open>The result: whether the inputs may be compacted, the expanded inputs and the next smallest key.\<close>

definition ExpandInputsToCleanCut ::
  "(key \<Rightarrow> key \<Rightarrow> int) \<Rightarrow> (key \<Rightarrow> key \<Rightarrow> int) \<Rightarrow> VersionStorageInfo \<Rightarrow> nat \<Rightarrow> FileMetaData list \<Rightarrow>
   (bool \<times> FileMetaData list \<times> key option) option" where
  "ExpandInputsToCleanCut icmp ucmp vs level files =
     (if level = 0 then Some (True, files, None)
      else map_option (\<lambda>(files', next_smallest). (\<not> AreFilesInCompaction files', files', next_smallest))
        (clean_cut_loop icmp ucmp vs level files None))"

section \<open>Conflicts with running compactions\<close>

text \<open>\<open>rc_proximal\<close>: the output range on the proximal level, when the compaction places keys by key.\<close>

record RunningCompaction =
  rc_output_level :: nat
  rc_smallest_user_key :: key
  rc_largest_user_key :: key
  rc_proximal :: "(key \<times> key) option"

definition OverlapProximalLevelOutputRange ::
  "(key \<Rightarrow> key \<Rightarrow> int) \<Rightarrow> key \<Rightarrow> key \<Rightarrow> RunningCompaction \<Rightarrow> bool" where
  "OverlapProximalLevelOutputRange ucmp smallest_key largest_key c =
     (case rc_proximal c of
        None \<Rightarrow> False
      | Some (lo, hi) \<Rightarrow>
          if lo = [] \<or> hi = [] then False
          else ucmp smallest_key (ExtractUserKey hi) \<le> 0 \<and> ucmp largest_key (ExtractUserKey lo) \<ge> 0)"

definition RangeOverlapWithCompaction ::
  "(key \<Rightarrow> key \<Rightarrow> int) \<Rightarrow> RunningCompaction list \<Rightarrow> key \<Rightarrow> key \<Rightarrow> nat \<Rightarrow> bool" where
  "RangeOverlapWithCompaction ucmp compactions_in_progress smallest_key largest_key level =
     list_ex (\<lambda>c.
       rc_output_level c = level \<and> ucmp smallest_key (rc_largest_user_key c) \<le> 0 \<and>
         ucmp largest_key (rc_smallest_user_key c) \<ge> 0 \<or>
       OverlapProximalLevelOutputRange ucmp smallest_key largest_key c) compactions_in_progress"

definition FilesRangeOverlapWithCompaction ::
  "(key \<Rightarrow> key \<Rightarrow> int) \<Rightarrow> (key \<Rightarrow> key \<Rightarrow> int) \<Rightarrow> bool \<Rightarrow> RunningCompaction list \<Rightarrow> CompactionInputFiles list \<Rightarrow>
   nat \<Rightarrow> nat option \<Rightarrow> bool" where
  "FilesRangeOverlapWithCompaction icmp ucmp universal compactions_in_progress inputs level proximal_level =
     (let overlap = (\<lambda>r l. case r of
            None \<Rightarrow> False
          | Some (lo, hi) \<Rightarrow> RangeOverlapWithCompaction ucmp compactions_in_progress (ExtractUserKey lo) (ExtractUserKey hi) l);
          r = GetRange_all icmp inputs None
      in if list_all (\<lambda>inp. input_files inp = []) inputs then False
         else if (case proximal_level of
                    None \<Rightarrow> False
                  | Some p \<Rightarrow> overlap (if universal then r else GetRange_all icmp inputs (Some level)) p)
         then True
         else overlap r level)"

section \<open>Inputs from the output level\<close>

definition IsRangeInCompaction ::
  "(key \<Rightarrow> key \<Rightarrow> int) \<Rightarrow> VersionStorageInfo \<Rightarrow> key \<Rightarrow> key \<Rightarrow> nat \<Rightarrow> nat option \<Rightarrow> bool \<times> nat option" where
  "IsRangeInCompaction ucmp vs lo hi level level_index =
     (let (inputs, idx, _) = GetOverlappingInputs ucmp vs level (Some lo) (Some hi) [] level_index True
      in (AreFilesInCompaction inputs, idx))"

definition GetOverlappingL0Files ::
  "(key \<Rightarrow> key \<Rightarrow> int) \<Rightarrow> (key \<Rightarrow> key \<Rightarrow> int) \<Rightarrow> VersionStorageInfo \<Rightarrow> FileMetaData list \<Rightarrow> nat \<Rightarrow> nat option \<Rightarrow>
   bool \<times> FileMetaData list \<times> nat option" where
  "GetOverlappingL0Files icmp ucmp vs files output_level parent_index =
     (let (files', _, _) = overlap_range icmp ucmp vs 0 files None;
          (lo, hi) = GetRange icmp \<lparr>input_level = 0, input_files = files'\<rparr>;
          (busy, idx) = IsRangeInCompaction ucmp vs lo hi output_level parent_index
      in (\<not> busy, files', idx))"

definition GetGrandparents ::
  "(key \<Rightarrow> key \<Rightarrow> int) \<Rightarrow> (key \<Rightarrow> key \<Rightarrow> int) \<Rightarrow> VersionStorageInfo \<Rightarrow> nat \<Rightarrow> CompactionInputFiles \<Rightarrow> CompactionInputFiles \<Rightarrow>
   FileMetaData list \<Rightarrow> FileMetaData list" where
  "GetGrandparents icmp ucmp vs num_levels inputs output_level_inputs grandparents =
     (let (start_key, limit) = GetRange_two icmp inputs output_level_inputs
      in snd (fold (\<lambda>level (found, gs).
           if found then (True, gs)
           else let (gs', _, _) = GetOverlappingInputs ucmp vs level (Some start_key) (Some limit) gs None True
                in (gs' \<noteq> [], gs')) [input_level output_level_inputs + 1..<num_levels] (False, grandparents)))"

definition MultiplyCheckOverflow :: "u64 \<Rightarrow> rat \<Rightarrow> u64" where
  "MultiplyCheckOverflow op1 op2 =
     (if op1 = 0 \<or> op2 \<le> 0 then 0
      else if dbl (- 1 div op1) < op2 then op1
      else to_uint64 (dmul (dbl op1) op2))"

text \<open>
  The attempts of \<open>SetupOtherInputs\<close> to take more files of the start level: first every file that
  overlaps the range of both inputs, as long as no further file of the output level comes in; else the
  files inside that range that form a clean cut.
\<close>

definition expand_start_level ::
  "(key \<Rightarrow> key \<Rightarrow> int) \<Rightarrow> (key \<Rightarrow> key \<Rightarrow> int) \<Rightarrow> VersionStorageInfo \<Rightarrow> u64 \<Rightarrow> CompactionInputFiles \<Rightarrow> CompactionInputFiles \<Rightarrow>
   nat option \<Rightarrow> nat option \<Rightarrow> bool \<Rightarrow> (CompactionInputFiles \<times> nat option) option" where
  "expand_start_level icmp ucmp vs limit inputs output_level_inputs parent_index base_index only_expand_towards_right =
     (let level = input_level inputs; n = length (input_files inputs);
          output_size = total_size (input_files output_level_inputs);
          (all_start, all_limit) = GetRange_two icmp inputs output_level_inputs;
          from_key = (if only_expand_towards_right then fst (GetRange icmp inputs) else all_start);
          (found, _, _) = GetOverlappingInputs ucmp vs level (Some from_key) (Some all_limit) [] base_index True;
          expanded_size = total_size found
      in do {
           (try_overlapping, expanded, _) \<leftarrow> ExpandInputsToCleanCut icmp ucmp vs level found;
           (expand, parent_index') \<leftarrow>
             (if try_overlapping \<and> length expanded > n \<and> \<not> AreFilesInCompaction expanded \<and> output_size + expanded_size < limit
              then
                let (new_start, new_limit) = GetRange icmp \<lparr>input_level = level, input_files = expanded\<rparr>;
                    (out, idx, _) = GetOverlappingInputs ucmp vs (input_level output_level_inputs) (Some new_start) (Some new_limit) [] parent_index True
                in if AreFilesInCompaction out then Some (False, idx)
                   else map_option (\<lambda>(clean, out', _). (clean \<and> length out' = length (input_files output_level_inputs), idx))
                     (ExpandInputsToCleanCut icmp ucmp vs (input_level output_level_inputs) out)
              else Some (False, parent_index));
           (if expand then Some (inputs\<lparr>input_files := expanded\<rparr>, parent_index')
            else
              let (inner, _, _) = GetCleanInputsWithinInterval ucmp vs level (Some all_start) (Some all_limit) base_index
              in if length inner > n \<and> \<not> AreFilesInCompaction inner \<and> output_size + total_size inner < limit
                 then Some (inputs\<lparr>input_files := inner\<rparr>, parent_index')
                 else Some (inputs, parent_index'))
         })"

definition SetupOtherInputs ::
  "(key \<Rightarrow> key \<Rightarrow> int) \<Rightarrow> (key \<Rightarrow> key \<Rightarrow> int) \<Rightarrow> VersionStorageInfo \<Rightarrow> u64 \<Rightarrow> int \<Rightarrow> CompactionInputFiles \<Rightarrow> nat \<Rightarrow>
   nat option \<Rightarrow> nat option \<Rightarrow> bool \<Rightarrow>
   (bool \<times> CompactionInputFiles \<times> CompactionInputFiles \<times> nat option) option" where
  "SetupOtherInputs icmp ucmp vs max_compaction_bytes use_new_flush inputs output_level parent_index base_index only_expand_towards_right =
     (let none = \<lparr>input_level = output_level, input_files = []\<rparr>;
          (lo, hi) = GetRange icmp inputs;
          (out, idx, _) = GetOverlappingInputs ucmp vs output_level (Some lo) (Some hi) [] parent_index True
      in if input_level inputs = output_level then Some (True, inputs, none, parent_index)
         else if AreFilesInCompaction out then Some (False, inputs, none\<lparr>input_files := out\<rparr>, idx)
         else do {
           (clean, out', _) \<leftarrow> (if out = [] then Some (True, [], None) else ExpandInputsToCleanCut icmp ucmp vs output_level out);
           (if \<not> clean then Some (False, inputs, none\<lparr>input_files := out'\<rparr>, idx)
            else if input_level inputs = 0 \<and> use_new_flush \<noteq> 0 \<or> out' = []
            then Some (True, inputs, none\<lparr>input_files := out'\<rparr>, idx)
            else map_option (\<lambda>(inputs', idx'). (True, inputs', none\<lparr>input_files := out'\<rparr>, idx'))
              (expand_start_level icmp ucmp vs (MultiplyCheckOverflow max_compaction_bytes 2) inputs (none\<lparr>input_files := out'\<rparr>)
                idx base_index only_expand_towards_right))
         })"

end
