(* ===== verification/L0_Picker.thy ===== *)
theory L0_Picker
  imports Compaction_Inputs
begin

text \<open>
  The choice of level-0 files of \<open>LevelCompactionBuilder\<close> (\<open>db/compaction/compaction_picker_level.cc\<close>):
  trivial moves, compactions inside level 0, and the group of overlapping files that goes to the base
  level when \<open>use_new_flush\<close> is set; and \<open>FindIntraL0Compaction\<close> of
  \<open>db/compaction/compaction_picker.cc\<close>. Logging is left out.
\<close>

section \<open>Options\<close>

record picker_options =
  use_new_flush :: int
  enable_intra_l0_compaction :: bool
  l0_weight_compaction :: bool
  l0_file_count_weight :: rat
  level0_file_num_compaction_trigger :: int
  max_compaction_bytes :: u64
  max_bytes_for_level_multiplier :: rat
  compression_per_level_empty :: bool
  num_db_paths :: nat

definition kMinFilesForIntraL0Compaction :: nat where "kMinFilesForIntraL0Compaction = 4"

section \<open>Compactions inside level 0\<close>

text \<open>The loop: \<open>limit\<close> files are taken so far; the result is the limit and the bytes per deleted file.\<close>

fun intra_l0_loop :: "u64 \<Rightarrow> FileMetaData list \<Rightarrow> nat \<Rightarrow> u64 \<Rightarrow> u64 \<Rightarrow> nat \<times> u64" where
  "intra_l0_loop max_bytes [] limit compact_bytes per_del_file = (limit, per_del_file)"
| "intra_l0_loop max_bytes (f # fs) limit compact_bytes per_del_file =
     (let compact_bytes' = compact_bytes + GetFileSize f;
          new_per_del_file = compact_bytes' div of_nat limit
      in if being_compacted f \<or> new_per_del_file > per_del_file \<or> compact_bytes' > max_bytes
         then (limit, per_del_file)
         else intra_l0_loop max_bytes fs (limit + 1) compact_bytes' new_per_del_file)"

definition FindIntraL0Compaction :: "FileMetaData list \<Rightarrow> nat \<Rightarrow> u64 \<Rightarrow> u64 \<Rightarrow> FileMetaData list option" where
  "FindIntraL0Compaction files min_files_to_compact max_compact_bytes_per_del_file max_bytes =
     (if files = [] \<or> being_compacted (hd files) then None
      else
        let (limit, per_del_file) = intra_l0_loop max_bytes (tl files) 1 (GetFileSize (hd files)) (- 1)
        in if limit \<ge> min_files_to_compact \<and> per_del_file < max_compact_bytes_per_del_file
           then Some (take limit files) else None)"

text \<open>The first group with enough files that is not too large.\<close>

definition suitable_group ::
  "nat \<Rightarrow> (FileMetaData list \<Rightarrow> u64) \<Rightarrow> u64 \<Rightarrow> L0OverlappingGroup list \<Rightarrow> FileMetaData list option" where
  "suitable_group min_files size_of max_bytes groups =
     map_option og_files (find (\<lambda>g. \<not> length (og_files g) < min_files \<and> size_of (og_files g) \<le> max_bytes) groups)"

text \<open>
  The outer option is the union-find computation, which always returns; the inner one is the choice. A
  negative bound is converted to a huge unsigned one.
\<close>

definition PickIntraL0Compaction ::
  "(key \<Rightarrow> key \<Rightarrow> int) \<Rightarrow> hash_order \<Rightarrow> picker_options \<Rightarrow> FileMetaData list \<Rightarrow> FileMetaData list option option" where
  "PickIntraL0Compaction icmp order opts files =
     (if \<not> enable_intra_l0_compaction opts then Some None
      else if level0_file_num_compaction_trigger opts + 2 < 0 \<or>
              int (length files) < level0_file_num_compaction_trigger opts + 2 \<or> being_compacted (hd files) then Some None
      else if use_new_flush opts \<noteq> 0
      then map_option (suitable_group kMinFilesForIntraL0Compaction total_size (max_compaction_bytes opts))
        (FindL0OverlappingGroups icmp order files)
      else Some None)"

definition compensated_size :: "FileMetaData list \<Rightarrow> u64" where
  "compensated_size fs = sum_list (map compensated_file_size fs)"

text \<open>The size of the base level, which stops growing once it is past the bound.\<close>

fun size_up_to :: "u64 \<Rightarrow> u64 \<Rightarrow> FileMetaData list \<Rightarrow> u64" where
  "size_up_to bound acc [] = acc"
| "size_up_to bound acc (f # fs) =
     (let acc' = acc + GetFileSize f in if acc' > bound then acc' else size_up_to bound acc' fs)"

definition PickSizeBasedIntraL0Compaction ::
  "(key \<Rightarrow> key \<Rightarrow> int) \<Rightarrow> hash_order \<Rightarrow> picker_options \<Rightarrow> VersionStorageInfo \<Rightarrow> FileMetaData list option option" where
  "PickSizeBasedIntraL0Compaction icmp order opts vs =
     (let l0_files = level_files vs 0;
          min_num_file = nat (max 2 (level0_file_num_compaction_trigger opts));
          min_lbase_size = MultiplyCheckOverflow (compensated_size l0_files)
            (dmul (max 10 (max_bytes_for_level_multiplier opts)) 2)
      in if \<not> enable_intra_l0_compaction opts \<or> base_level vs \<le> 0 \<or> length l0_files < min_num_file then Some None
         else if size_up_to min_lbase_size 0 (level_files vs (nat (base_level vs))) \<le> min_lbase_size then Some None
         else if use_new_flush opts \<noteq> 0
         then map_option (suitable_group min_num_file compensated_size (max_compaction_bytes opts))
           (FindL0OverlappingGroups icmp order l0_files)
         else Some None)"

section \<open>Trivial moves\<close>

text \<open>From the oldest file on, as long as the files are disjoint and nothing of the output level overlaps.\<close>

fun trivial_move_loop ::
  "(key \<Rightarrow> key \<Rightarrow> int) \<Rightarrow> (key \<Rightarrow> key \<Rightarrow> int) \<Rightarrow> VersionStorageInfo \<Rightarrow> nat \<Rightarrow> FileMetaData list \<Rightarrow> (key \<times> key) option \<Rightarrow> FileMetaData list" where
  "trivial_move_loop icmp ucmp vs output_level [] r = []"
| "trivial_move_loop icmp ucmp vs output_level (f # fs) r =
     (let r' = (case r of
            None \<Rightarrow> Some (smallest f, largest f)
          | Some (lo, hi) \<Rightarrow>
              if icmp (largest f) lo < 0 then Some (smallest f, hi)
              else if icmp (smallest f) hi > 0 then Some (lo, largest f)
              else None)
      in case r' of
           None \<Rightarrow> []
         | Some (lo, hi) \<Rightarrow>
             if fst (GetOverlappingInputs ucmp vs output_level (Some lo) (Some hi) [] None True) = []
             then f # trivial_move_loop icmp ucmp vs output_level fs r' else [])"

definition TryPickL0TrivialMove ::
  "(key \<Rightarrow> key \<Rightarrow> int) \<Rightarrow> (key \<Rightarrow> key \<Rightarrow> int) \<Rightarrow> picker_options \<Rightarrow> VersionStorageInfo \<Rightarrow> nat \<Rightarrow> FileMetaData list option" where
  "TryPickL0TrivialMove icmp ucmp opts vs output_level =
     (let picked =
        (if base_level vs \<le> 0 then []
         else if compression_per_level_empty opts \<and> level_files vs output_level \<noteq> [] \<and> num_db_paths opts \<le> 1
         then trivial_move_loop icmp ucmp vs output_level (rev (level_files vs 0)) None
         else [])
      in if picked = [] then None else Some (sort_by (\<lambda>f g. icmp (smallest f) (smallest g) < 0) picked))"

section \<open>Groups for the base level\<close>

definition active_groups :: "(key \<Rightarrow> key \<Rightarrow> int) \<Rightarrow> FileMetaData list \<Rightarrow> FileMetaData list list option" where
  "active_groups ucmp files =
     (let n = length files; busy = (\<lambda>i. being_compacted (files ! i))
      in do {
           u \<leftarrow> join_all union_sets (overlap_pairs n busy (\<lambda>i j. user_keys_overlap ucmp (files ! i) (files ! j))) [0..<n];
           roots \<leftarrow> find_all uf_find (filter (\<lambda>i. \<not> busy i) [0..<n]) u;
           Some (map (\<lambda>(r, idxs). map (\<lambda>i. files ! i) idxs) (group_map roots))
         })"

record GroupScore =
  gs_files :: "FileMetaData list"
  gs_overlap_ratio :: rat
  gs_score :: rat

definition measure_group ::
  "(key \<Rightarrow> key \<Rightarrow> int) \<Rightarrow> (key \<Rightarrow> key \<Rightarrow> int) \<Rightarrow> VersionStorageInfo \<Rightarrow> nat \<Rightarrow> FileMetaData list \<Rightarrow> GroupScore" where
  "measure_group icmp ucmp vs output_level fs =
     (let group_size = total_size fs;
          (lo, hi) = group_bounds icmp fs;
          l1_overlap_size = total_size (fst (GetOverlappingInputs ucmp vs output_level (Some lo) (Some hi) [] None True))
      in \<lparr>gs_files = fs,
          gs_overlap_ratio = (if group_size > 0 then ddiv (dbl l1_overlap_size) (dbl group_size) else 0),
          gs_score = 0\<rparr>)"

definition score_groups :: "rat \<Rightarrow> GroupScore list \<Rightarrow> GroupScore list" where
  "score_groups alpha gs =
     (let n_max = fold (\<lambda>g m. if length (gs_files g) > m then length (gs_files g) else m) gs 0;
          r_max = fold (\<lambda>g m. if gs_overlap_ratio g > m then gs_overlap_ratio g else m) gs 0
      in map (\<lambda>g.
           let file_count_norm = (if n_max > 0 then ddiv (dnat (length (gs_files g))) (dnat n_max) else 0);
               efficiency = (if r_max > 0 then dsub 1 (ddiv (gs_overlap_ratio g) r_max) else 1)
           in g\<lparr>gs_score := dadd (dmul alpha file_count_norm) (dmul (dsub 1 alpha) efficiency)\<rparr>) gs)"

definition better_score :: "GroupScore \<Rightarrow> GroupScore \<Rightarrow> bool" where
  "better_score a b =
     (if \<bar>dsub (gs_score a) (gs_score b)\<bar> < fl (1 / 10 ^ 9) then length (gs_files a) > length (gs_files b)
      else gs_score a > gs_score b)"

definition choose_group ::
  "(key \<Rightarrow> key \<Rightarrow> int) \<Rightarrow> (key \<Rightarrow> key \<Rightarrow> int) \<Rightarrow> picker_options \<Rightarrow> VersionStorageInfo \<Rightarrow> nat \<Rightarrow> FileMetaData list list \<Rightarrow> FileMetaData list" where
  "choose_group icmp ucmp opts vs output_level groups =
     (if l0_weight_compaction opts
      then gs_files (hd (sort_by better_score
        (score_groups (l0_file_count_weight opts) (map (measure_group icmp ucmp vs output_level) groups))))
      else hd (sort_by (\<lambda>a b. length a > length b) groups))"

datatype l0_pick =
  TrivialMove "FileMetaData list"
| IntraL0 "FileMetaData list"
| ToBase "FileMetaData list"
| NoPick

text \<open>
  \<open>PickFileToCompact\<close> at level 0 with \<open>use_new_flush\<close> set. When every file is being compacted the code
  goes on to the loop over single files, which passes over all of them and picks nothing.
\<close>

definition PickFileToCompact_L0 ::
  "(key \<Rightarrow> key \<Rightarrow> int) \<Rightarrow> (key \<Rightarrow> key \<Rightarrow> int) \<Rightarrow> hash_order \<Rightarrow> picker_options \<Rightarrow> VersionStorageInfo \<Rightarrow> nat \<Rightarrow> l0_pick option" where
  "PickFileToCompact_L0 icmp ucmp order opts vs output_level =
     (case TryPickL0TrivialMove icmp ucmp opts vs output_level of
        Some fs \<Rightarrow> Some (TrivialMove fs)
      | None \<Rightarrow>
          do {
            intra \<leftarrow> PickSizeBasedIntraL0Compaction icmp order opts vs;
            (case intra of
               Some fs \<Rightarrow> Some (IntraL0 fs)
             | None \<Rightarrow>
                 if list_all being_compacted (level_files vs 0) then Some NoPick
                 else map_option (\<lambda>groups. ToBase (choose_group icmp ucmp opts vs output_level groups))
                   (active_groups ucmp (level_files vs 0)))
          })"

end
