(* ===== verification/Compaction_Inputs_Properties.thy ===== *)
theory Compaction_Inputs_Properties
  imports Compaction_Inputs L0_Group_Properties
begin

text \<open>
  What the expansion to a clean cut guarantees: it ends, and it returns the least run of neighbouring
  files around the inputs at whose ends no user key continues in the next file.
\<close>

section \<open>The order of table keys\<close>

lemma sstableKeyCompare_eq:
  "sstableKeyCompare cmp =
     then_desc cmp ExtractUserKey (\<lambda>k. if ExtractInternalKeyFooter k = kRangeTombstoneSentinel then 1 else 0)"
  by (auto simp: fun_eq_iff sstableKeyCompare_def then_desc_def Let_def)

interpretation sst: comparator "sstableKeyCompare bytewise_Compare" "\<lambda>_. True"
  unfolding sstableKeyCompare_eq by (rule bytewise.then_desc_comparator) simp

section \<open>Sorted levels\<close>

abbreviation segment :: "'a list \<Rightarrow> nat \<Rightarrow> nat \<Rightarrow> 'a list" where
  "segment xs s e \<equiv> take (e - s) (drop s xs)"

text \<open>
  The files of a level below 0: each has its keys in order, and a file ends at or before the start of
  the next one. Two neighbours share a cut when the last user key of one is the first of the other.
\<close>

definition level_sorted :: "(key \<Rightarrow> key \<Rightarrow> int) \<Rightarrow> (key \<Rightarrow> bool) \<Rightarrow> FileMetaData list \<Rightarrow> bool" where
  "level_sorted c ok fs \<longleftrightarrow>
     (\<forall>f \<in> set fs. ok (smallest f) \<and> ok (largest f) \<and> c (smallest f) (largest f) \<le> 0) \<and>
     sorted_wrt (\<lambda>f g. c (largest f) (smallest g) \<le> 0) fs"

definition shared_cut :: "(key \<Rightarrow> key \<Rightarrow> int) \<Rightarrow> FileMetaData list \<Rightarrow> nat \<Rightarrow> bool" where
  "shared_cut c fs i \<longleftrightarrow> c (largest (fs ! i)) (smallest (fs ! Suc i)) = 0"

lemma takeWhile_take: "n < length xs \<Longrightarrow> \<not> P (xs ! n) \<Longrightarrow> takeWhile P (take n xs) = takeWhile P xs"
proof (induction xs arbitrary: n)
  case (Cons x xs)
  then show ?case by (cases n) auto
qed simp

lemma partition_point_all: "i < partition_point P xs \<Longrightarrow> P (xs ! i)"
  unfolding partition_point_def using nth_mem set_takeWhileD takeWhile_nth by metis

lemma partition_point_le: "\<not> P (xs ! n) \<Longrightarrow> partition_point P xs \<le> n"
  using partition_point_all [of n P xs] by (meson not_le)

lemma partition_point_stop: "partition_point P xs < length xs \<Longrightarrow> \<not> P (xs ! partition_point P xs)"
  unfolding partition_point_def by (rule nth_length_takeWhile)

lemma partition_point_bound: "partition_point P xs \<le> length xs"
  unfolding partition_point_def by (rule length_takeWhile_le)

context comparator
begin

lemma level_keys:
  assumes "level_sorted cmp ok fs" "i < length fs"
  shows "ok (smallest (fs ! i))" "ok (largest (fs ! i))" "cmp (smallest (fs ! i)) (largest (fs ! i)) \<le> 0"
  using assms by (auto simp: level_sorted_def)

lemma level_apart: "level_sorted cmp ok fs \<Longrightarrow> i < j \<Longrightarrow> j < length fs \<Longrightarrow> cmp (largest (fs ! i)) (smallest (fs ! j)) \<le> 0"
  by (auto simp: level_sorted_def sorted_wrt_iff_nth_less)

lemma level_mono:
  assumes "level_sorted cmp ok fs" "i \<le> j" "j < length fs"
  shows "cmp (smallest (fs ! i)) (smallest (fs ! j)) \<le> 0" "cmp (largest (fs ! i)) (largest (fs ! j)) \<le> 0"
proof -
  have b: "i < length fs" using assms by simp
  note ki = level_keys [OF assms(1) b] and kj = level_keys [OF assms(1,3)]
  show "cmp (smallest (fs ! i)) (smallest (fs ! j)) \<le> 0"
    using level_apart [OF assms(1) _ assms(3), of i] assms(2) ki kj cmp_refl [OF ki(1)] cmp_trans [OF ki(1,2) kj(1) ki(3)]
    by (cases "i = j") auto
  show "cmp (largest (fs ! i)) (largest (fs ! j)) \<le> 0"
    using level_apart [OF assms(1) _ assms(3), of i] assms(2) ki kj cmp_refl [OF ki(2)] cmp_trans [OF ki(2) kj(1,2) _ kj(3)]
    by (cases "i = j") auto
qed

text \<open>A file that reaches a later start, or starts before an earlier end, shares all the cuts between.\<close>

lemma shared_between:
  assumes "level_sorted cmp ok fs" "s \<le> i" "i < j" "j < length fs" "\<not> cmp (largest (fs ! s)) (smallest (fs ! j)) < 0"
  shows "shared_cut cmp fs i"
proof -
  have b: "s < length fs" "i < length fs" "Suc i < length fs" using assms by simp_all
  note k = level_keys [OF assms(1)]
  have "cmp (smallest (fs ! Suc i)) (smallest (fs ! j)) \<le> 0" using level_mono(1) [OF assms(1) _ assms(4), of "Suc i"] assms(3) by simp
  moreover have "cmp (smallest (fs ! j)) (largest (fs ! s)) \<le> 0"
    using assms(5) cmp_le_swap [OF k(1) k(2)] b assms(4) by simp
  moreover have "cmp (largest (fs ! s)) (largest (fs ! i)) \<le> 0" using level_mono(2) [OF assms(1,2)] b by simp
  ultimately have "cmp (smallest (fs ! Suc i)) (largest (fs ! i)) \<le> 0"
    using cmp_trans k b assms(4) by metis
  moreover have "cmp (largest (fs ! i)) (smallest (fs ! Suc i)) \<le> 0" using level_apart [OF assms(1)] b by simp
  ultimately show ?thesis
    unfolding shared_cut_def using cmp_le_swap [OF k(1) k(2), of "Suc i" i] b by simp
qed

end

section \<open>One round of the expansion\<close>

definition new_start :: "(key \<Rightarrow> key \<Rightarrow> int) \<Rightarrow> FileMetaData list \<Rightarrow> nat \<Rightarrow> nat" where
  "new_start c fs s = partition_point (\<lambda>f. c (largest f) (smallest (fs ! s)) < 0) fs"

definition new_end :: "(key \<Rightarrow> key \<Rightarrow> int) \<Rightarrow> FileMetaData list \<Rightarrow> nat \<Rightarrow> nat \<Rightarrow> nat" where
  "new_end c fs s e = s + partition_point (\<lambda>f. \<not> c (largest (fs ! (e - 1))) (smallest f) < 0) (drop s fs)"

context comparator
begin

lemma new_start_spec:
  assumes "level_sorted cmp ok fs" "s < length fs"
  shows "new_start cmp fs s \<le> s" "new_start cmp fs s \<le> i \<Longrightarrow> i < s \<Longrightarrow> shared_cut cmp fs i"
    "new_start cmp fs s = s \<Longrightarrow> 0 < s \<Longrightarrow> \<not> shared_cut cmp fs (s - 1)"
    "takeWhile (\<lambda>f. cmp (largest f) (smallest (fs ! s)) < 0) (take s fs) = takeWhile (\<lambda>f. cmp (largest f) (smallest (fs ! s)) < 0) fs"
proof -
  let ?P = "\<lambda>f. cmp (largest f) (smallest (fs ! s)) < 0"
  have n: "\<not> ?P (fs ! s)"
    using level_keys [OF assms] cmp_le_swap [of "smallest (fs ! s)" "largest (fs ! s)"] by simp
  show le: "new_start cmp fs s \<le> s" unfolding new_start_def by (rule partition_point_le) (rule n)
  show "takeWhile ?P (take s fs) = takeWhile ?P fs" by (rule takeWhile_take) (use assms n in auto)
  show "shared_cut cmp fs i" if "new_start cmp fs s \<le> i" "i < s"
  proof (rule shared_between [OF assms(1) that assms(2)])
    have "new_start cmp fs s < length fs" using that assms(2) by simp
    then show "\<not> cmp (largest (fs ! new_start cmp fs s)) (smallest (fs ! s)) < 0"
      unfolding new_start_def by (rule partition_point_stop)
  qed
  show "\<not> shared_cut cmp fs (s - 1)" if "new_start cmp fs s = s" "0 < s"
    using partition_point_all [of "s - 1" ?P fs] that by (simp add: new_start_def shared_cut_def)
qed

lemma new_end_spec:
  assumes "level_sorted cmp ok fs" "s' \<le> s" "s < e" "e \<le> length fs"
  shows "e \<le> new_end cmp fs s' e" "new_end cmp fs s' e \<le> length fs"
    "e \<le> Suc i \<Longrightarrow> Suc i < new_end cmp fs s' e \<Longrightarrow> shared_cut cmp fs i"
    "new_end cmp fs s' e = e \<Longrightarrow> e < length fs \<Longrightarrow> \<not> shared_cut cmp fs (e - 1)"
proof -
  let ?k = "largest (fs ! (e - 1))"
  let ?P = "\<lambda>f. \<not> cmp ?k (smallest f) < 0"
  have e1: "e - 1 < length fs" using assms by simp
  note k = level_keys [OF assms(1)]
  show ub: "new_end cmp fs s' e \<le> length fs"
    using partition_point_bound [of ?P "drop s' fs"] assms by (simp add: new_end_def)
  have stop: "cmp ?k (smallest (fs ! new_end cmp fs s' e)) < 0" if "new_end cmp fs s' e < length fs"
    using partition_point_stop [of ?P "drop s' fs"] that assms by (simp add: new_end_def less_diff_conv2 add.commute)
  show "e \<le> new_end cmp fs s' e"
  proof (rule ccontr)
    assume "\<not> ?thesis"
    then have n: "new_end cmp fs s' e \<le> e - 1" "new_end cmp fs s' e < length fs" using assms by simp_all
    have "cmp (smallest (fs ! new_end cmp fs s' e)) ?k \<le> 0"
      using level_mono(1) [OF assms(1) n(1) e1] k [OF n(2)] k [OF e1] cmp_trans by metis
    then show False using stop [OF n(2)] cmp_le_swap [of "smallest (fs ! new_end cmp fs s' e)" ?k] k [OF n(2)] k [OF e1] by simp
  qed
  show "shared_cut cmp fs i" if "e \<le> Suc i" "Suc i < new_end cmp fs s' e"
  proof (rule shared_between [OF assms(1), of "e - 1" i "Suc i"])
    have "s' \<le> Suc i" "Suc i < length fs" using that assms ub by simp_all
    moreover have "Suc i - s' < partition_point ?P (drop s' fs)" using that assms by (auto simp: new_end_def)
    ultimately show "\<not> cmp ?k (smallest (fs ! Suc i)) < 0" using partition_point_all [of "Suc i - s'" ?P "drop s' fs"] by simp
  qed (use that ub in auto)
  show "\<not> shared_cut cmp fs (e - 1)" if "new_end cmp fs s' e = e" "e < length fs"
    using stop that assms by (auto simp: shared_cut_def)
qed

end

lemma last_segment: "s < e \<Longrightarrow> e \<le> length xs \<Longrightarrow> last (segment xs s e) = xs ! (e - 1)"
  by (simp add: last_conv_nth)

lemma overlap_range_segment:
  assumes c: "comparator (sstableKeyCompare ucmp) ok" "level_sorted (sstableKeyCompare ucmp) ok (level_files vs level)"
    and "0 < level" "level < num_non_empty_levels vs" and se: "s < e" "e \<le> length (level_files vs level)"
    and "hint = None \<or> hint = Some s"
  defines "fs \<equiv> level_files vs level"
  defines "s' \<equiv> new_start (sstableKeyCompare ucmp) fs s"
  defines "e' \<equiv> new_end (sstableKeyCompare ucmp) fs s' e"
  shows "overlap_range icmp ucmp vs level (segment fs s e) hint =
    (segment fs s' e', Some s', if e' < length fs then Some (smallest (fs ! e')) else None)"
proof -
  have r: "GetRange icmp \<lparr>input_level = level, input_files = segment fs s e\<rparr> = (smallest (fs ! s), largest (fs ! (e - 1)))"
    using assms(3) se by (simp add: GetRange_def fs_def hd_drop_conv_nth last_segment)
  have s: "s < length fs" using se by (simp add: fs_def)
  note st = comparator.new_start_spec [OF c(1) c(2) [folded fs_def] s]
  have st': "search_start ucmp fs (Some (smallest (fs ! s))) hint False = s'"
    using assms(7) st(4) by (auto simp: search_start_def s'_def new_start_def partition_point_def)
  have e': "search_end ucmp fs (Some (largest (fs ! (e - 1)))) s' False = e'"
    by (simp add: search_end_def e'_def new_end_def)
  have "s' < e'"
    using comparator.new_end_spec(1) [OF c(1) c(2) [folded fs_def] st(1) se(1) se(2) [folded fs_def]] st(1) se(1)
    by (simp add: e'_def s'_def)
  then show ?thesis
    using r st' e' assms(3,4) by (simp add: overlap_range_def GetOverlappingInputs_def GetOverlappingInputsRangeBinarySearch_def fs_def [symmetric])
qed

section \<open>The clean cut\<close>

text \<open>\<open>s'\<close> and \<open>e'\<close> delimit the least segment around \<open>s\<close> and \<open>e\<close> with a clean cut at both ends.\<close>

definition clean_segment ::
  "(key \<Rightarrow> key \<Rightarrow> int) \<Rightarrow> FileMetaData list \<Rightarrow> nat \<Rightarrow> nat \<Rightarrow> nat \<Rightarrow> nat \<Rightarrow> bool" where
  "clean_segment c fs s e s' e' \<longleftrightarrow> s' \<le> s \<and> e \<le> e' \<and> e' \<le> length fs \<and>
     (s' = 0 \<or> \<not> shared_cut c fs (s' - 1)) \<and> (e' = length fs \<or> \<not> shared_cut c fs (e' - 1)) \<and>
     (\<forall>i. s' \<le> i \<and> i < s \<longrightarrow> shared_cut c fs i) \<and> (\<forall>i. e \<le> Suc i \<and> Suc i < e' \<longrightarrow> shared_cut c fs i)"

lemma clean_segment_widen:
  assumes "clean_segment c fs s1 e1 s' e'" "s1 \<le> s" "e \<le> e1"
    "\<And>i. s1 \<le> i \<Longrightarrow> i < s \<Longrightarrow> shared_cut c fs i" "\<And>i. e \<le> Suc i \<Longrightarrow> Suc i < e1 \<Longrightarrow> shared_cut c fs i"
  shows "clean_segment c fs s e s' e'"
  using assms unfolding clean_segment_def by (meson le_trans not_le)

lemma clean_cut_loop_result:
  assumes c: "comparator (sstableKeyCompare ucmp) ok" "level_sorted (sstableKeyCompare ucmp) ok (level_files vs level)"
    and l: "0 < level" "level < num_non_empty_levels vs" and "s < e" "e \<le> length (level_files vs level)" "hint = None \<or> hint = Some s"
  shows "\<exists>s' e'. clean_segment (sstableKeyCompare ucmp) (level_files vs level) s e s' e' \<and>
    clean_cut_loop icmp ucmp vs level (segment (level_files vs level) s e) hint =
      Some (segment (level_files vs level) s' e',
        if e' < length (level_files vs level) then Some (smallest (level_files vs level ! e')) else None)"
  using assms(5-7)
proof (induction "length (level_files vs level) - (e - s)" arbitrary: s e hint rule: less_induct)
  case less
  let ?fs = "level_files vs level" and ?c = "sstableKeyCompare ucmp"
  define s1 e1 where "s1 = new_start ?c ?fs s" and "e1 = new_end ?c ?fs s1 e"
  have s: "s < length ?fs" using less.prems by simp
  note S = comparator.new_start_spec [OF c s, folded s1_def]
  note E = comparator.new_end_spec [OF c S(1) less.prems(1,2), folded e1_def]
  have step: "overlap_range icmp ucmp vs level (segment ?fs s e) hint =
      (segment ?fs s1 e1, Some s1, if e1 < length ?fs then Some (smallest (?fs ! e1)) else None)"
    using overlap_range_segment [OF c l less.prems] by (simp add: s1_def e1_def)
  have len: "length (segment ?fs s1 e1) = e1 - s1" "length (segment ?fs s e) = e - s" using E(2) less.prems by simp_all
  show ?case
  proof (cases "e1 - s1 > e - s")
    case True
    then have loop: "clean_cut_loop icmp ucmp vs level (segment ?fs s e) hint = clean_cut_loop icmp ucmp vs level (segment ?fs s1 e1) (Some s1)"
      by (subst clean_cut_loop.simps) (simp only: step len Let_def prod.case if_True)
    have "length ?fs - (e1 - s1) < length ?fs - (e - s)" "s1 < e1" using True E(2) by linarith+
    from less.hyps [OF this E(2)] show ?thesis
      unfolding loop using clean_segment_widen [OF _ S(1) E(1) S(2) E(3)] by blast
  next
    case False
    then have eq: "s1 = s" "e1 = e" using S(1) E(1) less.prems(1) by linarith+
    have "clean_cut_loop icmp ucmp vs level (segment ?fs s e) hint =
        Some (segment ?fs s1 e1, if e1 < length ?fs then Some (smallest (?fs ! e1)) else None)"
      by (subst clean_cut_loop.simps) (simp only: step len Let_def prod.case False if_False)
    moreover have "clean_segment ?c ?fs s e s1 e1"
      using S E eq less.prems unfolding clean_segment_def by auto
    ultimately show ?thesis by blast
  qed
qed

text \<open>C10. On a sorted level below 0, \<open>ExpandInputsToCleanCut\<close> ends for every run of neighbouring input
  files. It returns the least run around the inputs with a clean cut at both ends, so that no user key
  has entries both inside and outside of the compaction; it refuses exactly when a file of that run is
  already being compacted, and it reports the start of the file behind the run.\<close>

theorem clean_cut_correct:
  assumes "comparator (sstableKeyCompare ucmp) ok" "level_sorted (sstableKeyCompare ucmp) ok (level_files vs level)"
    and "0 < level" "level < num_non_empty_levels vs" and "s < e" "e \<le> length (level_files vs level)"
  shows "\<exists>s' e'. clean_segment (sstableKeyCompare ucmp) (level_files vs level) s e s' e' \<and>
    ExpandInputsToCleanCut icmp ucmp vs level (segment (level_files vs level) s e) =
      Some (\<not> (\<exists>f \<in> set (segment (level_files vs level) s' e'). being_compacted f),
        segment (level_files vs level) s' e',
        if e' < length (level_files vs level) then Some (smallest (level_files vs level ! e')) else None)"
proof -
  obtain s' e' where "clean_segment (sstableKeyCompare ucmp) (level_files vs level) s e s' e'"
    "clean_cut_loop icmp ucmp vs level (segment (level_files vs level) s e) None =
      Some (segment (level_files vs level) s' e',
        if e' < length (level_files vs level) then Some (smallest (level_files vs level ! e')) else None)"
    using clean_cut_loop_result [OF assms, of None] by blast
  then show ?thesis
    using assms(3) by (auto simp: ExpandInputsToCleanCut_def AreFilesInCompaction_def list_ex_iff)
qed

text \<open>Four files that meet pairwise in the user keys 3 and 7, and a fifth one behind them.\<close>

abbreviation sample_level :: VersionStorageInfo where
  "sample_level \<equiv> \<lparr>level_files = (\<lambda>l. if l = 1 then
       [sample_file 0 1 False, sample_file 2 3 False, sample_file 3 7 False, sample_file 7 8 False, sample_file 9 10 True] else []),
     num_non_empty_levels = 2, base_level = 1\<rparr>"

lemma sample_level_sorted: "level_sorted (sstableKeyCompare bytewise_Compare) (\<lambda>_. True) (level_files sample_level 1)"
  by code_simp

lemma sample_cut:
  "ExpandInputsToCleanCut (ikc_Compare bytewise_Compare) bytewise_Compare sample_level 1 (segment (level_files sample_level 1) 2 3) =
     Some (True, segment (level_files sample_level 1) 1 4, Some (smallest (sample_file 9 10 True)))"
  by code_simp

theorem clean_cut_correct_witness:
  "\<exists>s' e'. clean_segment (sstableKeyCompare bytewise_Compare) (level_files sample_level 1) 2 3 s' e' \<and>
    segment (level_files sample_level 1) s' e' = segment (level_files sample_level 1) 1 4"
proof -
  have "0 < (1 :: nat)" "1 < num_non_empty_levels sample_level" "2 < (3 :: nat)" "3 \<le> length (level_files sample_level 1)" by simp_all
  from clean_cut_correct [OF sst.comparator_axioms sample_level_sorted this, of "ikc_Compare bytewise_Compare"]
  show ?thesis unfolding sample_cut by (simp only: option.inject prod.inject) metis
qed

end
