(* ===== verification/L0_Picker_Properties.thy ===== *)
theory L0_Picker_Properties
  imports L0_Picker Compaction_Inputs_Properties
begin

text \<open>
  What the choice of level-0 files guarantees: the group that goes to the base level is a whole
  component of overlapping files that are not being compacted; a trivial move is disjoint; a compaction
  inside level 0 takes a prefix or a whole group. And what it does not: files that are being compacted
  inside level 0 are not taken into account.
\<close>

section \<open>Groups for the base level\<close>

lemma user_keys_overlap_sym: "user_keys_overlap ucmp a b \<Longrightarrow> user_keys_overlap ucmp b a"
  by (auto simp: user_keys_overlap_def)

lemma active_groups_grouping:
  assumes "distinct files"
  obtains gs where "active_groups ucmp files = Some gs" "is_grouping (user_keys_overlap ucmp) files gs"
proof -
  let ?n = "length files" and ?is = "filter (\<lambda>i. \<not> being_compacted (files ! i)) [0..<length files]"
  let ?ps = "overlap_pairs ?n (\<lambda>i. being_compacted (files ! i)) (\<lambda>i j. user_keys_overlap ucmp (files ! i) (files ! j))"
  have "\<exists>u. join_all union_sets ?ps [0..<?n] = Some u \<and> (forest u \<and> length u = ?n) \<and>
      (\<forall>a < ?n. \<forall>b < ?n. rep u a = rep u b \<longleftrightarrow> (a, b) \<in> linked ?ps)"
    by (rule plain.join_all_components) (auto simp: uf_init_ok rep_init set_overlap_pairs)
  then obtain u where u: "join_all union_sets ?ps [0..<?n] = Some u" "forest u" "length u = ?n"
    "\<And>a b. a < ?n \<Longrightarrow> b < ?n \<Longrightarrow> rep u a = rep u b \<longleftrightarrow> (a, b) \<in> linked ?ps" by blast
  have r: "find_all uf_find ?is u = Some (map (\<lambda>i. (rep u i, i)) ?is)"
    using u(2,3) by (intro plain.find_all_repr [where n = ?n]) auto
  let ?gs = "map (map (\<lambda>i. files ! i)) (map snd (group_map (map (\<lambda>i. (rep u i, i)) ?is)))"
  have "active_groups ucmp files = Some ?gs"
    using u(1) r by (simp add: active_groups_def comp_def split_def)
  moreover have "is_grouping (user_keys_overlap ucmp) files ?gs"
    by (rule components_grouping [OF assms user_keys_overlap_sym u(4) refl]) simp_all
  ultimately show ?thesis using that by blast
qed

lemma gs_files_score_groups [simp]: "map gs_files (score_groups alpha gs) = map gs_files gs"
  by (simp add: score_groups_def Let_def)

lemma gs_files_measure_group [simp]: "gs_files (measure_group icmp ucmp vs level fs) = fs"
  by (simp add: measure_group_def Let_def split_def)

lemma choose_group_mem:
  assumes "groups \<noteq> []"
  shows "choose_group icmp ucmp opts vs level groups \<in> set groups"
proof (cases "l0_weight_compaction opts")
  case True
  let ?gs = "score_groups (l0_file_count_weight opts) (map (measure_group icmp ucmp vs level) groups)"
  have m: "map gs_files ?gs = groups" by (simp add: comp_def)
  then have "sort_by better_score ?gs \<noteq> []" using assms by (metis length_sort_by length_map length_greater_0_conv)
  then have "hd (sort_by better_score ?gs) \<in> set ?gs" by (metis hd_in_set set_sort_by)
  then have "gs_files (hd (sort_by better_score ?gs)) \<in> set (map gs_files ?gs)" unfolding set_map by (rule imageI)
  then show ?thesis using True m by (simp add: choose_group_def)
next
  case False
  have "sort_by (\<lambda>a b. length a > length b) groups \<noteq> []" using assms by (metis length_sort_by length_greater_0_conv)
  then show ?thesis using False by (metis choose_group_def hd_in_set set_sort_by)
qed

lemma choose_group_largest:
  assumes "\<not> l0_weight_compaction opts" "g \<in> set groups"
  shows "length g \<le> length (choose_group icmp ucmp opts vs level groups)"
proof -
  let ?s = "sort_by (\<lambda>a b. length a > length b) groups"
  have "weak_order UNIV (\<lambda>a b. length a > length b)" by (auto simp: weak_order_def)
  then have "sorted_wrt (\<lambda>a b. \<not> length b > length a) ?s" using sorted_sort_by by blast
  moreover have "g \<in> set ?s" using assms(2) by simp
  ultimately have "length g \<le> length (hd ?s)" by (cases ?s) auto
  then show ?thesis using assms(1) by (simp add: choose_group_def)
qed

text \<open>An active file that overlaps a file of a group is in the group.\<close>

lemma grouping_closed:
  assumes "is_grouping ov files gs" "distinct files" "g \<in> set gs" "f \<in> set g" "h \<in> set (active files)" "ov f h"
  shows "h \<in> set g"
proof -
  have f: "f \<in> set (active files)" by (rule grouping_active [OF assms(1,3,4)])
  have r: "(f, h) \<in> (overlap_rel ov (set (active files)))\<^sup>*" using f assms(5,6) by (auto simp: overlap_rel_def)
  have "h \<in> set (concat gs)" using assms(1,5) unfolding is_grouping_def by (metis mset_eq_setD)
  then obtain g' where "g' \<in> set gs" "h \<in> set g'" by auto
  then obtain j where j: "j < length gs" "h \<in> set (gs ! j)" by (metis in_set_conv_nth)
  obtain i where i: "i < length gs" "g = gs ! i" using assms(3) by (auto simp: in_set_conv_nth)
  show ?thesis using grouping_separate [OF assms(1,2) i(1) j(1)] r assms(4) i(2) j(2) by (cases "i = j") auto
qed

lemma ToBase_chosen:
  assumes "distinct (level_files vs 0)" "PickFileToCompact_L0 icmp ucmp order opts vs output_level = Some (ToBase g)"
  obtains gs where "is_grouping (user_keys_overlap ucmp) (level_files vs 0) gs" "gs \<noteq> []"
    "g = choose_group icmp ucmp opts vs output_level gs"
proof -
  obtain gs where gs: "active_groups ucmp (level_files vs 0) = Some gs" "is_grouping (user_keys_overlap ucmp) (level_files vs 0) gs"
    using active_groups_grouping [OF assms(1)] .
  have g: "g = choose_group icmp ucmp opts vs output_level gs" "\<not> list_all being_compacted (level_files vs 0)"
    using assms(2) gs(1) by (auto simp: PickFileToCompact_L0_def bind_eq_Some_conv split: option.splits if_splits)
  have "gs \<noteq> []" using gs(2) g(2) by (auto simp: is_grouping_def list_all_iff filter_empty_conv)
  then show ?thesis using that gs(2) g(1) by blast
qed

text \<open>C9. When a group of level-0 files is sent to the base level, none of its files is being compacted,
  every file outside the group that is not being compacted is disjoint from it in user keys, the
  group is connected, and without weights no other group has more files: two compactions that are
  picked one after the other never share a file.\<close>

theorem l0_group_pick:
  assumes "distinct (level_files vs 0)" "PickFileToCompact_L0 icmp ucmp order opts vs output_level = Some (ToBase g)"
  shows "g \<noteq> [] \<and> set g \<subseteq> set (active (level_files vs 0)) \<and>
    (\<forall>f \<in> set g. \<forall>h \<in> set (active (level_files vs 0)). user_keys_overlap ucmp f h \<longrightarrow> h \<in> set g) \<and>
    (\<forall>f \<in> set g. \<forall>h \<in> set g. (f, h) \<in> (overlap_rel (user_keys_overlap ucmp) (set (active (level_files vs 0))))\<^sup>*) \<and>
    (\<not> l0_weight_compaction opts \<longrightarrow>
      (\<exists>gs. is_grouping (user_keys_overlap ucmp) (level_files vs 0) gs \<and> (\<forall>g' \<in> set gs. length g' \<le> length g)))"
proof -
  obtain gs where gs: "is_grouping (user_keys_overlap ucmp) (level_files vs 0) gs" "gs \<noteq> []"
    "g = choose_group icmp ucmp opts vs output_level gs" using ToBase_chosen [OF assms] .
  have g: "g \<in> set gs" using choose_group_mem [OF gs(2)] gs(3) by simp
  have "g \<noteq> []" using gs(1) g unfolding is_grouping_def by metis
  moreover have "set g \<subseteq> set (active (level_files vs 0))" using grouping_active [OF gs(1) g] by blast
  moreover note grouping_closed [OF gs(1) assms(1) g] grouping_connected [OF gs(1) g]
  moreover have "\<forall>g' \<in> set gs. length g' \<le> length g" if "\<not> l0_weight_compaction opts"
    using choose_group_largest [OF that] gs(3) by simp
  ultimately show ?thesis using gs(1) by blast
qed

text \<open>\<open>PickFileToCompact\<close> always comes to a decision at level 0: the union-find computations end, and it
  picks nothing exactly when no trivial move and no compaction inside level 0 is found and every file
  is already being compacted.\<close>

lemma l0_pick_decides:
  assumes "distinct (level_files vs 0)" "permutes_map order"
  shows "\<exists>pick. PickFileToCompact_L0 icmp ucmp order opts vs output_level = Some pick \<and>
    (pick = NoPick \<longleftrightarrow> TryPickL0TrivialMove icmp ucmp opts vs output_level = None \<and>
       PickSizeBasedIntraL0Compaction icmp order opts vs = Some None \<and> active (level_files vs 0) = [])"
proof -
  obtain gs where gs: "active_groups ucmp (level_files vs 0) = Some gs" using active_groups_grouping [OF assms(1)] by blast
  obtain ms where "FindL0OverlappingGroups icmp order (level_files vs 0) = Some ms"
    using FindL0OverlappingGroups_groups [OF assms] by blast
  then obtain intra where i: "PickSizeBasedIntraL0Compaction icmp order opts vs = Some intra"
    by (cases "PickSizeBasedIntraL0Compaction icmp order opts vs") (auto simp: PickSizeBasedIntraL0Compaction_def Let_def split: if_splits)
  show ?thesis
    using gs i by (auto simp: PickFileToCompact_L0_def list_all_iff filter_empty_conv split: option.splits)
qed

section \<open>Compactions inside level 0 that are running\<close>

lemma no_conflict_with_intra_l0:
  assumes "0 < level" "\<forall>c \<in> set running. rc_output_level c = 0 \<and> rc_proximal c = None"
  shows "\<not> FilesRangeOverlapWithCompaction icmp ucmp universal running inputs level None"
proof -
  have "\<not> RangeOverlapWithCompaction ucmp running lo hi level" for lo hi
    using assms by (auto simp: RangeOverlapWithCompaction_def OverlapProximalLevelOutputRange_def list_ex_iff)
  then show ?thesis by (simp add: FilesRangeOverlapWithCompaction_def Let_def split: option.splits)
qed

text \<open>A newer file that is free and overlaps an older one that is being compacted; level 0 lists newer files first.\<close>

definition over_older_busy :: "(key \<Rightarrow> key \<Rightarrow> int) \<Rightarrow> FileMetaData list \<Rightarrow> nat \<Rightarrow> bool" where
  "over_older_busy ucmp files i \<longleftrightarrow> \<not> being_compacted (files ! i) \<and>
     (\<exists>j < length files. i < j \<and> being_compacted (files ! j) \<and> user_keys_overlap ucmp (files ! i) (files ! j))"

text \<open>C25. A compaction inside level 0 does not hold back the newer files above it. Suppose every free
  level-0 file overlaps an older file that is being compacted, all running compactions stay inside
  level 0, and neither a trivial move nor a compaction inside level 0 is found. Then a group of these
  files is picked for the base level all the same, and no range conflict is found. Its newer entries
  then lie below the older entries of the same keys, which stay in level 0.\<close>

theorem l0_pick_ignores_intra_l0:
  assumes "distinct (level_files vs 0)" "active (level_files vs 0) \<noteq> []"
    and "\<forall>i < length (level_files vs 0). being_compacted (level_files vs 0 ! i) \<or> over_older_busy ucmp (level_files vs 0) i"
    and "TryPickL0TrivialMove icmp ucmp opts vs output_level = None"
    and "PickSizeBasedIntraL0Compaction icmp order opts vs = Some None" "0 < output_level"
    and "\<forall>c \<in> set running. rc_output_level c = 0 \<and> rc_proximal c = None"
  shows "\<exists>g. PickFileToCompact_L0 icmp ucmp order opts vs output_level = Some (ToBase g) \<and> g \<noteq> [] \<and>
    (\<forall>f \<in> set g. \<exists>i < length (level_files vs 0). f = level_files vs 0 ! i \<and> over_older_busy ucmp (level_files vs 0) i) \<and>
    \<not> FilesRangeOverlapWithCompaction icmp ucmp universal running
        (\<lparr>input_level = 0, input_files = g\<rparr> # output_inputs) output_level None"
proof -
  obtain gs where gs: "active_groups ucmp (level_files vs 0) = Some gs" "is_grouping (user_keys_overlap ucmp) (level_files vs 0) gs"
    using active_groups_grouping [OF assms(1)] .
  let ?g = "choose_group icmp ucmp opts vs output_level gs"
  have "\<not> list_all being_compacted (level_files vs 0)"
    using assms(2) by (auto simp: list_all_iff filter_empty_conv)
  then have p: "PickFileToCompact_L0 icmp ucmp order opts vs output_level = Some (ToBase ?g)"
    using gs(1) assms(4,5) by (simp add: PickFileToCompact_L0_def)
  have "gs \<noteq> []" using gs(2) assms(2) by (auto simp: is_grouping_def)
  then have g: "?g \<in> set gs" by (rule choose_group_mem)
  then have "?g \<noteq> []" using gs(2) unfolding is_grouping_def by metis
  moreover have "\<exists>i < length (level_files vs 0). f = level_files vs 0 ! i \<and> over_older_busy ucmp (level_files vs 0) i"
    if "f \<in> set ?g" for f
  proof -
    have "f \<in> set (level_files vs 0)" "\<not> being_compacted f" using grouping_active [OF gs(2) g that] by auto
    then show ?thesis using assms(3) by (metis in_set_conv_nth)
  qed
  ultimately show ?thesis using p no_conflict_with_intra_l0 [OF assms(6,7)] by blast
qed

section \<open>Examples\<close>

definition sample_options :: picker_options where
  "sample_options = \<lparr>use_new_flush = 1, enable_intra_l0_compaction = True, l0_weight_compaction = False,
     l0_file_count_weight = 1 / 2, level0_file_num_compaction_trigger = 4, max_compaction_bytes = 1000,
     max_bytes_for_level_multiplier = 10, compression_per_level_empty = True, num_db_paths = 1\<rparr>"

abbreviation l0_only :: "FileMetaData list \<Rightarrow> VersionStorageInfo" where
  "l0_only files \<equiv> \<lparr>level_files = (\<lambda>l. if l = 0 then files else []), num_non_empty_levels = 1, base_level = 1\<rparr>"

text \<open>A newer file over an older one that is being compacted, with the compaction that holds it.\<close>

abbreviation stale_files :: "FileMetaData list" where
  "stale_files \<equiv> [sample_file 2 5 False, sample_file 1 9 True]"

abbreviation intra_l0_running :: "RunningCompaction list" where
  "intra_l0_running \<equiv> [\<lparr>rc_output_level = 0, rc_smallest_user_key = [1], rc_largest_user_key = [9], rc_proximal = None\<rparr>]"

lemma sample_pick:
  "PickFileToCompact_L0 (ikc_Compare bytewise_Compare) bytewise_Compare id sample_options (l0_only sample_files) 1 =
     Some (ToBase [sample_file 1 4 False, sample_file 3 6 False, sample_file 5 8 False])"
  by code_simp

lemma stale_facts:
  "distinct stale_files" "active stale_files = [sample_file 2 5 False]"
  "\<forall>i < length stale_files. being_compacted (stale_files ! i) \<or> over_older_busy bytewise_Compare stale_files i"
  "TryPickL0TrivialMove (ikc_Compare bytewise_Compare) bytewise_Compare sample_options (l0_only stale_files) 1 = None"
  "PickSizeBasedIntraL0Compaction (ikc_Compare bytewise_Compare) id sample_options (l0_only stale_files) = Some None"
  by code_simp+

theorem l0_group_pick_witness:
  "set [sample_file 1 4 False, sample_file 3 6 False, sample_file 5 8 False] \<subseteq> set (active sample_files) \<and>
   (sample_file 1 4 False, sample_file 5 8 False) \<in> (overlap_rel (user_keys_overlap bytewise_Compare) (set (active sample_files)))\<^sup>*"
  using l0_group_pick [OF _ sample_pick] sample_distinct by simp

theorem l0_pick_ignores_intra_l0_witness:
  "\<exists>g. PickFileToCompact_L0 (ikc_Compare bytewise_Compare) bytewise_Compare id sample_options (l0_only stale_files) 1 =
       Some (ToBase g) \<and> g \<noteq> [] \<and>
     \<not> FilesRangeOverlapWithCompaction (ikc_Compare bytewise_Compare) bytewise_Compare False intra_l0_running
         [\<lparr>input_level = 0, input_files = g\<rparr>] 1 None"
proof -
  have h: "distinct (level_files (l0_only stale_files) 0)" "active (level_files (l0_only stale_files) 0) \<noteq> []"
    "\<forall>i < length (level_files (l0_only stale_files) 0). being_compacted (level_files (l0_only stale_files) 0 ! i) \<or>
       over_older_busy bytewise_Compare (level_files (l0_only stale_files) 0) i"
    "(0 :: nat) < 1" "\<forall>c \<in> set intra_l0_running. rc_output_level c = 0 \<and> rc_proximal c = None"
    using stale_facts(1-3) by simp_all
  obtain g where g: "PickFileToCompact_L0 (ikc_Compare bytewise_Compare) bytewise_Compare id sample_options (l0_only stale_files) 1 =
       Some (ToBase g)" "g \<noteq> []"
     "\<not> FilesRangeOverlapWithCompaction (ikc_Compare bytewise_Compare) bytewise_Compare False intra_l0_running
         [\<lparr>input_level = 0, input_files = g\<rparr>] 1 None"
    using l0_pick_ignores_intra_l0 [OF h(1-3) stale_facts(4,5) h(4,5), of False "[]"] by (elim exE conjE)
  then show ?thesis by (intro exI conjI)
qed

end
