(* ===== verification/Spec2Isabelle.thy ===== *)
theory Spec2Isabelle
  imports Flush_Properties L0_Depth L0_Tracker Wal_Set Version_Edit_Roundtrip L0_Range_Scan_Properties L0_Picker_Properties
begin

text \<open>
  \<^bold>\<open>Verification of BucketLSM\<close>, a fork of RocksDB that divides the key space into buckets, flushes a memtable
  into one level-0 file per bucket, groups overlapping level-0 files for parallel compactions and reads
  level 0 with a range-aware iterator. The development follows the data: from the bucket manager over
  the flush and the level-0 bookkeeping to the choice of compactions, the scan, and the manifest records
  that make the result durable. Paths are relative to \<^verbatim>\<open>src/\<close>.

  \<^bold>\<open>Parts and theories\<close>

  \<^item> \<open>Prelude\<close>, \<open>Std_Sort\<close>, \<open>Float64\<close>, \<open>Key_Ranges\<close>: bytes, keys and machine words, ordered maps
    (\<^verbatim>\<open>std::map\<close> as a sorted association list), \<^verbatim>\<open>std::sort\<close>, IEEE double arithmetic as rounded
    rationals with its error bounds, and chains of key ranges.
  \<^item> \<open>Bucket_Window\<close>, \<open>Split_Point\<close>, \<open>Bucket_Manager\<close>, \<open>Bucket_Adjust\<close>, \<open>Bucket_Steps\<close>: \<^verbatim>\<open>Bucket\<close> and
    \<^verbatim>\<open>BucketManager\<close> of \<^verbatim>\<open>db/column_family.h\<close> and \<^verbatim>\<open>.cc\<close>. The record \<open>BucketManager\<close> is the state under the
    mutex, with one definition per method; \<open>Bucket_Steps\<close> has the step relation of atomic calls and its
    reachable states. \<open>Bucket_Properties\<close> shows the invariant, the lookups, the soundness of snapshots by
    the structure epoch, the conservation of statistics, both paths of a completed flush, the thresholds of
    the adjustment, when the buckets stay a partition and when a split point lies inside its bucket, and
    what a split without room does.
  \<^item> \<open>Bucket_Flush\<close>: \<^verbatim>\<open>FlushJob::WriteBucketLevel0Table\<close> of \<^verbatim>\<open>db/flush_job.cc\<close>, from the first split points to the
    version edit, in its sequential and parallel form. \<open>Flush_Properties\<close> shows that a flush hands every
    entry to one table builder and adds exactly the tables built, which are disjoint; that a failed one
    adds no file, and which failure has already changed the statistics; that both forms agree except for
    the blob files, which the parallel one loses; that the statistics are complete; and that range
    deletions do not influence it.
  \<^item> \<open>Coding\<close>, \<open>Comparators\<close>, \<open>Db_Format\<close>: \<^verbatim>\<open>util/coding.h\<close>, \<^verbatim>\<open>util/comparator.cc\<close> and \<^verbatim>\<open>db/dbformat.h\<close>. Round
    trips of the encodings, the contract of a comparator as the locale \<open>comparator\<close> with the built-in
    comparators and the internal key comparator as interpretations, and the order of internal keys.
  \<^item> \<open>File_Meta\<close>, \<open>Edit_Parts\<close>, \<open>Wal_Set\<close>, \<open>Version_Edit\<close>: file metadata, blob and log records and version
    edits (\<^verbatim>\<open>db/version_edit.cc\<close>, \<^verbatim>\<open>db/wal_edit.cc\<close>, \<^verbatim>\<open>db/blob/\<close>). \<open>Version_Edit_Properties\<close> shows that decoding
    ends on every input, \<open>Version_Edit_Roundtrip\<close> that it gives back what was encoded; the set of logs
    depends only on what was announced, not on its order.
  \<^item> \<open>Union_Find\<close>, \<open>L0_Groups\<close>: the groups of overlapping level-0 files of \<^verbatim>\<open>db/version_set.cc\<close>,
    \<^verbatim>\<open>db/l0_group_helper.cc\<close> and \<^verbatim>\<open>db/compaction/compaction_picker_level.cc\<close>. The two union-find structures of
    the code are interpretations of the locale \<open>disjoint_sets\<close>. \<open>L0_Group_Properties\<close> shows that the groups
    are the connected components and have disjoint ranges, \<open>L0_Depth\<close> that the sweep computes the overlap
    depth of the files that are not being compacted and how the two group counts compare.
  \<^item> \<open>L0_Tracker\<close>: \<^verbatim>\<open>L0GroupTracker\<close> and \<^verbatim>\<open>L0RangeIndex\<close>, which refine the set of live files.
  \<^item> \<open>Compaction_Inputs\<close>: overlap searches, clean cuts and conflicts (\<^verbatim>\<open>db/version_set.cc\<close>,
    \<^verbatim>\<open>db/compaction/compaction_picker.cc\<close>). \<open>Compaction_Inputs_Properties\<close> shows that the expansion to a clean
    cut ends with the least clean run of files.
  \<^item> \<open>L0_Picker\<close>: the level-0 part of \<^verbatim>\<open>LevelCompactionBuilder\<close>. \<open>L0_Picker_Properties\<close> shows that a picked group is a
    whole component of files that are free, and that compactions inside level 0 are not respected.
  \<^item> \<open>L0_Range_Scan\<close>: \<^verbatim>\<open>L0RangeScanIterator\<close> of \<^verbatim>\<open>db/version_set.cc\<close>. \<open>L0_Range_Scan_Properties\<close> shows that a scan from
    the start is complete and sorted, that a seek is right over disjoint files, and which seeks lose
    entries.

  \<^bold>\<open>How code is modelled\<close>

  A class is a record and a method a function from the old state to the new one; a lock makes a method
  atomic. A status is a value of a datatype or of a sum type, a null pointer or a missing result is
  \<open>None\<close>. Assertions are compiled out, as in a release build, except where the code after them
  would be undefined: there the result is \<open>None\<close>. Integers of fixed width are words, so that wrap-around is that of the code. The order in which a
  hash map is traversed is a parameter \<open>order\<close>, of which the theorems use that it permutes
  (\<open>permutes_map\<close>). User keys are compared by a parameter \<open>ucmp\<close>, internal keys by \<open>icmp\<close>; where the order
  matters the theorems assume the laws of \<open>comparator\<close>, and the interpretations show that the built-in
  comparators satisfy them. Table building is the parameter \<open>build\<close> of the flush.

  \<^bold>\<open>Loops, bounds and fuel\<close>

  Loops over a list are structural recursions or folds. The loops of union-find (\<open>uf_find\<close>), of decoding
  (\<open>decode_loop\<close>) and of clean cuts (\<open>clean_cut_loop\<close>) are partial functions into the option type, where \<open>None\<close>
  is the loop that does not end; the theorems about them show that they return. \<open>collect\<close> runs a
  scan for a given number of steps, and the number of entries is shown to be enough.

  \<^bold>\<open>Not modelled\<close>

  Threads, files, the environment, caches, memtables, table formats, options and tools of RocksDB are I/O
  or concurrent data structures that the fork leaves unchanged; the modelled parts take what they
  need of them as arguments. The choice of compactions below level 0, universal and FIFO compaction,
  level scores, the write path, log files, recovery and user iterators are not modelled either: they
  depend on many options and on background scheduling. Within modelled parts, logging, statistics
  counters, sync points of debug builds and printers are left out.
\<close>

end
